(* ===== verification/Bytes.thy ===== *)
theory Bytes
  imports Prelude
begin

text \<open>
  Byte encodings.  Every digest of the engine hashes a byte string that is built from
  little-endian \<open>u64\<close> values, single tag bytes and length-prefixed byte strings
  (\<open>EntryDigest::update_bytes\<close>, src/versioning.rs).  The locale \<open>self_delimiting\<close> is the interface of
  such an encoding: an encoded value can be read off the front of a longer byte string in only one
  way.  The lemmas proved in it lift an encoding to options and to counted lists.
\<close>

section \<open>Little-endian integers and strings as bytes\<close>

definition byte_at :: "nat \<Rightarrow> u64 \<Rightarrow> byte" where
  "byte_at i w = ucast (drop_bit (8 * i) w)"

definition to_le_bytes :: "u64 \<Rightarrow> bytes" where
  "to_le_bytes w = map (\<lambda>i. byte_at i w) [0, 1, 2, 3, 4, 5, 6, 7]"

definition char_byte :: "char \<Rightarrow> byte" where
  "char_byte c = of_nat (of_char c)"

definition as_bytes :: "string \<Rightarrow> bytes" where
  "as_bytes s = map char_byte s"

lemma length_to_le_bytes [simp]: "length (to_le_bytes w) = 8"
  by (simp add: to_le_bytes_def)

lemma length_as_bytes [simp]: "length (as_bytes s) = length s"
  by (simp add: as_bytes_def)

lemma bit_byte_at: "i < 8 \<Longrightarrow> bit (byte_at k w) i = bit w (8 * k + i)"
  by (simp add: byte_at_def bit_ucast_iff bit_drop_bit_eq)

lemma to_le_bytes_inject [simp]: "to_le_bytes v = to_le_bytes w \<longleftrightarrow> v = w"
proof
  assume eq: "to_le_bytes v = to_le_bytes w"
  have parts: "byte_at k v = byte_at k w" if "k < 8" for k
  proof -
    have "to_le_bytes v ! k = byte_at k v" "to_le_bytes w ! k = byte_at k w"
      using that by (auto simp: to_le_bytes_def less_Suc_eq numeral_eq_Suc)
    with eq show ?thesis by simp
  qed
  show "v = w"
  proof (rule bit_word_eqI)
    fix n :: nat
    assume n: "n < LENGTH(64)"
    then have "n div 8 < 8" by simp
    then have "bit (byte_at (n div 8) v) (n mod 8) = bit (byte_at (n div 8) w) (n mod 8)"
      using parts by simp
    then show "bit v n = bit w n"
      by (simp add: bit_byte_at)
  qed
qed simp

lemma char_byte_inject [simp]: "char_byte c = char_byte d \<longleftrightarrow> c = d"
proof
  assume "char_byte c = char_byte d"
  then have "unat (of_nat (of_char c) :: byte) = unat (of_nat (of_char d) :: byte)"
    by (simp add: char_byte_def)
  then have "(of_char c :: nat) = of_char d"
    by (simp add: unat_of_nat)
  then show "c = d" by simp
qed simp

lemma inj_char_byte: "inj char_byte"
  by (rule injI) simp

lemma as_bytes_inject [simp]: "as_bytes s = as_bytes t \<longleftrightarrow> s = t"
  unfolding as_bytes_def by (simp add: inj_char_byte inj_map_eq_map)

section \<open>Length-prefixed byte strings\<close>

definition update_bytes :: "bytes \<Rightarrow> bytes" where
  "update_bytes bs = to_le_bytes (of_nat (length bs)) @ bs"

text \<open>The lengths a Rust byte slice can have: below \<open>2^64\<close>.\<close>

definition sized :: "'a list \<Rightarrow> bool" where
  "sized xs \<longleftrightarrow> length xs < 2 ^ 64"

definition no_bound :: "'a \<Rightarrow> bool" where
  "no_bound x \<longleftrightarrow> True"

lemma no_bound_simp [simp]: "no_bound x"
  by (simp add: no_bound_def)

lemma sized_as_bytes [simp]: "sized (as_bytes s) \<longleftrightarrow> sized s"
  by (simp add: sized_def)

lemma of_nat_length_inject:
  "sized xs \<Longrightarrow> sized ys \<Longrightarrow>
   (of_nat (length xs) :: u64) = of_nat (length ys) \<longleftrightarrow> length xs = length ys"
  by (auto simp: sized_def unat_of_nat dest!: arg_cong [where f = unat])

section \<open>The interface of a self-delimiting encoding\<close>

locale self_delimiting =
  fixes enc :: "'a \<Rightarrow> bytes"
    and ok :: "'a \<Rightarrow> bool"
  assumes enc_cancel: "ok a \<Longrightarrow> ok b \<Longrightarrow> enc a @ x = enc b @ y \<longleftrightarrow> a = b \<and> x = y"
begin

lemma enc_inject: "ok a \<Longrightarrow> ok b \<Longrightarrow> enc a = enc b \<longleftrightarrow> a = b"
  using enc_cancel [of a b "[]" "[]"] by simp

lemma enc_list_cancel:
  "list_all ok as \<Longrightarrow> list_all ok bs \<Longrightarrow> length as = length bs \<Longrightarrow>
   concat (map enc as) @ x = concat (map enc bs) @ y \<longleftrightarrow> as = bs \<and> x = y"
proof (induction as arbitrary: bs)
  case Nil
  then show ?case by simp
next
  case (Cons a as)
  then obtain b bs' where bs: "bs = b # bs'" by (cases bs) auto
  with Cons show ?case by (simp add: enc_cancel)
qed

lemma counted_cancel:
  assumes "list_all ok as" and "list_all ok bs" and "sized as" and "sized bs"
  shows "to_le_bytes (of_nat (length as)) @ concat (map enc as) @ x =
         to_le_bytes (of_nat (length bs)) @ concat (map enc bs) @ y \<longleftrightarrow> as = bs \<and> x = y"
    (is "?l = ?r \<longleftrightarrow> _")
proof
  assume eq: "?l = ?r"
  then have "(of_nat (length as) :: u64) = of_nat (length bs)"
    and rest: "concat (map enc as) @ x = concat (map enc bs) @ y"
    by simp_all
  then have "length as = length bs"
    using assms by (simp add: of_nat_length_inject)
  with rest assms show "as = bs \<and> x = y"
    by (simp add: enc_list_cancel)
qed simp

lemma option_cancel:
  assumes "pred_option ok a" and "pred_option ok b"
  shows "(case a of Some v \<Rightarrow> [1] @ enc v | None \<Rightarrow> [0]) @ x =
         (case b of Some v \<Rightarrow> [1] @ enc v | None \<Rightarrow> [0]) @ y \<longleftrightarrow> a = b \<and> x = y"
  using assms by (auto split: option.splits simp: enc_cancel)

end

section \<open>The encodings the engine uses\<close>

interpretation le_u64: self_delimiting to_le_bytes no_bound
  by unfold_locales simp

interpretation prefixed: self_delimiting update_bytes sized
proof
  fix a b x y :: bytes
  assume ok: "sized a" "sized b"
  show "update_bytes a @ x = update_bytes b @ y \<longleftrightarrow> a = b \<and> x = y"
  proof
    assume eq: "update_bytes a @ x = update_bytes b @ y"
    then have "(of_nat (length a) :: u64) = of_nat (length b)" and rest: "a @ x = b @ y"
      by (simp_all add: update_bytes_def)
    then have "length a = length b" using ok by (simp add: of_nat_length_inject)
    with rest show "a = b \<and> x = y" by simp
  qed simp
qed

lemma prefixed_string_cancel:
  "sized s \<Longrightarrow> sized t \<Longrightarrow>
   update_bytes (as_bytes s) @ x = update_bytes (as_bytes t) @ y \<longleftrightarrow> s = t \<and> x = y"
  by (simp add: prefixed.enc_cancel)

end
