(* ===== verification/Records.thy ===== *)
theory Records
  imports Bytes
begin

text \<open>
  Sequence numbers and record keys: src/sequence.rs, src/snapshot.rs and src/record.rs.
  The newtypes over \<open>u64\<close> (\<open>CommitSequence\<close>, \<open>SnapshotIdentifier\<close>, \<open>RecordIdentifier\<close>) are
  \<open>u64\<close> values; their \<open>next\<close> is the machine addition, which wraps at \<open>2^64\<close>.
\<close>

section \<open>Sequences and snapshots\<close>

type_synonym commit_sequence = u64
type_synonym snapshot_identifier = u64
type_synonym record_identifier = u64

definition commit_sequence_genesis :: commit_sequence where
  "commit_sequence_genesis = 0"

definition commit_sequence_next :: "commit_sequence \<Rightarrow> commit_sequence" where
  "commit_sequence_next s = s + 1"

definition snapshot_genesis :: snapshot_identifier where
  "snapshot_genesis = 0"

definition snapshot_next :: "snapshot_identifier \<Rightarrow> snapshot_identifier" where
  "snapshot_next s = s + 1"

record database_marker =
  marker_commit_sequence :: commit_sequence
  marker_snapshot :: snapshot_identifier

definition database_marker_genesis :: database_marker where
  "database_marker_genesis =
     \<lparr>marker_commit_sequence = commit_sequence_genesis, marker_snapshot = snapshot_genesis\<rparr>"

definition record_identifier_first :: record_identifier where
  "record_identifier_first = 1"

definition record_identifier_next :: "record_identifier \<Rightarrow> record_identifier" where
  "record_identifier_next i = i + 1"

lemma unat_next:
  "unat (s :: u64) < 2 ^ 64 - 1 \<Longrightarrow> unat (s + 1) = unat s + 1"
  by (simp add: unat_word_ariths)

lemma less_next: "unat (s :: u64) < 2 ^ 64 - 1 \<Longrightarrow> s < s + 1"
  by (simp add: word_less_nat_alt unat_next)

lemma next_wraps: "(0xFFFFFFFFFFFFFFFF :: u64) + 1 = 0"
  by simp

section \<open>Record keys\<close>

datatype record_key_kind = DomainKind | IdentifierKind

fun digest_tag :: "record_key_kind \<Rightarrow> byte" where
  "digest_tag DomainKind = 1"
| "digest_tag IdentifierKind = 2"

datatype record_key = Domain string | Identifier record_identifier

fun key_kind :: "record_key \<Rightarrow> record_key_kind" where
  "key_kind (Domain s) = DomainKind"
| "key_kind (Identifier i) = IdentifierKind"

text \<open>\<open>RecordKey::new\<close> delegates to \<open>RecordKey::domain\<close>; \<open>RecordKey::identifier\<close> wraps a minted identifier.\<close>

definition record_key_new :: "string \<Rightarrow> record_key" where
  "record_key_new s = Domain s"

definition record_key_identifier :: "record_identifier \<Rightarrow> record_key" where
  "record_key_identifier i = Identifier i"

text \<open>Decimal rendering of an unsigned integer, as \<open>u64::to_string\<close> gives it.\<close>

definition digit_char :: "nat \<Rightarrow> char" where
  "digit_char d = char_of (48 + d)"

fun decimal :: "nat \<Rightarrow> string" where
  "decimal n =
     (if n < 10 then [digit_char n] else decimal (n div 10) @ [digit_char (n mod 10)])"

declare decimal.simps [simp del]

fun to_owned_string :: "record_key \<Rightarrow> string" where
  "to_owned_string (Domain s) = s"
| "to_owned_string (Identifier i) = decimal (unat i)"

fun identifier_value :: "record_key \<Rightarrow> record_identifier option" where
  "identifier_value (Domain s) = None"
| "identifier_value (Identifier i) = Some i"

definition encoded_len :: "record_key \<Rightarrow> nat" where
  "encoded_len k = 1 + length (to_owned_string k)"

text \<open>The bytes \<open>RecordKey::update_digest\<close> feeds the hasher.\<close>

definition key_digest_bytes :: "record_key \<Rightarrow> bytes" where
  "key_digest_bytes k =
     [digest_tag (key_kind k)] @ update_bytes (as_bytes (to_owned_string k))"

text \<open>The bytes the unit tests of src/record.rs lock down for a key: one tag byte, then the length-prefixed
  canonical string.\<close>

definition expected_digest_input :: "byte \<Rightarrow> string \<Rightarrow> bytes" where
  "expected_digest_input tag canonical =
     [tag] @ to_le_bytes (of_nat (length canonical)) @ as_bytes canonical"

lemma digit_char_inject: "a < 10 \<Longrightarrow> b < 10 \<Longrightarrow> digit_char a = digit_char b \<longleftrightarrow> a = b"
proof -
  assume lt: "a < 10" "b < 10"
  have "(of_char (digit_char a) :: nat) = 48 + a" "(of_char (digit_char b) :: nat) = 48 + b"
    using lt by (simp_all add: digit_char_def)
  then show ?thesis by (metis add_left_cancel)
qed

lemma decimal_nonempty [simp]: "decimal n \<noteq> []" "[] \<noteq> decimal n"
  by (subst decimal.simps, simp)+

lemma decimal_inject [simp]: "decimal m = decimal n \<longleftrightarrow> m = n"
proof
  assume "decimal m = decimal n"
  then show "m = n"
  proof (induction m arbitrary: n rule: decimal.induct)
    case (1 m)
    show ?case
    proof (cases "m < 10 \<or> n < 10")
      case True
      with "1.prems" show ?thesis
        by (auto simp: decimal.simps [of m] decimal.simps [of n] digit_char_inject
            split: if_splits)
    next
      case False
      with "1.prems" have "decimal (m div 10) = decimal (n div 10)"
        and "digit_char (m mod 10) = digit_char (n mod 10)"
        by (simp_all add: decimal.simps [of m] decimal.simps [of n])
      with False "1.IH" have "m div 10 = n div 10" and "m mod 10 = n mod 10"
        by (simp_all add: digit_char_inject)
      then show ?thesis by (metis mult_div_mod_eq)
    qed
  qed
qed simp

lemma key_digest_expected:
  "key_digest_bytes (Domain s) = expected_digest_input 1 s"
  "key_digest_bytes (Identifier i) = expected_digest_input 2 (decimal (unat i))"
  by (simp_all add: key_digest_bytes_def expected_digest_input_def update_bytes_def)

text \<open>Rendering loses the kind: a domain key can spell an identifier.\<close>

lemma to_owned_string_inject_kind:
  "key_kind a = key_kind b \<Longrightarrow> to_owned_string a = to_owned_string b \<longleftrightarrow> a = b"
  by (cases a; cases b) (auto simp: word_unat_eq_iff)

section \<open>The derived order of record keys\<close>

instantiation record_key :: linorder
begin

fun less_eq_record_key :: "record_key \<Rightarrow> record_key \<Rightarrow> bool" where
  "less_eq_record_key (Domain s) (Domain t) \<longleftrightarrow> s \<le> t"
| "less_eq_record_key (Domain s) (Identifier i) \<longleftrightarrow> True"
| "less_eq_record_key (Identifier i) (Domain s) \<longleftrightarrow> False"
| "less_eq_record_key (Identifier i) (Identifier j) \<longleftrightarrow> i \<le> j"

definition less_record_key :: "record_key \<Rightarrow> record_key \<Rightarrow> bool" where
  "less_record_key a b \<longleftrightarrow> a \<le> b \<and> \<not> b \<le> a"

instance
proof
  fix x y z :: record_key
  show "x < y \<longleftrightarrow> x \<le> y \<and> \<not> y \<le> x" by (rule less_record_key_def)
  show "x \<le> x" by (cases x) auto
  show "x \<le> y \<Longrightarrow> y \<le> z \<Longrightarrow> x \<le> z" by (cases x; cases y; cases z) auto
  show "x \<le> y \<Longrightarrow> y \<le> x \<Longrightarrow> x = y" by (cases x; cases y) auto
  show "x \<le> y \<or> y \<le> x" by (cases x; cases y) auto
qed

end

section \<open>Record key digests are self-delimiting\<close>

definition key_sized :: "record_key \<Rightarrow> bool" where
  "key_sized k \<longleftrightarrow> sized (to_owned_string k)"

interpretation key_bytes: self_delimiting key_digest_bytes key_sized
proof
  fix a b :: record_key and x y :: bytes
  assume "key_sized a" and "key_sized b"
  then have "key_digest_bytes a @ x = key_digest_bytes b @ y \<longleftrightarrow>
      digest_tag (key_kind a) = digest_tag (key_kind b) \<and> to_owned_string a = to_owned_string b
      \<and> x = y"
    by (simp add: key_digest_bytes_def key_sized_def prefixed.enc_cancel)
  moreover have "digest_tag (key_kind a) = digest_tag (key_kind b) \<longleftrightarrow> key_kind a = key_kind b"
    by (cases "key_kind a"; cases "key_kind b") auto
  ultimately show "key_digest_bytes a @ x = key_digest_bytes b @ y \<longleftrightarrow> a = b \<and> x = y"
    using to_owned_string_inject_kind by blast
qed

end
