(* ===== verification/Versioning.thy ===== *)
theory Versioning
  imports Records
begin

text \<open>
  Versioned history: src/versioning.rs.  Store policy, family identities, the operations and
  entries of the versioned commit log, and the byte strings their digests are computed over.
  \<open>blake3\<close> (crate \<open>blake3\<close>) and \<open>SemaOperation::as_record_head\<close> (crate \<open>signal-sema\<close>) are outside the
  repository; they are the fields of the parameter record \<open>primitives\<close>.
\<close>

section \<open>Code outside the repository\<close>

text \<open>The operation classes of \<open>signal-sema\<close> (README.md lists the six).\<close>

datatype sema_operation = Assert | Mutate | Retract | Match | Subscribe | Validate

record primitives =
  blake3 :: "bytes \<Rightarrow> digest"
  as_record_head :: "sema_operation \<Rightarrow> string"

text \<open>Documented behaviour of \<open>as_record_head\<close>: distinct operations have distinct heads.\<close>

definition record_heads_ok :: "'p primitives_scheme \<Rightarrow> bool" where
  "record_heads_ok p \<longleftrightarrow> inj (as_record_head p) \<and> (\<forall>oper. sized (as_record_head p oper))"

text \<open>The non-empty operation list of \<open>signal-frame\<close>: a head and a tail.\<close>

datatype 'a non_empty = NonEmpty (ne_head: 'a) (ne_tail: "'a list")

fun ne_list :: "'a non_empty \<Rightarrow> 'a list" where
  "ne_list (NonEmpty x xs) = x # xs"

definition ne_single :: "'a \<Rightarrow> 'a non_empty" where
  "ne_single x = NonEmpty x []"

fun ne_try_from_vec :: "'a list \<Rightarrow> 'a non_empty option" where
  "ne_try_from_vec [] = None"
| "ne_try_from_vec (x # xs) = Some (NonEmpty x xs)"

lemma ne_list_single [simp]: "ne_list (ne_single x) = [x]"
  by (simp add: ne_single_def)

lemma ne_list_nonempty [simp]: "ne_list xs \<noteq> []"
  by (cases xs) simp

lemma ne_list_inject [simp]: "ne_list xs = ne_list ys \<longleftrightarrow> xs = ys"
  by (cases xs; cases ys) auto

lemma ne_try_from_vec_Some [simp]: "ne_try_from_vec xs = Some ys \<longleftrightarrow> xs = ne_list ys"
  by (cases xs; cases ys) auto

lemma ne_try_from_vec_None [simp]: "ne_try_from_vec xs = None \<longleftrightarrow> xs = []"
  by (cases xs) auto

section \<open>Store policy\<close>

datatype versioned_recovery_topology = LocalCheckpoint | Mirror

definition default_maximum_live_entries :: u64 where
  "default_maximum_live_entries = 4096"

record versioned_history_retention =
  maximum_live_entries :: u64

definition conservative_default :: versioned_history_retention where
  "conservative_default = \<lparr>maximum_live_entries = default_maximum_live_entries\<rparr>"

record versioning_policy =
  policy_store_name :: string
  policy_recovery_topology :: versioned_recovery_topology
  policy_retention :: versioned_history_retention

definition versioning_policy_new :: "string \<Rightarrow> versioning_policy" where
  "versioning_policy_new name =
     \<lparr>policy_store_name = name, policy_recovery_topology = LocalCheckpoint,
      policy_retention = conservative_default\<rparr>"

definition with_recovery_topology ::
  "versioning_policy \<Rightarrow> versioned_recovery_topology \<Rightarrow> versioning_policy" where
  "with_recovery_topology p t = p\<lparr>policy_recovery_topology := t\<rparr>"

definition with_retention ::
  "versioning_policy \<Rightarrow> versioned_history_retention \<Rightarrow> versioning_policy" where
  "with_retention p r = p\<lparr>policy_retention := r\<rparr>"

section \<open>Family identities\<close>

record family_identity =
  family :: string
  family_schema_hash :: digest
  family_table_name :: string

definition shares_family :: "family_identity \<Rightarrow> family_identity \<Rightarrow> bool" where
  "shares_family a b \<longleftrightarrow> family a = family b \<and> family_schema_hash a = family_schema_hash b"

definition family_digest_bytes :: "family_identity \<Rightarrow> bytes" where
  "family_digest_bytes f =
     update_bytes (as_bytes (family f)) @ update_bytes (family_schema_hash f)
     @ update_bytes (as_bytes (family_table_name f))"

definition identified_counter_suffix :: string where
  "identified_counter_suffix = ''next_record_identifier''"

definition identified_counter_key :: "string \<Rightarrow> string" where
  "identified_counter_key table = table @ '':'' @ identified_counter_suffix"

definition family_identified_counter_key :: "family_identity \<Rightarrow> string" where
  "family_identified_counter_key f = family_table_name f @ '':'' @ identified_counter_suffix"

text \<open>The \<open>{byte:02x}\<close> rendering of digests, used in error messages.\<close>

definition hex_digit :: "nat \<Rightarrow> char" where
  "hex_digit d = (if d < 10 then char_of (48 + d) else char_of (87 + d))"

definition digest_display :: "digest \<Rightarrow> string" where
  "digest_display bs = concat (map (\<lambda>b. [hex_digit (unat b div 16), hex_digit (unat b mod 16)]) bs)"

definition family_display :: "family_identity \<Rightarrow> string" where
  "family_display f =
     family f @ ''@'' @ digest_display (family_schema_hash f) @ '' (table ''
     @ family_table_name f @ '')''"

section \<open>The store schema hash\<close>

definition store_schema_bytes :: "(string \<times> digest) list \<Rightarrow> bytes" where
  "store_schema_bytes inventory =
     (let sorted = sort inventory in
      update_bytes (as_bytes ''sema-engine-store-schema-hash-v1'')
      @ to_le_bytes (of_nat (length sorted))
      @ concat (map (\<lambda>(fam, hash). update_bytes (as_bytes fam) @ update_bytes hash) sorted))"

definition store_schema_from_inventory ::
  "'p primitives_scheme \<Rightarrow> (string \<times> digest) list \<Rightarrow> digest" where
  "store_schema_from_inventory p inventory = blake3 p (store_schema_bytes inventory)"

definition store_schema_of_families ::
  "'p primitives_scheme \<Rightarrow> family_identity list \<Rightarrow> digest" where
  "store_schema_of_families p families =
     store_schema_from_inventory p (map (\<lambda>f. (family f, family_schema_hash f)) families)"

section \<open>Operations and entries of the versioned log\<close>

datatype versioned_payload = PayloadRecord bytes | Tombstone

fun payload_bytes :: "versioned_payload \<Rightarrow> bytes option" where
  "payload_bytes (PayloadRecord bs) = Some bs"
| "payload_bytes Tombstone = None"

fun payload_digest_bytes :: "versioned_payload \<Rightarrow> bytes" where
  "payload_digest_bytes (PayloadRecord bs) = [1] @ update_bytes bs"
| "payload_digest_bytes Tombstone = [0]"

record versioned_log_operation =
  vop_operation :: sema_operation
  vop_family :: family_identity
  vop_key :: "record_key option"
  vop_payload :: versioned_payload

definition optional_key_bytes :: "record_key option \<Rightarrow> bytes" where
  "optional_key_bytes key =
     (case key of Some k \<Rightarrow> [1] @ key_digest_bytes k | None \<Rightarrow> [0])"

definition operation_digest_bytes ::
  "'p primitives_scheme \<Rightarrow> versioned_log_operation \<Rightarrow> bytes" where
  "operation_digest_bytes p oper =
     update_bytes (as_bytes (as_record_head p (vop_operation oper)))
     @ family_digest_bytes (vop_family oper)
     @ optional_key_bytes (vop_key oper)
     @ payload_digest_bytes (vop_payload oper)"

record versioned_entry =
  ve_store_name :: string
  ve_schema_hash :: digest
  ve_commit_sequence :: commit_sequence
  ve_snapshot :: snapshot_identifier
  ve_previous_entry_digest :: "digest option"
  ve_entry_digest :: digest
  ve_operations :: "versioned_log_operation non_empty"

definition optional_digest_bytes :: "digest option \<Rightarrow> bytes" where
  "optional_digest_bytes d =
     (case d of Some v \<Rightarrow> [1] @ update_bytes v | None \<Rightarrow> [0])"

definition entry_bytes ::
  "'p primitives_scheme \<Rightarrow> string \<Rightarrow> digest \<Rightarrow> commit_sequence \<Rightarrow> snapshot_identifier
   \<Rightarrow> digest option \<Rightarrow> versioned_log_operation non_empty \<Rightarrow> bytes" where
  "entry_bytes p store_name schema_hash seq snap previous operations =
     update_bytes (as_bytes ''sema-engine-versioned-commit-log-entry-v2'')
     @ update_bytes (as_bytes store_name)
     @ update_bytes schema_hash
     @ to_le_bytes seq
     @ to_le_bytes snap
     @ optional_digest_bytes previous
     @ to_le_bytes (of_nat (length (ne_list operations)))
     @ concat (map (operation_digest_bytes p) (ne_list operations))"

definition from_entry_fields ::
  "'p primitives_scheme \<Rightarrow> string \<Rightarrow> digest \<Rightarrow> commit_sequence \<Rightarrow> snapshot_identifier
   \<Rightarrow> digest option \<Rightarrow> versioned_log_operation non_empty \<Rightarrow> digest" where
  "from_entry_fields p store_name schema_hash seq snap previous operations =
     blake3 p (entry_bytes p store_name schema_hash seq snap previous operations)"

definition versioned_entry_new ::
  "'p primitives_scheme \<Rightarrow> string \<Rightarrow> digest \<Rightarrow> commit_sequence \<Rightarrow> snapshot_identifier
   \<Rightarrow> digest option \<Rightarrow> versioned_log_operation non_empty \<Rightarrow> versioned_entry" where
  "versioned_entry_new p store_name schema_hash seq snap previous operations =
     \<lparr>ve_store_name = store_name, ve_schema_hash = schema_hash, ve_commit_sequence = seq,
      ve_snapshot = snap, ve_previous_entry_digest = previous,
      ve_entry_digest = from_entry_fields p store_name schema_hash seq snap previous operations,
      ve_operations = operations\<rparr>"

text \<open>The bytes and the digest recomputed from an entry's own fields.\<close>

definition entry_own_bytes :: "'p primitives_scheme \<Rightarrow> versioned_entry \<Rightarrow> bytes" where
  "entry_own_bytes p e =
     entry_bytes p (ve_store_name e) (ve_schema_hash e) (ve_commit_sequence e) (ve_snapshot e)
       (ve_previous_entry_digest e) (ve_operations e)"

definition recomputed_digest :: "'p primitives_scheme \<Rightarrow> versioned_entry \<Rightarrow> digest" where
  "recomputed_digest p e =
     from_entry_fields p (ve_store_name e) (ve_schema_hash e) (ve_commit_sequence e)
       (ve_snapshot e) (ve_previous_entry_digest e) (ve_operations e)"

lemma recomputed_digest_own: "recomputed_digest p e = blake3 p (entry_own_bytes p e)"
  by (simp add: recomputed_digest_def from_entry_fields_def entry_own_bytes_def)

lemma recomputed_digest_new [simp]:
  "recomputed_digest p (versioned_entry_new p n h s sn prev opers) =
   ve_entry_digest (versioned_entry_new p n h s sn prev opers)"
  by (simp add: recomputed_digest_def versioned_entry_new_def)

lemma versioned_entry_new_sel [simp]:
  "ve_store_name (versioned_entry_new p n h s sn prev opers) = n"
  "ve_schema_hash (versioned_entry_new p n h s sn prev opers) = h"
  "ve_commit_sequence (versioned_entry_new p n h s sn prev opers) = s"
  "ve_snapshot (versioned_entry_new p n h s sn prev opers) = sn"
  "ve_previous_entry_digest (versioned_entry_new p n h s sn prev opers) = prev"
  "ve_operations (versioned_entry_new p n h s sn prev opers) = opers"
  by (simp_all add: versioned_entry_new_def)

end
