(* ===== verification/Query.thy ===== *)
theory Query
  imports Versioning
begin

text \<open>
  Query plans and query results: src/query.rs.  A \<open>TableReference<RecordValue>\<close> is the table's
  name; its phantom record type has no run-time content.  \<open>Box\<close>ed sub-plans are sub-terms.
\<close>

type_synonym table_reference = string

section \<open>Key ranges and filters\<close>

record key_range =
  range_start :: "record_key option"
  range_end :: "record_key option"

definition key_range_new :: "record_key option \<Rightarrow> record_key option \<Rightarrow> key_range" where
  "key_range_new s e = \<lparr>range_start = s, range_end = e\<rparr>"

definition key_range_from :: "record_key \<Rightarrow> key_range" where
  "key_range_from s = key_range_new (Some s) None"

definition key_range_through :: "record_key \<Rightarrow> key_range" where
  "key_range_through e = key_range_new None (Some e)"

definition key_range_between :: "record_key \<Rightarrow> record_key \<Rightarrow> key_range" where
  "key_range_between s e = key_range_new (Some s) (Some e)"

definition is_none_or :: "('a \<Rightarrow> bool) \<Rightarrow> 'a option \<Rightarrow> bool" where
  "is_none_or P x = (case x of None \<Rightarrow> True | Some y \<Rightarrow> P y)"

definition key_range_contains :: "key_range \<Rightarrow> record_key \<Rightarrow> bool" where
  "key_range_contains r key \<longleftrightarrow>
     is_none_or (\<lambda>s. key \<ge> s) (range_start r) \<and> is_none_or (\<lambda>e. key \<le> e) (range_end r)"

record record_identifier_range =
  id_range_start :: "record_identifier option"
  id_range_end :: "record_identifier option"

definition id_range_new ::
  "record_identifier option \<Rightarrow> record_identifier option \<Rightarrow> record_identifier_range" where
  "id_range_new s e = \<lparr>id_range_start = s, id_range_end = e\<rparr>"

definition id_range_from :: "record_identifier \<Rightarrow> record_identifier_range" where
  "id_range_from s = id_range_new (Some s) None"

definition id_range_through :: "record_identifier \<Rightarrow> record_identifier_range" where
  "id_range_through e = id_range_new None (Some e)"

definition id_range_between :: "record_identifier \<Rightarrow> record_identifier \<Rightarrow> record_identifier_range" where
  "id_range_between s e = id_range_new (Some s) (Some e)"

definition id_range_contains :: "record_identifier_range \<Rightarrow> record_identifier \<Rightarrow> bool" where
  "id_range_contains r i \<longleftrightarrow>
     is_none_or (\<lambda>s. i \<ge> s) (id_range_start r) \<and> is_none_or (\<lambda>e. i \<le> e) (id_range_end r)"

datatype query_filter = FilterAll | FilterKey record_key | FilterKeyRange key_range

fun filter_accepts :: "query_filter \<Rightarrow> record_key \<Rightarrow> bool" where
  "filter_accepts FilterAll key = True"
| "filter_accepts (FilterKey expected) key = (expected = key)"
| "filter_accepts (FilterKeyRange r) key = key_range_contains r key"

section \<open>Read plans\<close>

record predicate_plan =
  predicate_expression :: string

record field_selection =
  selection_fields :: "string list"

record unification_plan =
  unification_bindings :: "string list"

record aggregate_plan =
  aggregate_reducer :: string

record rule_set_ref =
  rule_set_name :: string

record recursion_mode =
  recursion_edge :: string

definition field_selection_named :: "string list \<Rightarrow> field_selection" where
  "field_selection_named names = \<lparr>selection_fields = names\<rparr>"

definition unification_plan_new :: "string list \<Rightarrow> unification_plan" where
  "unification_plan_new names = \<lparr>unification_bindings = names\<rparr>"

datatype read_plan_node =
    AllRows
  | ByKey record_key
  | ByKeyRange key_range
  | FilterPlan read_plan_node predicate_plan
  | Constrain unification_plan
  | Project read_plan_node field_selection
  | Aggregate read_plan_node aggregate_plan
  | Infer read_plan_node rule_set_ref
  | Recurse read_plan_node recursion_mode

datatype read_operator =
    OpAllRows | OpByKey | OpByKeyRange | OpFilter | OpConstrain | OpProject | OpAggregate
  | OpInfer | OpRecurse

fun plan_operator :: "read_plan_node \<Rightarrow> read_operator" where
  "plan_operator AllRows = OpAllRows"
| "plan_operator (ByKey k) = OpByKey"
| "plan_operator (ByKeyRange r) = OpByKeyRange"
| "plan_operator (FilterPlan src pred) = OpFilter"
| "plan_operator (Constrain unify) = OpConstrain"
| "plan_operator (Project src selection) = OpProject"
| "plan_operator (Aggregate src reducer) = OpAggregate"
| "plan_operator (Infer src rules) = OpInfer"
| "plan_operator (Recurse seed mode) = OpRecurse"

datatype identified_read_plan_node =
    IdAllRows
  | ByIdentifier record_identifier
  | ByIdentifierRange record_identifier_range

fun identified_plan_operator :: "identified_read_plan_node \<Rightarrow> read_operator" where
  "identified_plan_operator IdAllRows = OpAllRows"
| "identified_plan_operator (ByIdentifier i) = OpByKey"
| "identified_plan_operator (ByIdentifierRange r) = OpByKeyRange"

text \<open>A \<open>ReadPlan<RecordValue>\<close> is its node; an \<open>IdentifiedReadPlan\<close> likewise.\<close>

type_synonym read_plan = read_plan_node
type_synonym identified_read_plan = identified_read_plan_node

definition read_plan_all_rows :: read_plan where
  "read_plan_all_rows = AllRows"

definition read_plan_by_key :: "record_key \<Rightarrow> read_plan" where
  "read_plan_by_key key = ByKey key"

definition read_plan_by_key_range :: "key_range \<Rightarrow> read_plan" where
  "read_plan_by_key_range r = ByKeyRange r"

definition read_plan_filter :: "read_plan \<Rightarrow> predicate_plan \<Rightarrow> read_plan" where
  "read_plan_filter src pred = FilterPlan src pred"

definition read_plan_constrain :: "unification_plan \<Rightarrow> read_plan" where
  "read_plan_constrain unify = Constrain unify"

definition read_plan_project :: "read_plan \<Rightarrow> field_selection \<Rightarrow> read_plan" where
  "read_plan_project src selection = Project src selection"

definition read_plan_aggregate :: "read_plan \<Rightarrow> aggregate_plan \<Rightarrow> read_plan" where
  "read_plan_aggregate src reducer = Aggregate src reducer"

definition read_plan_infer :: "read_plan \<Rightarrow> rule_set_ref \<Rightarrow> read_plan" where
  "read_plan_infer src rules = Infer src rules"

definition read_plan_recurse :: "read_plan \<Rightarrow> recursion_mode \<Rightarrow> read_plan" where
  "read_plan_recurse seed mode = Recurse seed mode"

definition identified_plan_all_rows :: identified_read_plan where
  "identified_plan_all_rows = IdAllRows"

definition identified_plan_by_identifier :: "record_identifier \<Rightarrow> identified_read_plan" where
  "identified_plan_by_identifier i = ByIdentifier i"

definition identified_plan_by_range :: "record_identifier_range \<Rightarrow> identified_read_plan" where
  "identified_plan_by_range r = ByIdentifierRange r"

record query_plan =
  plan_table :: table_reference
  plan_filter :: query_filter
  plan_read :: read_plan

definition query_all :: "table_reference \<Rightarrow> query_plan" where
  "query_all t =
     \<lparr>plan_table = t, plan_filter = FilterAll, plan_read = read_plan_all_rows\<rparr>"

definition query_key :: "table_reference \<Rightarrow> record_key \<Rightarrow> query_plan" where
  "query_key t k =
     \<lparr>plan_table = t, plan_filter = FilterKey k, plan_read = read_plan_by_key k\<rparr>"

definition query_key_range :: "table_reference \<Rightarrow> key_range \<Rightarrow> query_plan" where
  "query_key_range t r =
     \<lparr>plan_table = t, plan_filter = FilterKeyRange r, plan_read = read_plan_by_key_range r\<rparr>"

definition query_filtered :: "table_reference \<Rightarrow> predicate_plan \<Rightarrow> query_plan" where
  "query_filtered t x =
     \<lparr>plan_table = t, plan_filter = FilterAll, plan_read = read_plan_filter read_plan_all_rows x\<rparr>"

definition query_constrain :: "table_reference \<Rightarrow> unification_plan \<Rightarrow> query_plan" where
  "query_constrain t unify =
     \<lparr>plan_table = t, plan_filter = FilterAll, plan_read = read_plan_constrain unify\<rparr>"

definition query_project :: "table_reference \<Rightarrow> field_selection \<Rightarrow> query_plan" where
  "query_project t x =
     \<lparr>plan_table = t, plan_filter = FilterAll, plan_read = read_plan_project read_plan_all_rows x\<rparr>"

definition query_aggregate :: "table_reference \<Rightarrow> aggregate_plan \<Rightarrow> query_plan" where
  "query_aggregate t x =
     \<lparr>plan_table = t, plan_filter = FilterAll, plan_read = read_plan_aggregate read_plan_all_rows x\<rparr>"

definition query_infer :: "table_reference \<Rightarrow> rule_set_ref \<Rightarrow> query_plan" where
  "query_infer t x =
     \<lparr>plan_table = t, plan_filter = FilterAll, plan_read = read_plan_infer read_plan_all_rows x\<rparr>"

definition query_recurse :: "table_reference \<Rightarrow> recursion_mode \<Rightarrow> query_plan" where
  "query_recurse t x =
     \<lparr>plan_table = t, plan_filter = FilterAll, plan_read = read_plan_recurse read_plan_all_rows x\<rparr>"

lemmas read_plan_defs = read_plan_all_rows_def read_plan_by_key_def read_plan_by_key_range_def
  read_plan_filter_def read_plan_constrain_def read_plan_project_def read_plan_aggregate_def
  read_plan_infer_def read_plan_recurse_def

record identified_query_plan =
  iplan_table :: table_reference
  iplan_read :: identified_read_plan

definition identified_query_all :: "table_reference \<Rightarrow> identified_query_plan" where
  "identified_query_all t = \<lparr>iplan_table = t, iplan_read = identified_plan_all_rows\<rparr>"

definition identified_query_identifier ::
  "table_reference \<Rightarrow> record_identifier \<Rightarrow> identified_query_plan" where
  "identified_query_identifier t i = \<lparr>iplan_table = t, iplan_read = identified_plan_by_identifier i\<rparr>"

definition identified_query_range ::
  "table_reference \<Rightarrow> record_identifier_range \<Rightarrow> identified_query_plan" where
  "identified_query_range t r = \<lparr>iplan_table = t, iplan_read = identified_plan_by_range r\<rparr>"

section \<open>Query results\<close>

record 'r query_snapshot =
  qs_operation :: sema_operation
  qs_table :: string
  qs_marker :: database_marker
  qs_records :: "'r list"

record 'r identified_record =
  ir_identifier :: record_identifier
  ir_value :: 'r

record 'r identified_query_snapshot =
  iqs_operation :: sema_operation
  iqs_table :: string
  iqs_marker :: database_marker
  iqs_records :: "'r identified_record list"

record validation_receipt =
  vr_operation :: sema_operation
  vr_table :: string
  vr_marker :: database_marker
  vr_record_count :: nat

section \<open>Lemmas\<close>

lemma is_none_or_simps [simp]: "is_none_or P None" "is_none_or P (Some x) = P x"
  by (simp_all add: is_none_or_def)

lemma key_range_between_contains:
  "key_range_contains (key_range_between s e) key \<longleftrightarrow> s \<le> key \<and> key \<le> e"
  by (simp add: key_range_contains_def key_range_between_def key_range_new_def)

text \<open>Every identifier key lies above every domain key, so an open-ended range over domain
  keys has no upper identifier.\<close>

lemma key_range_through_domain:
  "key_range_contains (key_range_through (Domain s)) (Identifier i) = False"
  by (simp add: key_range_contains_def key_range_through_def key_range_new_def)

end
