(* ===== verification/Compaction.thy ===== *)
theory Compaction
  imports Records
begin

text \<open>
  The durable compaction intent: src/compaction.rs.  Its phases advance
  \<open>Planned\<close>, \<open>Applied\<close>, \<open>Checkpointed\<close>; from \<open>Applied\<close> on it names the plan's last sequence.
\<close>

datatype compaction_phase = Planned | Applied | Checkpointed

record compaction_intent =
  intent_phase :: compaction_phase
  intent_final_sequence :: "commit_sequence option"

definition intent_planned :: compaction_intent where
  "intent_planned = \<lparr>intent_phase = Planned, intent_final_sequence = None\<rparr>"

definition intent_applied :: "commit_sequence \<Rightarrow> compaction_intent" where
  "intent_applied s = \<lparr>intent_phase = Applied, intent_final_sequence = Some s\<rparr>"

definition intent_checkpointed :: "commit_sequence \<Rightarrow> compaction_intent" where
  "intent_checkpointed s = \<lparr>intent_phase = Checkpointed, intent_final_sequence = Some s\<rparr>"

definition intent_is_planned :: "compaction_intent \<Rightarrow> bool" where
  "intent_is_planned i \<longleftrightarrow> intent_phase i = Planned"

datatype compaction_fault =
    AfterPlanPersisted
  | AfterRetractionsApplied
  | AfterCheckpointPublished
  | AfterHistoryFloorAdvanced

text \<open>Every intent the engine writes carries a final sequence exactly when it is past \<open>Planned\<close>.\<close>

definition intent_ok :: "compaction_intent \<Rightarrow> bool" where
  "intent_ok i \<longleftrightarrow> (intent_final_sequence i = None \<longleftrightarrow> intent_phase i = Planned)"

lemma intent_ok_constructors [simp]:
  "intent_ok intent_planned" "intent_ok (intent_applied s)" "intent_ok (intent_checkpointed s)"
  by (simp_all add: intent_ok_def intent_planned_def intent_applied_def intent_checkpointed_def)

end
