(* ===== verification/Errors.thy ===== *)
theory Errors
  imports Query Compaction
begin

text \<open>
  The engine's error values: src/error.rs, one constructor per variant in the source's order, and the
  carrier that smuggles an engine error through the storage kernel's error type.
  \<open>sema::Error\<close> belongs to the storage kernel; the model keeps what the engine inspects of it: an
  \<open>Io\<close> error that carries an engine error (\<open>IoCarrier\<close>), \<open>RkyvDecode\<close> with its table, and the
  remaining kernel errors as opaque messages.
\<close>

datatype kernel_error =
    RkyvDecode string
  | OtherKernel string

datatype (plugins only: ) error =
    Sema kernel_error
  | StorageLayoutMismatch u64 u64
  | TableAlreadyRegistered string
  | FamilyIdentityMismatch string string string
  | FamilyAlreadyBound string string string
  | TableNotRegistered string
  | RecordNotFound string string
  | EmptyCommit string
  | EmptyAtomicCommit
  | DuplicateWriteKey string string
  | DuplicateAssertKey string string
  | VersionedPayloadEncode string string
  | VersionedPayloadDecode string string
  | ReplayMissingKey string
  | ReplayUnsupportedOperation string
  | ReplayTombstonePayload string
  | VersioningNotEnabled string
  | VersionedLogIncomplete u64 u64
  | VersionedChainBroken u64
  | CheckpointNothingToCover
  | CheckpointEncode string
  | CheckpointDecode string
  | CheckpointDigestMismatch digest digest
  | SegmentDigestMismatch digest digest
  | SegmentMissing digest
  | SegmentSurplus nat nat
  | CheckpointRowMissing u64
  | ViewDigestMismatch digest digest
  | CheckpointSchemaMismatch digest digest
  | ImportStoreNotFresh
  | ImportMissingCheckpoint
  | ImportCheckpointAlreadyIngested
  | ImportStoreNameMismatch string string
  | FamilyUnknown string
  | MaterializeTableMismatch string string string
  | MaterializeKeyKindMismatch string string string string
  | UnknownCommitSequence u64
  | OutboxEntryMismatch u64
  | MirrorHeadUnknown u64
  | HistoryCompactionUnacknowledged u64 "u64 option"
  | HistoryCompactionTopologyMismatch string string
  | VersioningPolicyRequired
  | VersioningPolicyMismatch
  | CompactionRecoveryRequired compaction_phase
  | MirrorHeadForked u64 digest digest
  | StagingSessionEngaged
  | CompactionIntentOccupied
  | CompactionIntentMissingSequence
  | CompactionCheckpointBehind u64 u64
  | CompactionInterrupted string
  | StagingSessionNotEngaged string
  | StagingSlotOccupied
  | StagingSlotEmpty string
  | StagingBaseMoved u64
  | StagedGroupDigestMismatch u64 digest digest
  | StagedHeadMismatch digest digest
  | SubscriptionRegistryPoisoned
  | SubscriptionFailureLogPoisoned
  | SubscriptionSink string
  | UnsupportedReadPlan read_operator

datatype sema_error =
    Kernel kernel_error
  | IoCarrier error

text \<open>\<open>Error::into_storage\<close> and \<open>From<sema::Error>\<close>.\<close>

definition into_storage :: "error \<Rightarrow> sema_error" where
  "into_storage e = IoCarrier e"

fun from_sema :: "sema_error \<Rightarrow> error" where
  "from_sema (IoCarrier e) = e"
| "from_sema (Kernel other) = Sema other"

definition versioning_not_enabled :: "string \<Rightarrow> error" where
  "versioning_not_enabled surface = VersioningNotEnabled surface"

definition unknown_commit_sequence :: "commit_sequence \<Rightarrow> error" where
  "unknown_commit_sequence s = UnknownCommitSequence s"

type_synonym 'a eresult = "error + 'a"

lemma from_sema_into_storage [simp]: "from_sema (into_storage e) = e"
  by (simp add: into_storage_def)

end
