(* ===== verification/Logs.thy ===== *)
theory Logs
  imports Errors
begin

text \<open>
  The metadata commit log: src/log.rs.  An entry names the commit sequence, the snapshot and the
  operations (class, table and key) of one commit; a versioned entry projects down to it.
\<close>

record commit_log_operation =
  clo_operation :: sema_operation
  clo_table_name :: string
  clo_key :: "record_key option"

record commit_log_entry =
  cle_commit_sequence :: commit_sequence
  cle_snapshot :: snapshot_identifier
  cle_operations :: "commit_log_operation non_empty"

definition commit_log_operation_new ::
  "sema_operation \<Rightarrow> string \<Rightarrow> record_key option \<Rightarrow> commit_log_operation" where
  "commit_log_operation_new oper table key =
     \<lparr>clo_operation = oper, clo_table_name = table, clo_key = key\<rparr>"

definition commit_log_entry_new ::
  "commit_sequence \<Rightarrow> snapshot_identifier \<Rightarrow> commit_log_operation non_empty \<Rightarrow> commit_log_entry" where
  "commit_log_entry_new s sn opers =
     \<lparr>cle_commit_sequence = s, cle_snapshot = sn, cle_operations = opers\<rparr>"

definition commit_log_entry_single ::
  "commit_sequence \<Rightarrow> snapshot_identifier \<Rightarrow> commit_log_operation \<Rightarrow> commit_log_entry" where
  "commit_log_entry_single s sn oper = commit_log_entry_new s sn (ne_single oper)"

definition operation_count :: "commit_log_entry \<Rightarrow> nat" where
  "operation_count e = length (ne_list (cle_operations e))"

definition operation_of_versioned :: "versioned_log_operation \<Rightarrow> commit_log_operation" where
  "operation_of_versioned oper =
     \<lparr>clo_operation = vop_operation oper, clo_table_name = family_table_name (vop_family oper),
      clo_key = vop_key oper\<rparr>"

definition entry_of_versioned :: "versioned_entry \<Rightarrow> commit_log_entry" where
  "entry_of_versioned e =
     \<lparr>cle_commit_sequence = ve_commit_sequence e, cle_snapshot = ve_snapshot e,
      cle_operations = NonEmpty (operation_of_versioned (ne_head (ve_operations e)))
        (map operation_of_versioned (ne_tail (ve_operations e)))\<rparr>"

lemma operation_count_of_versioned:
  "operation_count (entry_of_versioned e) = length (ne_list (ve_operations e))"
  by (cases "ve_operations e") (simp add: operation_count_def entry_of_versioned_def)

end
