(* ===== verification/Sema_Tables.thy ===== *)
theory Sema_Tables
  imports Prelude
begin

text \<open>
  The contents of a storage table.  The storage kernel (crate \<open>sema\<close>, a dependency outside
  the repository) hands out typed tables with \<open>get\<close>, \<open>insert\<close>, \<open>remove\<close>, \<open>iter\<close> and \<open>range\<close>.
  What the engine relies on is the contract stated by the locale \<open>ordered_table\<close>: a table is a finite map
  whose rows are iterated in ascending key order.  The model keeps a table as its row list in
  that order, and the interpretation at the end discharges the contract for it.
\<close>

section \<open>The table contract\<close>

locale ordered_table =
  fixes get :: "'t \<Rightarrow> 'k::linorder \<Rightarrow> 'v option"
    and insert :: "'k \<Rightarrow> 'v \<Rightarrow> 't \<Rightarrow> 't"
    and remove :: "'k \<Rightarrow> 't \<Rightarrow> 't"
    and iter :: "'t \<Rightarrow> ('k \<times> 'v) list"
    and ok :: "'t \<Rightarrow> bool"
  assumes get_insert: "get (insert k v t) = (get t)(k \<mapsto> v)"
    and get_remove: "get (remove k t) = (get t)(k := None)"
    and get_iter: "ok t \<Longrightarrow> map_of (iter t) = get t"
    and iter_sorted: "ok t \<Longrightarrow> sorted_wrt (<) (map fst (iter t))"
    and iter_inject: "ok t \<Longrightarrow> ok t' \<Longrightarrow> iter t = iter t' \<Longrightarrow> t = t'"
    and ok_insert: "ok t \<Longrightarrow> ok (insert k v t)"
    and ok_remove: "ok t \<Longrightarrow> ok (remove k t)"
begin

text \<open>Removing a list of keys, as the compaction loops do.\<close>

lemma get_remove_all: "get (fold remove ks t) k = (if k \<in> set ks then None else get t k)"
  by (induction ks arbitrary: t) (auto simp: get_remove)

lemma ok_remove_all: "ok t \<Longrightarrow> ok (fold remove ks t)"
  by (induction ks arbitrary: t) (auto simp: ok_remove)

text \<open>Inserting a list of rows, the later row winning.\<close>

lemma get_insert_all:
  "get (fold (\<lambda>r. insert (fst r) (snd r)) rs t) = get t ++ map_of (rev rs)"
proof (induction rs arbitrary: t)
  case Nil
  then show ?case by simp
next
  case (Cons r rs)
  then show ?case
    by (auto simp: get_insert fun_eq_iff map_add_def split: option.splits)
qed

lemma ok_insert_all: "ok t \<Longrightarrow> ok (fold (\<lambda>r. insert (fst r) (snd r)) rs t)"
  by (induction rs arbitrary: t) (auto simp: ok_insert)

text \<open>Two well-formed tables with the same rows are the same table.\<close>

lemma sorted_rows_unique:
  "sorted_wrt (<) (map fst (xs :: ('k \<times> 'v) list)) \<Longrightarrow> sorted_wrt (<) (map fst ys) \<Longrightarrow>
   map_of xs = map_of ys \<Longrightarrow> xs = ys"
proof -
  assume s: "sorted_wrt (<) (map fst xs)" "sorted_wrt (<) (map fst ys)" and m: "map_of xs = map_of ys"
  then have dist: "distinct (map fst xs)" "distinct (map fst ys)"
    by (auto simp: strict_sorted_iff)
  then have same: "set xs = set ys"
    using m by (simp add: map_of_inject_set)
  from s same have "map fst xs = map fst ys"
    by (intro sorted_distinct_set_unique) (auto simp: strict_sorted_iff)
  moreover have "inj_on fst (set xs \<union> set ys)"
    using dist same by (simp add: distinct_map)
  ultimately show "xs = ys"
    by (simp add: inj_on_map_eq_map)
qed

lemma table_ext: "ok t \<Longrightarrow> ok t' \<Longrightarrow> get t = get t' \<Longrightarrow> t = t'"
  by (rule iter_inject) (auto intro!: sorted_rows_unique simp: iter_sorted get_iter)

lemma remove_absent: "ok t \<Longrightarrow> get t k = None \<Longrightarrow> remove k t = t"
  by (rule table_ext) (auto simp: ok_remove get_remove fun_eq_iff)

lemma insert_same: "ok t \<Longrightarrow> get t k = Some v \<Longrightarrow> insert k v t = t"
  by (rule table_ext) (auto simp: ok_insert get_insert fun_eq_iff)

lemma remove_insert_absent: "ok t \<Longrightarrow> get t k = None \<Longrightarrow> remove k (insert k v t) = t"
  by (rule table_ext) (auto simp: ok_remove ok_insert get_insert get_remove fun_eq_iff)

end

section \<open>Tables as key-ordered row lists\<close>

type_synonym ('k, 'v) tbl = "('k \<times> 'v) list"

definition tbl_get :: "('k, 'v) tbl \<Rightarrow> 'k \<Rightarrow> 'v option" where
  "tbl_get t k = map_of t k"

fun tbl_insert :: "'k::linorder \<Rightarrow> 'v \<Rightarrow> ('k, 'v) tbl \<Rightarrow> ('k, 'v) tbl" where
  "tbl_insert k v [] = [(k, v)]"
| "tbl_insert k v ((k', v') # t) =
     (if k < k' then (k, v) # (k', v') # t
      else if k = k' then (k, v) # t
      else (k', v') # tbl_insert k v t)"

definition tbl_remove :: "'k \<Rightarrow> ('k, 'v) tbl \<Rightarrow> ('k, 'v) tbl" where
  "tbl_remove k t = filter (\<lambda>r. fst r \<noteq> k) t"

definition tbl_iter :: "('k, 'v) tbl \<Rightarrow> ('k \<times> 'v) list" where
  "tbl_iter t = t"

text \<open>\<open>range(start..)\<close>: the rows from a key on, in key order.\<close>

definition tbl_from :: "'k::linorder \<Rightarrow> ('k, 'v) tbl \<Rightarrow> ('k \<times> 'v) list" where
  "tbl_from k t = filter (\<lambda>r. k \<le> fst r) t"

definition tbl_ok :: "('k::linorder, 'v) tbl \<Rightarrow> bool" where
  "tbl_ok t \<longleftrightarrow> sorted_wrt (<) (map fst t)"

lemma tbl_get_Nil [simp, table_simps]: "tbl_get [] = (\<lambda>k. None)"
  by (simp add: tbl_get_def fun_eq_iff)

lemma tbl_ok_Nil [simp, table_simps]: "tbl_ok []"
  by (simp add: tbl_ok_def)

lemma tbl_get_insert: "tbl_get (tbl_insert k v t) = (tbl_get t)(k \<mapsto> v)"
  by (induction k v t rule: tbl_insert.induct) (auto simp: tbl_get_def fun_eq_iff)

lemma tbl_get_remove: "tbl_get (tbl_remove k t) = (tbl_get t)(k := None)"
  by (induction t) (auto simp: tbl_get_def tbl_remove_def fun_eq_iff)

lemma keys_tbl_insert: "set (map fst (tbl_insert k v t)) = insert k (set (map fst t))"
  by (induction k v t rule: tbl_insert.induct) auto

lemma tbl_ok_Cons:
  "tbl_ok ((k, v) # t) \<longleftrightarrow> (\<forall>x \<in> set (map fst t). k < x) \<and> tbl_ok t"
  by (simp add: tbl_ok_def)

lemma tbl_ok_insert: "tbl_ok t \<Longrightarrow> tbl_ok (tbl_insert k v t)"
proof (induction k v t rule: tbl_insert.induct)
  case (1 k v)
  then show ?case by (simp add: tbl_ok_def)
next
  case (2 k v k' v' t)
  consider "k < k'" | "k = k'" | "k' < k" by (rule linorder_cases)
  then show ?case
  proof cases
    case 1
    with 2(2) show ?thesis by (simp add: tbl_ok_Cons) (metis order.strict_trans)
  next
    case 2
    with \<open>tbl_ok ((k', v') # t)\<close> show ?thesis by (simp add: tbl_ok_Cons)
  next
    case 3
    then have "tbl_insert k v ((k', v') # t) = (k', v') # tbl_insert k v t" by auto
    with 3 2 show ?thesis
      by (simp only: tbl_ok_Cons keys_tbl_insert) (simp add: tbl_ok_Cons)
  qed
qed

lemma tbl_ok_remove: "tbl_ok t \<Longrightarrow> tbl_ok (tbl_remove k t)"
  by (induction t) (auto simp: tbl_ok_def tbl_remove_def)

interpretation tbl: ordered_table tbl_get tbl_insert tbl_remove tbl_iter tbl_ok
  by unfold_locales
    (simp_all add: tbl_get_insert tbl_get_remove tbl_iter_def tbl_ok_insert tbl_ok_remove
      tbl_ok_def [THEN iffD1] fun_eq_iff tbl_get_def)

lemma tbl_ext: "tbl_ok t \<Longrightarrow> tbl_ok u \<Longrightarrow> tbl_get t = tbl_get u \<Longrightarrow> t = u"
  by (rule tbl.table_ext)

lemma tbl_get_None_iff: "tbl_get t k = None \<longleftrightarrow> k \<notin> set (map fst t)"
  by (simp add: tbl_get_def map_of_eq_None_iff)

lemma tbl_ok_distinct: "tbl_ok t \<Longrightarrow> distinct (map fst t)"
  by (simp add: tbl_ok_def strict_sorted_iff)

lemma tbl_get_Some_iff: "tbl_ok t \<Longrightarrow> tbl_get t k = Some v \<longleftrightarrow> (k, v) \<in> set t"
  by (simp add: tbl_get_def tbl_ok_distinct)

text \<open>Removing every key of the table that satisfies a condition.\<close>

lemma tbl_get_remove_keys:
  "tbl_get (fold tbl_remove (filter P (map fst (tbl_iter t))) (t :: ('k::linorder, 'v) tbl)) k = (if P k then None else tbl_get t k)"
proof (cases "P k \<and> k \<in> set (map fst t)")
  case True
  then have "k \<in> set (filter P (map fst (tbl_iter t)))" by (simp add: tbl_iter_def)
  then show ?thesis using True by (simp only: tbl.get_remove_all if_True)
next
  case False
  then have "P k \<Longrightarrow> tbl_get t k = None" by (simp only: tbl_get_None_iff) simp
  with False show ?thesis by (simp add: tbl.get_remove_all tbl_iter_def)
qed

lemma tbl_ok_from: "tbl_ok t \<Longrightarrow> tbl_ok (tbl_from k t)"
  by (simp add: tbl_ok_def tbl_from_def sorted_wrt_filter sorted_wrt_map)

lemmas tbl_laws [table_simps] = tbl_get_insert tbl_get_remove tbl_ok_insert tbl_ok_remove

end
