(* ===== verification/Catalogs.thy ===== *)
theory Catalogs
  imports Errors Sema_Tables
begin

text \<open>
  Tables and the family catalog: src/catalog.rs and the descriptors of src/table.rs.
  A registration is one family identity bound to its table name; the catalog is the list of
  registrations in registration order.  The carry of an evolution step is a closure over the prior Rust
  type; it is kept as what it does to one stored row: decode it in the prior shape, which can fail, and
  convert the decoded value.
\<close>

section \<open>Registrations\<close>

record table_registration =
  registration_identity :: family_identity

definition registration_new :: "family_identity \<Rightarrow> table_registration" where
  "registration_new f = \<lparr>registration_identity = f\<rparr>"

definition registration_table_name :: "table_registration \<Rightarrow> string" where
  "registration_table_name r = family_table_name (registration_identity r)"

type_synonym catalog = "table_registration list"

definition registration_for_table :: "catalog \<Rightarrow> string \<Rightarrow> table_registration option" where
  "registration_for_table c name = find (\<lambda>r. registration_table_name r = name) c"

definition is_registered :: "catalog \<Rightarrow> string \<Rightarrow> bool" where
  "is_registered c name \<longleftrightarrow> registration_for_table c name \<noteq> None"

definition catalog_family_identity :: "catalog \<Rightarrow> string \<Rightarrow> family_identity option" where
  "catalog_family_identity c name = map_option registration_identity (registration_for_table c name)"

definition registration_for_family ::
  "catalog \<Rightarrow> family_identity \<Rightarrow> table_registration option" where
  "registration_for_family c f = find (\<lambda>r. shares_family (registration_identity r) f) c"

fun replace_first :: "('a \<Rightarrow> bool) \<Rightarrow> 'a \<Rightarrow> 'a list \<Rightarrow> 'a list" where
  "replace_first P y [] = []"
| "replace_first P y (x # xs) = (if P x then y # xs else x # replace_first P y xs)"

definition catalog_evolve :: "catalog \<Rightarrow> string \<Rightarrow> table_registration \<Rightarrow> catalog eresult" where
  "catalog_evolve c name r =
     (case registration_for_table c name of
        None \<Rightarrow> Inl (TableNotRegistered name)
      | Some slot \<Rightarrow> Inr (replace_first (\<lambda>x. registration_table_name x = name) r c))"

definition catalog_insert :: "catalog \<Rightarrow> table_registration \<Rightarrow> catalog eresult" where
  "catalog_insert c r =
     (if registration_for_table c (registration_table_name r) \<noteq> None
      then Inl (TableAlreadyRegistered (registration_table_name r))
      else Inr (c @ [r]))"

text \<open>\<open>StoreSchemaHash::from(&Catalog)\<close> and the engine's \<open>family_inventory\<close>.\<close>

definition store_schema_of_catalog :: "'p primitives_scheme \<Rightarrow> catalog \<Rightarrow> digest" where
  "store_schema_of_catalog p c =
     store_schema_from_inventory p
       (map (\<lambda>r. (family (registration_identity r), family_schema_hash (registration_identity r))) c)"

definition family_inventory :: "catalog \<Rightarrow> family_identity list" where
  "family_inventory c = map registration_identity c"

lemma store_schema_of_inventory:
  "store_schema_of_families p (family_inventory c) = store_schema_of_catalog p c"
  by (simp add: store_schema_of_families_def store_schema_of_catalog_def family_inventory_def comp_def)

section \<open>Descriptors\<close>

record 'r evolution_step =
  step_prior :: digest
  step_convert :: "'r \<Rightarrow> sema_error + 'r"

definition from_prior :: "digest \<Rightarrow> ('r \<Rightarrow> sema_error + 'p) \<Rightarrow> ('p \<Rightarrow> 'r) \<Rightarrow> 'r evolution_step" where
  "from_prior prior decode convert =
     \<lparr>step_prior = prior, step_convert = (\<lambda>row. bindR (decode row) (\<lambda>p. Inr (convert p)))\<rparr>"

record 'r table_descriptor =
  td_name :: string
  td_family :: string
  td_schema_hash :: digest
  td_evolution :: "'r evolution_step list"

definition table_descriptor_new :: "string \<Rightarrow> string \<Rightarrow> digest \<Rightarrow> 'r table_descriptor" where
  "table_descriptor_new name fam hash =
     \<lparr>td_name = name, td_family = fam, td_schema_hash = hash, td_evolution = []\<rparr>"

definition with_prior ::
  "'r table_descriptor \<Rightarrow> digest \<Rightarrow> ('r \<Rightarrow> sema_error + 'p) \<Rightarrow> ('p \<Rightarrow> 'r) \<Rightarrow> 'r table_descriptor" where
  "with_prior d prior decode convert =
     d\<lparr>td_evolution := td_evolution d @ [from_prior prior decode convert]\<rparr>"

definition td_family_identity :: "'r table_descriptor \<Rightarrow> family_identity" where
  "td_family_identity d =
     \<lparr>family = td_family d, family_schema_hash = td_schema_hash d, family_table_name = td_name d\<rparr>"

definition evolution_step_for ::
  "'r table_descriptor \<Rightarrow> family_identity \<Rightarrow> 'r evolution_step option" where
  "evolution_step_for d stored =
     (if family stored \<noteq> td_family d then None
      else find (\<lambda>s. step_prior s = family_schema_hash stored) (td_evolution d))"

text \<open>\<open>carry_rows\<close>: every row of the table, read in the prior shape and converted forward, under its
  stored key; the first row that does not decode is the result.\<close>

definition carry_row :: "'r evolution_step \<Rightarrow> string \<times> 'r \<Rightarrow> sema_error + string \<times> 'r" where
  "carry_row s r = bindR (step_convert s (snd r)) (\<lambda>row. Inr (fst r, row))"

definition carry_rows ::
  "'r evolution_step \<Rightarrow> (string, 'r) tbl \<Rightarrow> sema_error + (string \<times> 'r) list" where
  "carry_rows s rows = mapR (carry_row s) (tbl_iter rows)"

record identified_table_descriptor =
  itd_name :: string
  itd_family :: string
  itd_schema_hash :: digest

definition identified_table_descriptor_new ::
  "string \<Rightarrow> string \<Rightarrow> digest \<Rightarrow> identified_table_descriptor" where
  "identified_table_descriptor_new name fam hash =
     \<lparr>itd_name = name, itd_family = fam, itd_schema_hash = hash\<rparr>"

definition itd_family_identity :: "identified_table_descriptor \<Rightarrow> family_identity" where
  "itd_family_identity d =
     \<lparr>family = itd_family d, family_schema_hash = itd_schema_hash d,
      family_table_name = itd_name d\<rparr>"

section \<open>Catalog lemmas\<close>

lemma carry_row_Inr:
  "carry_row s r = Inr c \<longleftrightarrow> fst c = fst r \<and> step_convert s (snd r) = Inr (snd c)"
  by (cases c) (auto simp: carry_row_def bindR_eq_Inr)

lemma carry_rows_Inr:
  assumes "carry_rows s rows = Inr carried"
  shows "map fst carried = map fst (tbl_iter rows)"
    and "i < length (tbl_iter rows) \<Longrightarrow> step_convert s (snd (tbl_iter rows ! i)) = Inr (snd (carried ! i))"
proof -
  have len: "length carried = length (tbl_iter rows)"
    using assms by (simp add: carry_rows_def mapR_length)
  have at: "fst (carried ! i) = fst (tbl_iter rows ! i)
      \<and> step_convert s (snd (tbl_iter rows ! i)) = Inr (snd (carried ! i))"
    if "i < length (tbl_iter rows)" for i
    using mapR_nth [OF assms [unfolded carry_rows_def] that] by (simp add: carry_row_Inr)
  show "map fst carried = map fst (tbl_iter rows)"
    using len at by (auto intro!: nth_equalityI)
  show "i < length (tbl_iter rows) \<Longrightarrow> step_convert s (snd (tbl_iter rows ! i)) = Inr (snd (carried ! i))"
    using at by blast
qed

lemma carry_rows_Nil: "carry_rows s rows = Inr [] \<Longrightarrow> tbl_iter rows = []"
  using carry_rows_Inr(1) [of s rows "[]"] by simp

text \<open>Table names are unique in every catalog the operations build.\<close>

definition catalog_ok :: "catalog \<Rightarrow> bool" where
  "catalog_ok c \<longleftrightarrow> distinct (map registration_table_name c)"

lemma catalog_ok_Nil [simp]: "catalog_ok []"
  by (simp add: catalog_ok_def)

lemma registration_for_table_name:
  "registration_for_table c name = Some r \<Longrightarrow> registration_table_name r = name \<and> r \<in> set c"
  by (auto simp: registration_for_table_def find_Some_iff)

lemma registration_for_table_None:
  "registration_for_table c name = None \<longleftrightarrow> name \<notin> set (map registration_table_name c)"
  by (auto simp: registration_for_table_def find_None_iff)

lemma catalog_insert_ok:
  "catalog_insert c r = Inr c' \<Longrightarrow> catalog_ok c \<Longrightarrow> catalog_ok c'"
  by (auto simp: catalog_insert_def catalog_ok_def registration_for_table_None split: if_splits)

lemma find_snoc: "find P (xs @ [y]) = (case find P xs of None \<Rightarrow> if P y then Some y else None | Some x \<Rightarrow> Some x)"
  by (induction xs) auto

lemma catalog_insert_lookup:
  "catalog_insert c r = Inr c' \<Longrightarrow>
   registration_for_table c' name =
     (if name = registration_table_name r then Some r else registration_for_table c name)"
  by (auto simp: catalog_insert_def registration_for_table_def find_snoc
      split: if_splits option.splits)

lemma map_replace_first:
  "(\<And>x. x \<in> set xs \<Longrightarrow> P x \<Longrightarrow> f x = f y) \<Longrightarrow> map f (replace_first P y xs) = map f xs"
  by (induction xs) auto

lemma find_replace_first_same:
  "find P xs \<noteq> None \<Longrightarrow> P y \<Longrightarrow> find P (replace_first P y xs) = Some y"
  by (induction xs) auto

lemma find_replace_first_other:
  "(\<And>x. P x \<Longrightarrow> \<not> Q x) \<Longrightarrow> \<not> Q y \<Longrightarrow> find Q (replace_first P y xs) = find Q xs"
  by (induction xs) auto

lemma replace_first_undo:
  "find P xs = Some x \<Longrightarrow> P y \<Longrightarrow> replace_first P x (replace_first P y xs) = xs"
  by (induction xs) (auto split: if_splits)

lemma catalog_evolve_lookup:
  assumes "catalog_evolve c name r = Inr c'" and "registration_table_name r = name"
  shows "registration_for_table c' other =
    (if other = name then Some r else registration_for_table c other)"
  using assms
  by (auto simp: catalog_evolve_def registration_for_table_def find_replace_first_same
      find_replace_first_other split: option.splits)

lemma catalog_evolve_ok:
  "catalog_evolve c name r = Inr c' \<Longrightarrow> registration_table_name r = name \<Longrightarrow>
   catalog_ok c \<Longrightarrow> catalog_ok c'"
  by (auto simp: catalog_evolve_def catalog_ok_def map_replace_first split: option.splits)

text \<open>Evolving and evolving back restores the catalog.\<close>

lemma catalog_evolve_undo:
  assumes "catalog_evolve c name r = Inr c'" and "registration_table_name r = name"
    and "registration_for_table c name = Some old"
  shows "catalog_evolve c' name old = Inr c"
proof -
  have c': "c' = replace_first (\<lambda>x. registration_table_name x = name) r c"
    using assms by (simp add: catalog_evolve_def)
  have "registration_for_table c' name = Some r"
    using catalog_evolve_lookup [OF assms(1,2)] by simp
  then show ?thesis
    using assms replace_first_undo [of "\<lambda>x. registration_table_name x = name" c old r]
    by (simp add: catalog_evolve_def c' registration_for_table_def)
qed

end
