(* ===== verification/Entry_Digests.thy ===== *)
theory Entry_Digests
  imports Versioning
begin

text \<open>
  The byte strings hashed for the versioned log are self-delimiting: family identities,
  payloads, operations and whole entries can be read back from the bytes their digest is
  computed over.  So two entries that differ in any field hash different byte strings, and
  equal digests of different entries exhibit a \<open>blake3\<close> collision.  No injectivity of \<open>blake3\<close> itself is assumed.
\<close>

section \<open>Sizes a Rust value can have\<close>

definition family_sized :: "family_identity \<Rightarrow> bool" where
  "family_sized f \<longleftrightarrow>
     sized (family f) \<and> sized (family_schema_hash f) \<and> sized (family_table_name f)"

fun payload_sized :: "versioned_payload \<Rightarrow> bool" where
  "payload_sized (PayloadRecord bs) \<longleftrightarrow> sized bs"
| "payload_sized Tombstone \<longleftrightarrow> True"

definition operation_sized :: "versioned_log_operation \<Rightarrow> bool" where
  "operation_sized oper \<longleftrightarrow>
     family_sized (vop_family oper) \<and> pred_option key_sized (vop_key oper)
     \<and> payload_sized (vop_payload oper)"

definition entry_sized :: "versioned_entry \<Rightarrow> bool" where
  "entry_sized e \<longleftrightarrow>
     sized (ve_store_name e) \<and> sized (ve_schema_hash e)
     \<and> pred_option sized (ve_previous_entry_digest e)
     \<and> list_all operation_sized (ne_list (ve_operations e)) \<and> sized (ne_list (ve_operations e))"

section \<open>Self-delimiting encodings\<close>

interpretation family_bytes: self_delimiting family_digest_bytes family_sized
proof
  fix a b :: family_identity and x y :: bytes
  assume "family_sized a" and "family_sized b"
  then show "family_digest_bytes a @ x = family_digest_bytes b @ y \<longleftrightarrow> a = b \<and> x = y"
    by (cases a; cases b)
      (auto simp: family_digest_bytes_def family_sized_def prefixed.enc_cancel)
qed

interpretation payload_bytes: self_delimiting payload_digest_bytes payload_sized
proof
  fix a b :: versioned_payload and x y :: bytes
  assume "payload_sized a" and "payload_sized b"
  then show "payload_digest_bytes a @ x = payload_digest_bytes b @ y \<longleftrightarrow> a = b \<and> x = y"
    by (cases a; cases b) (auto simp: prefixed.enc_cancel)
qed

lemma optional_key_cancel:
  "pred_option key_sized a \<Longrightarrow> pred_option key_sized b \<Longrightarrow>
   optional_key_bytes a @ x = optional_key_bytes b @ y \<longleftrightarrow> a = b \<and> x = y"
  unfolding optional_key_bytes_def by (rule key_bytes.option_cancel)

lemma optional_digest_cancel:
  "pred_option sized a \<Longrightarrow> pred_option sized b \<Longrightarrow>
   optional_digest_bytes a @ x = optional_digest_bytes b @ y \<longleftrightarrow> a = b \<and> x = y"
  unfolding optional_digest_bytes_def by (rule prefixed.option_cancel)

lemma operation_self_delimiting:
  assumes "record_heads_ok p"
  shows "self_delimiting (operation_digest_bytes p) operation_sized"
proof
  fix a b :: versioned_log_operation and x y :: bytes
  assume a: "operation_sized a" and b: "operation_sized b"
  have heads: "as_record_head p (vop_operation a) = as_record_head p (vop_operation b) \<longleftrightarrow>
      vop_operation a = vop_operation b" and szd: "\<And>oper. sized (as_record_head p oper)"
    using assms by (auto simp: record_heads_ok_def inj_def)
  have "operation_digest_bytes p a @ x = operation_digest_bytes p b @ y \<longleftrightarrow>
      vop_operation a = vop_operation b \<and> vop_family a = vop_family b \<and> vop_key a = vop_key b
      \<and> vop_payload a = vop_payload b \<and> x = y"
    using a b heads szd
    by (auto simp: operation_digest_bytes_def operation_sized_def prefixed.enc_cancel
        family_bytes.enc_cancel optional_key_cancel payload_bytes.enc_cancel)
  also have "\<dots> \<longleftrightarrow> a = b \<and> x = y"
    by (cases a; cases b) auto
  finally show "operation_digest_bytes p a @ x = operation_digest_bytes p b @ y \<longleftrightarrow> a = b \<and> x = y" .
qed

text \<open>Two entries hash the same bytes only if they agree on every hashed field.\<close>

lemma entry_bytes_inject:
  assumes heads: "record_heads_ok p" and a: "entry_sized a" and b: "entry_sized b"
    and eq: "entry_own_bytes p a = entry_own_bytes p b"
  shows "a\<lparr>ve_entry_digest := d\<rparr> = b\<lparr>ve_entry_digest := d\<rparr>"
proof -
  note op_cancel =
    self_delimiting.counted_cancel [OF operation_self_delimiting [OF heads], where x = "[]" and y = "[]",
      simplified]
  have "ve_store_name a = ve_store_name b \<and> ve_schema_hash a = ve_schema_hash b
      \<and> ve_commit_sequence a = ve_commit_sequence b \<and> ve_snapshot a = ve_snapshot b
      \<and> ve_previous_entry_digest a = ve_previous_entry_digest b
      \<and> ne_list (ve_operations a) = ne_list (ve_operations b)"
    using eq a b
    by (simp add: entry_own_bytes_def entry_bytes_def entry_sized_def prefixed.enc_cancel
        optional_digest_cancel op_cancel)
  then show ?thesis by (cases a; cases b) auto
qed

text \<open>Equal digests: the same fields, or two different byte strings with one \<open>blake3\<close> value.\<close>

definition collides :: "'p primitives_scheme \<Rightarrow> bytes \<Rightarrow> bytes \<Rightarrow> bool" where
  "collides p x y \<longleftrightarrow> x \<noteq> y \<and> blake3 p x = blake3 p y"

lemma entry_digest_collision:
  assumes "record_heads_ok p" and "entry_sized a" and "entry_sized b"
    and "recomputed_digest p a = recomputed_digest p b"
    and "a\<lparr>ve_entry_digest := d\<rparr> \<noteq> b\<lparr>ve_entry_digest := d\<rparr>"
  shows "collides p (entry_own_bytes p a) (entry_own_bytes p b)"
  using assms entry_bytes_inject [of p a b d]
  by (auto simp: collides_def recomputed_digest_own)

end
