(* ===== verification/Canonical_View.thy ===== *)
theory Canonical_View
  imports Logs Catalogs Sema_Tables Entry_Digests
begin

text \<open>
  The fold of the versioned log: src/fold.rs.  A canonical view is the per-key last-write state
  left by checkpoint rows and log entries applied in commit order, with the set of keys the fold
  touched and the family identities the rows and entries declared.  A \<open>BTreeMap\<close> is a table
  of \<open>Sema_Tables\<close>, a \<open>BTreeSet\<close> a table with unit values; view keys are tuples under the
  derived (lexicographic) order.
\<close>

section \<open>Rows, keys and views\<close>

record view_row =
  vr_family :: family_identity
  vr_key :: record_key
  vr_payload :: versioned_payload

definition view_row_new :: "family_identity \<Rightarrow> record_key \<Rightarrow> versioned_payload \<Rightarrow> view_row" where
  "view_row_new f k p = \<lparr>vr_family = f, vr_key = k, vr_payload = p\<rparr>"

definition view_row_digest_bytes :: "view_row \<Rightarrow> bytes" where
  "view_row_digest_bytes r =
     family_digest_bytes (vr_family r) @ key_digest_bytes (vr_key r)
     @ payload_digest_bytes (vr_payload r)"

type_synonym view_key = "string \<times> digest \<times> record_key"
type_synonym view_identity_key = "string \<times> digest"

definition view_key_new :: "family_identity \<Rightarrow> record_key \<Rightarrow> view_key" where
  "view_key_new f k = (family f, family_schema_hash f, k)"

definition identity_key_of :: "view_key \<Rightarrow> view_identity_key" where
  "identity_key_of k = (fst k, fst (snd k))"

definition identity_key_from_identity :: "family_identity \<Rightarrow> view_identity_key" where
  "identity_key_from_identity f = (family f, family_schema_hash f)"

record canonical_view =
  cv_rows :: "(view_key, bytes) tbl"
  cv_touched :: "(view_key, unit) tbl"
  cv_identities :: "(view_identity_key, family_identity) tbl"

definition view_empty :: canonical_view where
  "view_empty = \<lparr>cv_rows = [], cv_touched = [], cv_identities = []\<rparr>"

definition declare_identity :: "canonical_view \<Rightarrow> family_identity \<Rightarrow> canonical_view" where
  "declare_identity v f =
     (case tbl_get (cv_identities v) (identity_key_from_identity f) of
        Some existing \<Rightarrow> v
      | None \<Rightarrow>
          v\<lparr>cv_identities := tbl_insert (identity_key_from_identity f) f (cv_identities v)\<rparr>)"

section \<open>Folding\<close>

definition apply_checkpoint_row :: "canonical_view \<Rightarrow> view_row \<Rightarrow> canonical_view eresult" where
  "apply_checkpoint_row v row =
     (case payload_bytes (vr_payload row) of
        None \<Rightarrow> Inl (ReplayTombstonePayload (family_table_name (vr_family row)))
      | Some bs \<Rightarrow>
          let v1 = declare_identity v (vr_family row);
              key = view_key_new (vr_family row) (vr_key row)
          in Inr (v1\<lparr>cv_touched := tbl_insert key () (cv_touched v1),
                     cv_rows := tbl_insert key bs (cv_rows v1)\<rparr>))"

definition apply_operation ::
  "'p primitives_scheme \<Rightarrow> canonical_view \<Rightarrow> versioned_log_operation \<Rightarrow> canonical_view eresult" where
  "apply_operation p v oper =
     (case vop_key oper of
        None \<Rightarrow> Inl (ReplayMissingKey (family (vop_family oper)))
      | Some record_key \<Rightarrow>
          let v1 = declare_identity v (vop_family oper);
              key = view_key_new (vop_family oper) record_key;
              v2 = v1\<lparr>cv_touched := tbl_insert key () (cv_touched v1)\<rparr>
          in (case vop_operation oper of
                Retract \<Rightarrow> Inr (v2\<lparr>cv_rows := tbl_remove key (cv_rows v2)\<rparr>)
              | other \<Rightarrow>
                  if other = Assert \<or> other = Mutate
                  then (case payload_bytes (vop_payload oper) of
                          None \<Rightarrow> Inl (ReplayTombstonePayload (family_table_name (vop_family oper)))
                        | Some bs \<Rightarrow> Inr (v2\<lparr>cv_rows := tbl_insert key bs (cv_rows v2)\<rparr>))
                  else Inl (ReplayUnsupportedOperation (as_record_head p other))))"

text \<open>One round of the entry loop: check the link, then apply the entry's operations.\<close>

definition fold_entry ::
  "'p primitives_scheme \<Rightarrow> canonical_view \<times> digest option \<Rightarrow> versioned_entry
   \<Rightarrow> (canonical_view \<times> digest option) eresult" where
  "fold_entry p state entry =
     (let recomputed = recomputed_digest p entry in
      if ve_previous_entry_digest entry \<noteq> snd state \<or> recomputed \<noteq> ve_entry_digest entry
      then Inl (VersionedChainBroken (ve_commit_sequence entry))
      else bindR (foldR (apply_operation p) (fst state) (ne_list (ve_operations entry)))
             (\<lambda>v. Inr (v, Some (ve_entry_digest entry))))"

definition canonical_fold ::
  "'p primitives_scheme \<Rightarrow> view_row list \<Rightarrow> versioned_entry list \<Rightarrow> digest option
   \<Rightarrow> canonical_view eresult" where
  "canonical_fold p checkpoint_rows entries chain_head =
     bindR (foldR apply_checkpoint_row view_empty checkpoint_rows) (\<lambda>v.
     bindR (foldR (fold_entry p) (v, chain_head) entries) (\<lambda>s. Inr (fst s)))"

section \<open>The view digest and the projection to rows\<close>

definition view_digest_bytes :: "canonical_view \<Rightarrow> bytes" where
  "view_digest_bytes v =
     update_bytes (as_bytes ''sema-engine-view-digest-v1'')
     @ to_le_bytes (of_nat (length (tbl_iter (cv_rows v))))
     @ concat (map (\<lambda>((fam, hash, key), payload).
         update_bytes (as_bytes fam) @ update_bytes hash @ key_digest_bytes key
         @ update_bytes payload) (tbl_iter (cv_rows v)))"

definition view_digest :: "'p primitives_scheme \<Rightarrow> canonical_view \<Rightarrow> digest" where
  "view_digest p v = blake3 p (view_digest_bytes v)"

definition resolve_identity ::
  "(view_identity_key, family_identity) tbl \<Rightarrow> family_identity list \<Rightarrow> view_key
   \<Rightarrow> family_identity eresult" where
  "resolve_identity identities inventory key =
     (case tbl_get identities (identity_key_of key) of
        Some f \<Rightarrow> Inr f
      | None \<Rightarrow> ok_or (FamilyUnknown (fst key))
          (find (\<lambda>f. family f = fst key \<and> family_schema_hash f = fst (snd key)) inventory))"

record materialize_rows =
  mr_rows :: "view_row list"
  mr_cleared :: "view_row list"

definition materialize_iter :: "materialize_rows \<Rightarrow> view_row list" where
  "materialize_iter m = mr_cleared m @ mr_rows m"

definition into_rows ::
  "canonical_view \<Rightarrow> family_identity list \<Rightarrow> materialize_rows eresult" where
  "into_rows v inventory =
     bindR (mapR (\<lambda>key. bindR (resolve_identity (cv_identities v) inventory key)
               (\<lambda>f. Inr (view_row_new f (snd (snd key)) Tombstone)))
             (filter (\<lambda>key. tbl_get (cv_rows v) key = None) (map fst (tbl_iter (cv_touched v)))))
       (\<lambda>cleared.
     bindR (mapR (\<lambda>(key, payload). bindR (resolve_identity (cv_identities v) inventory key)
               (\<lambda>f. Inr (view_row_new f (snd (snd key)) (PayloadRecord payload))))
             (tbl_iter (cv_rows v)))
       (\<lambda>rows. Inr \<lparr>mr_rows = rows, mr_cleared = cleared\<rparr>))"

record rebuild_receipt =
  rr_view_digest :: digest
  rr_row_count :: nat
  rr_cleared_count :: nat
  rr_folded_entry_count :: nat

end
