(* ===== verification/Checkpoints.thy ===== *)
theory Checkpoints
  imports Canonical_View
begin

text \<open>
  Checkpoints with payload: src/checkpoint.rs.  A checkpoint is its metadata and its segments, each a
  slice of the canonical view's rows; every part is content-addressed.  The serializer \<open>rkyv\<close> of the
  portable form is outside the repository: encoding and decoding are parameters.
\<close>

section \<open>Segments\<close>

definition segment_byte_budget :: nat where
  "segment_byte_budget = 1024 * 1024"

type_synonym checkpoint_sequence = u64

definition checkpoint_sequence_first :: checkpoint_sequence where
  "checkpoint_sequence_first = 1"

definition checkpoint_sequence_next :: "checkpoint_sequence \<Rightarrow> checkpoint_sequence" where
  "checkpoint_sequence_next s = s + 1"

record commit_sequence_range =
  csr_first :: commit_sequence
  csr_last :: commit_sequence

definition commit_range_contains :: "commit_sequence_range \<Rightarrow> commit_sequence \<Rightarrow> bool" where
  "commit_range_contains r s \<longleftrightarrow> csr_first r \<le> s \<and> s \<le> csr_last r"

record checkpoint_segment =
  seg_rows :: "view_row list"

record segment_reference =
  ref_digest :: digest
  ref_row_count :: u64

definition segment_bytes :: "checkpoint_segment \<Rightarrow> bytes" where
  "segment_bytes s =
     update_bytes (as_bytes ''sema-engine-checkpoint-segment-v1'')
     @ to_le_bytes (of_nat (length (seg_rows s)))
     @ concat (map view_row_digest_bytes (seg_rows s))"

definition segment_digest :: "'p primitives_scheme \<Rightarrow> checkpoint_segment \<Rightarrow> digest" where
  "segment_digest p s = blake3 p (segment_bytes s)"

definition segment_reference_of ::
  "'p primitives_scheme \<Rightarrow> checkpoint_segment \<Rightarrow> segment_reference" where
  "segment_reference_of p s =
     \<lparr>ref_digest = segment_digest p s, ref_row_count = of_nat (length (seg_rows s))\<rparr>"

text \<open>The budgeted chunking loop: finished segments, the open segment and its byte count.\<close>

definition row_bytes :: "view_row \<Rightarrow> nat" where
  "row_bytes row =
     (case payload_bytes (vr_payload row) of None \<Rightarrow> 0 | Some bs \<Rightarrow> length bs)
     + encoded_len (vr_key row)"

fun chunk_loop ::
  "checkpoint_segment list \<Rightarrow> view_row list \<Rightarrow> nat \<Rightarrow> view_row list \<Rightarrow> checkpoint_segment list" where
  "chunk_loop segments current current_bytes [] =
     (if current \<noteq> [] then segments @ [\<lparr>seg_rows = current\<rparr>] else segments)"
| "chunk_loop segments current current_bytes (row # rows) =
     (if current \<noteq> [] \<and> current_bytes + row_bytes row > segment_byte_budget
      then chunk_loop (segments @ [\<lparr>seg_rows = current\<rparr>]) [row] (row_bytes row) rows
      else chunk_loop segments (current @ [row]) (current_bytes + row_bytes row) rows)"

definition chunk :: "view_row list \<Rightarrow> checkpoint_segment list" where
  "chunk rows = chunk_loop [] [] 0 rows"

section \<open>Inventories and metadata\<close>

record identified_counter =
  ic_table_name :: string
  ic_next_identifier :: u64

definition ic_counter_key :: "identified_counter \<Rightarrow> string" where
  "ic_counter_key c = ic_table_name c @ '':'' @ identified_counter_suffix"

definition identified_counter_bytes :: "identified_counter \<Rightarrow> bytes" where
  "identified_counter_bytes c =
     update_bytes (as_bytes (ic_table_name c)) @ to_le_bytes (ic_next_identifier c)"

record family_inventory =
  fi_families :: "family_identity list"
  fi_identified_counters :: "identified_counter list"

definition inventory_bytes :: "family_inventory \<Rightarrow> bytes" where
  "inventory_bytes i =
     to_le_bytes (of_nat (length (fi_families i)))
     @ concat (map family_digest_bytes (fi_families i))
     @ to_le_bytes (of_nat (length (fi_identified_counters i)))
     @ concat (map identified_counter_bytes (fi_identified_counters i))"

definition segment_reference_bytes :: "segment_reference \<Rightarrow> bytes" where
  "segment_reference_bytes r = update_bytes (ref_digest r) @ to_le_bytes (ref_row_count r)"

record checkpoint_metadata =
  cm_sequence :: checkpoint_sequence
  cm_store_name :: string
  cm_store_schema_hash :: digest
  cm_family_inventory :: family_inventory
  cm_covered :: commit_sequence_range
  cm_covered_snapshot :: snapshot_identifier
  cm_covered_entry_digest :: digest
  cm_view_digest :: digest
  cm_previous_checkpoint_digest :: "digest option"
  cm_segments :: "segment_reference list"
  cm_checkpoint_digest :: digest

definition metadata_bytes :: "checkpoint_metadata \<Rightarrow> bytes" where
  "metadata_bytes m =
     update_bytes (as_bytes ''sema-engine-checkpoint-v1'')
     @ to_le_bytes (cm_sequence m)
     @ update_bytes (as_bytes (cm_store_name m))
     @ update_bytes (cm_store_schema_hash m)
     @ inventory_bytes (cm_family_inventory m)
     @ to_le_bytes (csr_first (cm_covered m))
     @ to_le_bytes (csr_last (cm_covered m))
     @ to_le_bytes (cm_covered_snapshot m)
     @ update_bytes (cm_covered_entry_digest m)
     @ update_bytes (cm_view_digest m)
     @ optional_digest_bytes (cm_previous_checkpoint_digest m)
     @ to_le_bytes (of_nat (length (cm_segments m)))
     @ concat (map segment_reference_bytes (cm_segments m))"

definition computed_digest :: "'p primitives_scheme \<Rightarrow> checkpoint_metadata \<Rightarrow> digest" where
  "computed_digest p m = blake3 p (metadata_bytes m)"

definition checkpoint_metadata_new ::
  "'p primitives_scheme \<Rightarrow> checkpoint_sequence \<Rightarrow> string \<Rightarrow> digest \<Rightarrow> family_inventory
   \<Rightarrow> commit_sequence_range \<Rightarrow> snapshot_identifier \<Rightarrow> digest \<Rightarrow> digest \<Rightarrow> digest option
   \<Rightarrow> segment_reference list \<Rightarrow> checkpoint_metadata" where
  "checkpoint_metadata_new p s name schema inventory covered snap entry_digest vdigest previous
     segments =
     (let metadata =
        \<lparr>cm_sequence = s, cm_store_name = name, cm_store_schema_hash = schema,
         cm_family_inventory = inventory, cm_covered = covered, cm_covered_snapshot = snap,
         cm_covered_entry_digest = entry_digest, cm_view_digest = vdigest,
         cm_previous_checkpoint_digest = previous, cm_segments = segments,
         cm_checkpoint_digest = replicate 32 0\<rparr>
      in metadata\<lparr>cm_checkpoint_digest := computed_digest p metadata\<rparr>)"

section \<open>Checkpoints, verification and the portable form\<close>

record checkpoint =
  ck_metadata :: checkpoint_metadata
  ck_segments :: "checkpoint_segment list"

definition checkpoint_rows :: "checkpoint \<Rightarrow> view_row list" where
  "checkpoint_rows c = concat (map seg_rows (ck_segments c))"

fun verify_segments ::
  "'p primitives_scheme \<Rightarrow> (checkpoint_segment \<times> segment_reference) list \<Rightarrow> unit eresult" where
  "verify_segments p [] = Inr ()"
| "verify_segments p ((segment, reference) # rest) =
     (if segment_digest p segment \<noteq> ref_digest reference
      then Inl (SegmentDigestMismatch (ref_digest reference) (segment_digest p segment))
      else verify_segments p rest)"

definition verify :: "'p primitives_scheme \<Rightarrow> checkpoint \<Rightarrow> unit eresult" where
  "verify p c =
     (let m = ck_metadata c; computed = computed_digest p m in
      if computed \<noteq> cm_checkpoint_digest m
      then Inl (CheckpointDigestMismatch (cm_checkpoint_digest m) computed)
      else if length (ck_segments c) < length (cm_segments m)
      then Inl (SegmentMissing (ref_digest (cm_segments m ! length (ck_segments c))))
      else if length (ck_segments c) > length (cm_segments m)
      then Inl (SegmentSurplus (length (cm_segments m)) (length (ck_segments c)))
      else bindR (verify_segments p (zip (ck_segments c) (cm_segments m))) (\<lambda>_.
           bindR (canonical_fold p (checkpoint_rows c) [] None) (\<lambda>view.
           if view_digest p view \<noteq> cm_view_digest m
           then Inl (ViewDigestMismatch (cm_view_digest m) (view_digest p view))
           else Inr ())))"

type_synonym portable_checkpoint = bytes

definition to_portable ::
  "(checkpoint \<Rightarrow> string + bytes) \<Rightarrow> checkpoint \<Rightarrow> portable_checkpoint eresult" where
  "to_portable encode c =
     (case encode c of Inl message \<Rightarrow> Inl (CheckpointEncode message) | Inr bs \<Rightarrow> Inr bs)"

definition portable_decode ::
  "'p primitives_scheme \<Rightarrow> (bytes \<Rightarrow> string + checkpoint) \<Rightarrow> portable_checkpoint
   \<Rightarrow> checkpoint eresult" where
  "portable_decode p decode bs =
     (case decode bs of
        Inl message \<Rightarrow> Inl (CheckpointDecode message)
      | Inr c \<Rightarrow> bindR (verify p c) (\<lambda>_. Inr c))"

record checkpoint_receipt =
  cr_sequence :: checkpoint_sequence
  cr_covered :: commit_sequence_range
  cr_view_digest :: digest
  cr_checkpoint_digest :: digest
  cr_segment_count :: nat
  cr_row_count :: nat

end
