(* ===== verification/Samples.thy ===== *)
theory Samples
  imports Canonical_View
begin

text \<open>
  Concrete values the witnesses evaluate the theorems on: a hash and record heads for the parameters
  outside the repository, one family, and a log of an assertion, a mutation and a retraction.
\<close>

fun sample_head :: "sema_operation \<Rightarrow> string" where
  "sample_head Assert = ''Assert''"
| "sample_head Mutate = ''Mutate''"
| "sample_head Retract = ''Retract''"
| "sample_head Match = ''Match''"
| "sample_head Subscribe = ''Subscribe''"
| "sample_head Validate = ''Validate''"

definition sample_hash :: "bytes \<Rightarrow> digest" where
  "sample_hash bs = [of_nat (length bs)]"

definition sample_primitives :: primitives where
  "sample_primitives = \<lparr>blake3 = sample_hash, as_record_head = sample_head\<rparr>"

lemma sample_heads_ok: "record_heads_ok sample_primitives"
proof -
  have "inj sample_head"
  proof (rule injI)
    fix x y assume "sample_head x = sample_head y"
    then show "x = y" by (cases x; cases y) simp_all
  qed
  moreover have "sized (sample_head oper)" for oper
    by (cases oper) (simp_all add: sized_def)
  ultimately show ?thesis by (simp add: record_heads_ok_def sample_primitives_def)
qed

definition sample_family :: family_identity where
  "sample_family =
     \<lparr>family = ''note'', family_schema_hash = [1], family_table_name = ''notes''\<rparr>"

definition sample_operation ::
  "sema_operation \<Rightarrow> record_key \<Rightarrow> versioned_payload \<Rightarrow> versioned_log_operation" where
  "sample_operation oper k payload =
     \<lparr>vop_operation = oper, vop_family = sample_family, vop_key = Some k, vop_payload = payload\<rparr>"

definition sample_entry ::
  "commit_sequence \<Rightarrow> digest option \<Rightarrow> versioned_log_operation \<Rightarrow> versioned_entry" where
  "sample_entry s prev oper =
     versioned_entry_new sample_primitives ''store'' [7] s s prev (ne_single oper)"

definition sample_first :: versioned_entry where
  "sample_first = sample_entry 1 None (sample_operation Assert (Domain ''a'') (PayloadRecord [10]))"

definition sample_second :: versioned_entry where
  "sample_second = sample_entry 2 (Some (ve_entry_digest sample_first))
     (sample_operation Mutate (Domain ''a'') (PayloadRecord [20]))"

definition sample_third :: versioned_entry where
  "sample_third = sample_entry 3 (Some (ve_entry_digest sample_second))
     (sample_operation Retract (Domain ''a'') Tombstone)"

lemmas sample_defs =
  sample_first_def sample_second_def sample_third_def sample_entry_def sample_operation_def

end
