(* ===== verification/Fold_Laws.thy ===== *)
theory Fold_Laws
  imports Samples
begin

text \<open>
  What the fold of src/fold.rs promises: which logs it accepts, which rows it leaves (the last write
  to every key), that checkpoint rows plus a log suffix give the state of the whole log, that every key
  resolves to an identity the log itself declared, and that the chain head commits to the log.
\<close>

section \<open>Specification: chains, applicable operations, last writes\<close>

fun chain_verified :: "'p primitives_scheme \<Rightarrow> digest option \<Rightarrow> versioned_entry list \<Rightarrow> bool" where
  "chain_verified p prev [] = True"
| "chain_verified p prev (e # es) \<longleftrightarrow>
     ve_previous_entry_digest e = prev \<and> recomputed_digest p e = ve_entry_digest e
     \<and> chain_verified p (Some (ve_entry_digest e)) es"

definition chain_end :: "digest option \<Rightarrow> versioned_entry list \<Rightarrow> digest option" where
  "chain_end prev es = (if es = [] then prev else Some (ve_entry_digest (last es)))"

definition op_applicable :: "versioned_log_operation \<Rightarrow> bool" where
  "op_applicable oper \<longleftrightarrow> vop_key oper \<noteq> None
     \<and> (vop_operation oper = Retract
        \<or> vop_operation oper \<in> {Assert, Mutate} \<and> payload_bytes (vop_payload oper) \<noteq> None)"

definition all_operations :: "versioned_entry list \<Rightarrow> versioned_log_operation list" where
  "all_operations es = concat (map (\<lambda>e. ne_list (ve_operations e)) es)"

definition operation_view_key :: "versioned_log_operation \<Rightarrow> view_key option" where
  "operation_view_key oper = map_option (view_key_new (vop_family oper)) (vop_key oper)"

definition operation_effect :: "versioned_log_operation \<Rightarrow> bytes option" where
  "operation_effect oper =
     (if vop_operation oper = Retract then None else payload_bytes (vop_payload oper))"

definition last_write :: "versioned_log_operation list \<Rightarrow> view_key \<Rightarrow> bytes option option" where
  "last_write opers key =
     (let hits = filter (\<lambda>oper. operation_view_key oper = Some key) opers in
      if hits = [] then None else Some (operation_effect (last hits)))"

definition row_view_key :: "view_row \<Rightarrow> view_key" where
  "row_view_key r = view_key_new (vr_family r) (vr_key r)"

definition last_row :: "view_row list \<Rightarrow> view_key \<Rightarrow> bytes option" where
  "last_row rows key =
     (let hits = filter (\<lambda>r. row_view_key r = key) rows in
      if hits = [] then None else payload_bytes (vr_payload (last hits)))"

section \<open>Declared identities\<close>

lemma declare_identity_rows [simp]:
  "cv_rows (declare_identity v f) = cv_rows v" "cv_touched (declare_identity v f) = cv_touched v"
  by (simp_all add: declare_identity_def split: option.splits)

text \<open>The invariant of the fold: well-formed tables, every row touched, every touched key resolved
  by a declared identity of the same family and schema hash.\<close>

definition view_ok :: "canonical_view \<Rightarrow> bool" where
  "view_ok v \<longleftrightarrow> tbl_ok (cv_rows v) \<and> tbl_ok (cv_touched v) \<and> tbl_ok (cv_identities v)
     \<and> (\<forall>k. tbl_get (cv_rows v) k \<noteq> None \<longrightarrow> tbl_get (cv_touched v) k \<noteq> None)
     \<and> (\<forall>k. tbl_get (cv_touched v) k \<noteq> None \<longrightarrow>
            tbl_get (cv_identities v) (identity_key_of k) \<noteq> None)
     \<and> (\<forall>i f. tbl_get (cv_identities v) i = Some f \<longrightarrow> identity_key_from_identity f = i)"

lemma view_ok_empty [simp]: "view_ok view_empty"
  by (simp add: view_ok_def view_empty_def)

lemma view_ok_declare:
  "view_ok v \<Longrightarrow> view_ok (declare_identity v f)
   \<and> tbl_get (cv_identities (declare_identity v f)) (identity_key_from_identity f) \<noteq> None"
  by (auto simp: view_ok_def declare_identity_def table_simps split: option.splits)

lemma identity_key_of_new [simp]:
  "identity_key_of (view_key_new f k) = identity_key_from_identity f"
  by (simp add: identity_key_of_def view_key_new_def identity_key_from_identity_def)

lemma view_ok_checkpoint_row:
  "apply_checkpoint_row v row = Inr w \<Longrightarrow> view_ok v \<Longrightarrow> view_ok w"
  using view_ok_declare [of v "vr_family row"]
  by (auto simp: apply_checkpoint_row_def view_ok_def Let_def table_simps split: option.splits
      if_splits)

lemma view_ok_operation:
  "apply_operation p v oper = Inr w \<Longrightarrow> view_ok v \<Longrightarrow> view_ok w"
  using view_ok_declare [of v "vop_family oper"]
  by (auto simp: apply_operation_def view_ok_def Let_def table_simps
      split: option.splits sema_operation.splits if_splits)

section \<open>Acceptance\<close>

text \<open>The effect of one applicable operation, without the error branches.\<close>

lemma apply_operation_Inr:
  "(\<exists>w. apply_operation p v oper = Inr w) \<longleftrightarrow> op_applicable oper"
  by (cases "vop_operation oper")
    (auto simp: apply_operation_def op_applicable_def Let_def split: option.splits)

lemma apply_operation_effect:
  assumes "apply_operation p v oper = Inr w"
  obtains key where "operation_view_key oper = Some key"
    and "tbl_get (cv_rows w) = (tbl_get (cv_rows v))(key := operation_effect oper)"
    and "tbl_get (cv_touched w) = (tbl_get (cv_touched v))(key \<mapsto> ())"
    and "cv_identities w = cv_identities (declare_identity v (vop_family oper))"
  using assms
  by (cases "vop_operation oper")
    (auto simp: apply_operation_def operation_view_key_def operation_effect_def Let_def table_simps
      split: option.splits)

lemma apply_checkpoint_row_Inr:
  "(\<exists>w. apply_checkpoint_row v row = Inr w) \<longleftrightarrow> payload_bytes (vr_payload row) \<noteq> None"
  by (auto simp: apply_checkpoint_row_def Let_def split: option.splits)

lemma foldR_Inr_iff:
  "(\<And>s x. (\<exists>t. f s x = Inr t) \<longleftrightarrow> P x) \<Longrightarrow> (\<exists>t. foldR f s xs = Inr t) \<longleftrightarrow> list_all P xs"
proof (induction xs arbitrary: s)
  case (Cons x xs)
  show ?case
  proof (cases "f s x")
    case (Inl e)
    then have "\<not> P x" using Cons.prems [of s x] by auto
    with Inl show ?thesis by simp
  next
    case (Inr t)
    then have "P x" using Cons.prems [of s x] by auto
    with Inr Cons show ?thesis by simp
  qed
qed simp

lemma fold_entries_Inr:
  "(\<exists>t. foldR (fold_entry p) (v, prev) es = Inr t) \<longleftrightarrow>
   chain_verified p prev es \<and> list_all op_applicable (all_operations es)"
proof (induction es arbitrary: v prev)
  case Nil
  then show ?case by (simp add: all_operations_def)
next
  case (Cons e es)
  have ops: "(\<exists>w. foldR (apply_operation p) v (ne_list (ve_operations e)) = Inr w) \<longleftrightarrow>
      list_all op_applicable (ne_list (ve_operations e))"
    by (rule foldR_Inr_iff) (rule apply_operation_Inr)
  show ?case
  proof (cases "foldR (apply_operation p) v (ne_list (ve_operations e))")
    case (Inl err)
    with ops show ?thesis
      by (auto simp: fold_entry_def Let_def all_operations_def)
  next
    case (Inr w)
    with ops Cons [of w "Some (ve_entry_digest e)"] show ?thesis
      by (auto simp: fold_entry_def Let_def all_operations_def)
  qed
qed

lemma fold_entry_good:
  "ve_previous_entry_digest e = prev \<Longrightarrow> recomputed_digest p e = ve_entry_digest e \<Longrightarrow>
   foldR (apply_operation p) v (ne_list (ve_operations e)) = Inr w \<Longrightarrow>
   fold_entry p (v, prev) e = Inr (w, Some (ve_entry_digest e))"
  by (simp add: fold_entry_def)

text \<open>A broken link is reported at the first entry that breaks the chain.\<close>

lemma fold_entries_broken:
  assumes "chain_verified p prev es" and "list_all op_applicable (all_operations es)"
    and "\<not> chain_verified p (chain_end prev es) [e]"
  shows "foldR (fold_entry p) (v, prev) (es @ e # rest) =
         Inl (VersionedChainBroken (ve_commit_sequence e))"
  using assms
proof (induction es arbitrary: v prev)
  case Nil
  then show ?case by (auto simp: chain_end_def fold_entry_def Let_def)
next
  case (Cons x es)
  have "list_all op_applicable (ne_list (ve_operations x))"
    using Cons.prems by (simp add: all_operations_def)
  then obtain w where "foldR (apply_operation p) v (ne_list (ve_operations x)) = Inr w"
    using foldR_Inr_iff [of "apply_operation p" op_applicable, OF apply_operation_Inr] by blast
  moreover have "foldR (fold_entry p) (w, Some (ve_entry_digest x)) (es @ e # rest) =
      Inl (VersionedChainBroken (ve_commit_sequence e))"
    using Cons.prems
    by (intro Cons.IH) (auto simp: chain_end_def all_operations_def split: if_splits)
  ultimately show ?case
    using Cons.prems by (simp add: fold_entry_good)
qed

section \<open>Last writes\<close>

lemma last_write_Nil [simp]: "last_write [] key = None"
  by (simp add: last_write_def)

lemma last_write_append:
  "last_write (xs @ ys) key =
     (case last_write ys key of None \<Rightarrow> last_write xs key | Some r \<Rightarrow> Some r)"
  by (simp add: last_write_def Let_def)

lemma last_write_single:
  "last_write [oper] key =
     (if operation_view_key oper = Some key then Some (operation_effect oper) else None)"
  by (simp add: last_write_def)

definition after_writes ::
  "versioned_log_operation list \<Rightarrow> (view_key \<Rightarrow> bytes option) \<Rightarrow> view_key \<Rightarrow> bytes option" where
  "after_writes opers base key = (case last_write opers key of None \<Rightarrow> base key | Some r \<Rightarrow> r)"

lemma after_writes_Nil [simp]: "after_writes [] base = base"
  by (simp add: after_writes_def fun_eq_iff)

lemma after_writes_append: "after_writes (xs @ ys) base = after_writes ys (after_writes xs base)"
  by (simp add: after_writes_def last_write_append fun_eq_iff split: option.splits)

lemma foldR_operations_rows:
  "foldR (apply_operation p) v opers = Inr w \<Longrightarrow>
   tbl_get (cv_rows w) = after_writes opers (tbl_get (cv_rows v))"
proof (induction opers arbitrary: v)
  case (Cons oper opers)
  then obtain u where u: "apply_operation p v oper = Inr u"
    and rest: "foldR (apply_operation p) u opers = Inr w"
    by (auto simp: bindR_eq_Inr)
  have "tbl_get (cv_rows u) = after_writes [oper] (tbl_get (cv_rows v))"
    by (rule apply_operation_effect [OF u]) (auto simp: after_writes_def last_write_single fun_eq_iff)
  with Cons.IH [OF rest] show ?case
    using after_writes_append [of "[oper]" opers] by simp
qed simp

lemma foldR_operations_ok:
  "foldR (apply_operation p) v opers = Inr w \<Longrightarrow> view_ok v \<Longrightarrow> view_ok w"
  by (erule foldR_invariant) (auto intro: view_ok_operation)

lemma fold_entry_Inr:
  assumes "fold_entry p s e = Inr t"
  obtains "ve_previous_entry_digest e = snd s" and "recomputed_digest p e = ve_entry_digest e"
    and "foldR (apply_operation p) (fst s) (ne_list (ve_operations e)) = Inr (fst t)"
    and "snd t = Some (ve_entry_digest e)"
  using assms by (auto simp: fold_entry_def Let_def bindR_eq_Inr split: if_splits)

lemma fold_entries_rows:
  "foldR (fold_entry p) s es = Inr t \<Longrightarrow>
   tbl_get (cv_rows (fst t)) = after_writes (all_operations es) (tbl_get (cv_rows (fst s)))"
proof (induction es arbitrary: s)
  case (Cons e es)
  then obtain u where u: "fold_entry p s e = Inr u" and rest: "foldR (fold_entry p) u es = Inr t"
    by (auto simp: bindR_eq_Inr)
  from u have "tbl_get (cv_rows (fst u)) =
      after_writes (ne_list (ve_operations e)) (tbl_get (cv_rows (fst s)))"
    by (auto elim!: fold_entry_Inr dest: foldR_operations_rows)
  with Cons.IH [OF rest] show ?case
    by (simp add: all_operations_def after_writes_append)
qed (simp add: all_operations_def)

lemma fold_entries_ok:
  "foldR (fold_entry p) s es = Inr t \<Longrightarrow> view_ok (fst s) \<Longrightarrow> view_ok (fst t)"
  by (erule foldR_invariant) (auto elim!: fold_entry_Inr dest: foldR_operations_ok)

lemma last_row_Nil [simp]: "last_row [] = (\<lambda>key. None)"
  by (simp add: last_row_def fun_eq_iff)

lemma foldR_rows_rows:
  "foldR apply_checkpoint_row v rows = Inr w \<Longrightarrow>
   tbl_get (cv_rows w) = tbl_get (cv_rows v) ++ last_row rows"
proof (induction rows arbitrary: w rule: rev_induct)
  case (snoc r rows)
  then obtain u where u: "foldR apply_checkpoint_row v rows = Inr u"
    and r: "apply_checkpoint_row u r = Inr w"
    by (auto simp: foldR_append bindR_eq_Inr)
  have "tbl_get (cv_rows w) = (tbl_get (cv_rows u))(row_view_key r := payload_bytes (vr_payload r))"
    and "payload_bytes (vr_payload r) \<noteq> None"
    using r by (auto simp: apply_checkpoint_row_def row_view_key_def Let_def table_simps
        split: option.splits)
  then show ?case
    using snoc.IH [OF u] by (auto simp: fun_eq_iff last_row_def Let_def map_add_def split: option.splits)
qed simp

lemma foldR_rows_ok:
  "foldR apply_checkpoint_row v rows = Inr w \<Longrightarrow> view_ok v \<Longrightarrow> view_ok w"
  by (erule foldR_invariant) (auto intro: view_ok_checkpoint_row)

lemma canonical_fold_ok:
  "canonical_fold p rows es prev = Inr v \<Longrightarrow> view_ok v"
  by (auto simp: canonical_fold_def bindR_eq_Inr dest!: foldR_rows_ok fold_entries_ok)

lemma canonical_fold_rows:
  "canonical_fold p rows es prev = Inr v \<Longrightarrow>
   tbl_get (cv_rows v) = after_writes (all_operations es) (last_row rows)"
  by (auto simp: canonical_fold_def bindR_eq_Inr view_empty_def map_add_def
      dest!: foldR_rows_rows fold_entries_rows)

lemma canonical_fold_Inr:
  "(\<exists>v. canonical_fold p rows es prev = Inr v) \<longleftrightarrow>
   list_all (\<lambda>r. payload_bytes (vr_payload r) \<noteq> None) rows
   \<and> chain_verified p prev es \<and> list_all op_applicable (all_operations es)"
proof -
  have rows: "(\<exists>v. foldR apply_checkpoint_row view_empty rows = Inr v) \<longleftrightarrow>
      list_all (\<lambda>r. payload_bytes (vr_payload r) \<noteq> None) rows"
    by (rule foldR_Inr_iff) (rule apply_checkpoint_row_Inr)
  show ?thesis
  proof (cases "foldR apply_checkpoint_row view_empty rows")
    case (Inl e)
    with rows show ?thesis by (auto simp: canonical_fold_def)
  next
    case (Inr v)
    with rows fold_entries_Inr [of p v prev es] show ?thesis
      by (auto simp: canonical_fold_def bindR_eq_Inr)
  qed
qed

section \<open>Replaying a suffix over checkpoint rows\<close>

lemma chain_verified_append:
  "chain_verified p prev (xs @ ys) \<longleftrightarrow>
   chain_verified p prev xs \<and> chain_verified p (chain_end prev xs) ys"
  by (induction xs arbitrary: prev) (auto simp: chain_end_def)

lemma chain_end_append: "chain_end prev (xs @ ys) = chain_end (chain_end prev xs) ys"
  by (simp add: chain_end_def)

lemma all_operations_append:
  "all_operations (xs @ ys) = all_operations xs @ all_operations ys"
  by (simp add: all_operations_def)

text \<open>Every touched key resolves, whatever the inventory, to a declared identity.\<close>

lemma resolve_identity_ok:
  assumes "view_ok v" and "tbl_get (cv_touched v) k \<noteq> None"
  obtains f where "resolve_identity (cv_identities v) inventory k = Inr f"
    and "tbl_get (cv_identities v) (identity_key_of k) = Some f"
    and "identity_key_from_identity f = identity_key_of k"
proof -
  obtain f where f: "tbl_get (cv_identities v) (identity_key_of k) = Some f"
    using assms unfolding view_ok_def by blast
  moreover from this have "identity_key_from_identity f = identity_key_of k"
    using assms unfolding view_ok_def by blast
  ultimately show thesis by (intro that) (simp_all add: resolve_identity_def)
qed

lemma view_key_new_resolved:
  "identity_key_from_identity f = identity_key_of k \<Longrightarrow> view_key_new f (snd (snd k)) = k"
  by (cases k) (simp add: identity_key_from_identity_def identity_key_of_def view_key_new_def)

lemma row_touched:
  assumes "view_ok v" and "k \<in> set (map fst (cv_rows v))"
  shows "tbl_get (cv_touched v) k \<noteq> None"
proof -
  have "tbl_get (cv_rows v) k \<noteq> None" using assms(2) by (simp add: tbl_get_None_iff)
  with assms(1) show ?thesis unfolding view_ok_def by blast
qed

definition resolved :: "canonical_view \<Rightarrow> view_key \<Rightarrow> family_identity" where
  "resolved v k = the (tbl_get (cv_identities v) (identity_key_of k))"

lemma resolve_identity_touched:
  "view_ok v \<Longrightarrow> tbl_get (cv_touched v) k \<noteq> None \<Longrightarrow>
   resolve_identity (cv_identities v) inventory k = Inr (resolved v k)
   \<and> view_key_new (resolved v k) (snd (snd k)) = k"
  by (erule (1) resolve_identity_ok [where inventory = inventory])
    (simp add: resolved_def view_key_new_resolved)

definition cleared_keys :: "canonical_view \<Rightarrow> view_key list" where
  "cleared_keys v =
     filter (\<lambda>key. tbl_get (cv_rows v) key = None) (map fst (tbl_iter (cv_touched v)))"

lemma into_rows_ok:
  assumes "view_ok v"
  shows "into_rows v inventory = Inr
    \<lparr>mr_rows = map (\<lambda>(k, bs). view_row_new (resolved v k) (snd (snd k)) (PayloadRecord bs))
                 (cv_rows v),
     mr_cleared = map (\<lambda>k. view_row_new (resolved v k) (snd (snd k)) Tombstone)
                    (cleared_keys v)\<rparr>"
proof -
  note touched = row_touched [OF assms]
  have cleared: "tbl_get (cv_touched v) k \<noteq> None" if "k \<in> set (cleared_keys v)" for k
    using that tbl_get_None_iff [of "cv_touched v" k] by (auto simp: cleared_keys_def tbl_iter_def)
  have 1: "mapR (\<lambda>key. bindR (resolve_identity (cv_identities v) inventory key)
        (\<lambda>f. Inr (view_row_new f (snd (snd key)) Tombstone))) (cleared_keys v)
      = Inr (map (\<lambda>k. view_row_new (resolved v k) (snd (snd k)) Tombstone) (cleared_keys v))"
    using assms cleared by (intro mapR_total) (simp add: resolve_identity_touched)
  have 2: "mapR (\<lambda>(key, payload). bindR (resolve_identity (cv_identities v) inventory key)
        (\<lambda>f. Inr (view_row_new f (snd (snd key)) (PayloadRecord payload)))) (cv_rows v)
      = Inr (map (\<lambda>(k, bs). view_row_new (resolved v k) (snd (snd k)) (PayloadRecord bs))
          (cv_rows v))"
  proof (rule mapR_total)
    fix x assume "x \<in> set (cv_rows v)"
    then have "tbl_get (cv_touched v) (fst x) \<noteq> None" by (intro touched) simp
    then show "(case x of (key, payload) \<Rightarrow>
        bindR (resolve_identity (cv_identities v) inventory key)
          (\<lambda>f. Inr (view_row_new f (snd (snd key)) (PayloadRecord payload)))) =
        Inr (case x of (k, bs) \<Rightarrow>
          view_row_new (resolved v k) (snd (snd k)) (PayloadRecord bs))"
      using assms by (simp add: case_prod_beta resolve_identity_touched)
  qed
  from 1 2 show ?thesis
    unfolding into_rows_def cleared_keys_def tbl_iter_def by simp
qed

text \<open>Folding the projected rows gives the rows back.\<close>

lemma last_row_distinct:
  assumes "distinct (map row_view_key rows)"
  shows "last_row rows k = Some bs \<longleftrightarrow>
    (\<exists>r \<in> set rows. row_view_key r = k \<and> payload_bytes (vr_payload r) = Some bs)"
  using assms
proof (induction rows rule: rev_induct)
  case (snoc r rows)
  show ?case
  proof (cases "row_view_key r = k")
    case True
    with snoc.prems have "\<forall>x \<in> set rows. row_view_key x \<noteq> k"
      by (simp add: image_iff) (metis image_eqI)
    with True show ?thesis by (auto simp: last_row_def Let_def)
  next
    case False
    then have "last_row (rows @ [r]) k = last_row rows k" by (simp add: last_row_def)
    with snoc False show ?thesis by simp
  qed
qed simp

lemma into_rows_refold:
  assumes ok: "view_ok v" and rows: "into_rows v inventory = Inr m"
  shows "last_row (mr_rows m) = tbl_get (cv_rows v)"
    and "list_all (\<lambda>r. payload_bytes (vr_payload r) \<noteq> None) (mr_rows m)"
proof -
  have touched: "tbl_get (cv_touched v) (fst x) \<noteq> None" if "x \<in> set (cv_rows v)" for x
    using row_touched [OF ok, of "fst x"] that by simp
  have m: "mr_rows m = map (\<lambda>x. view_row_new (resolved v (fst x)) (snd (snd (fst x)))
      (PayloadRecord (snd x))) (cv_rows v)"
    using into_rows_ok [OF ok, of inventory] rows by (auto simp: case_prod_beta)
  have key: "row_view_key (view_row_new (resolved v (fst x)) (snd (snd (fst x)))
      (PayloadRecord (snd x))) = fst x" if "x \<in> set (cv_rows v)" for x
    using resolve_identity_touched [OF ok touched [OF that]]
    by (simp add: row_view_key_def view_row_new_def)
  then have keys: "map row_view_key (mr_rows m) = map fst (cv_rows v)"
    by (simp add: m)
  moreover have "tbl_ok (cv_rows v)" using ok by (simp add: view_ok_def)
  ultimately have "distinct (map row_view_key (mr_rows m))"
    by (simp add: tbl_ok_distinct)
  note one = last_row_distinct [OF this]
  have "last_row (mr_rows m) k = Some bs \<longleftrightarrow> tbl_get (cv_rows v) k = Some bs" for k bs
  proof -
    have "last_row (mr_rows m) k = Some bs \<longleftrightarrow>
        (\<exists>r \<in> set (mr_rows m). row_view_key r = k \<and> payload_bytes (vr_payload r) = Some bs)"
      by (rule one)
    also have "\<dots> \<longleftrightarrow> (\<exists>x \<in> set (cv_rows v). fst x = k \<and> snd x = bs)"
      unfolding m set_map bex_simps(7)
      by (rule bex_cong [OF refl]) (use key in \<open>simp add: view_row_new_def\<close>)
    also have "\<dots> \<longleftrightarrow> (k, bs) \<in> set (cv_rows v)" by force
    finally show ?thesis by (simp add: tbl_get_Some_iff \<open>tbl_ok (cv_rows v)\<close>)
  qed
  then show "last_row (mr_rows m) = tbl_get (cv_rows v)"
    by (intro ext) (metis not_Some_eq)
  show "list_all (\<lambda>r. payload_bytes (vr_payload r) \<noteq> None) (mr_rows m)"
    by (simp add: m list_all_iff view_row_new_def)
qed

section \<open>The chain head commits to the log\<close>

text \<open>Two verified logs from genesis with one head digest are the same log, unless two different
  entry encodings that occur in them have one \<open>blake3\<close> digest.\<close>

definition entry_collision ::
  "'p primitives_scheme \<Rightarrow> versioned_entry list \<Rightarrow> versioned_entry list \<Rightarrow> bool" where
  "entry_collision p xs ys \<longleftrightarrow>
     (\<exists>a \<in> set xs. \<exists>b \<in> set ys. collides p (entry_own_bytes p a) (entry_own_bytes p b))"

lemma chain_verified_snoc:
  "chain_verified p prev (xs @ [x]) \<longleftrightarrow>
   chain_verified p prev xs \<and> ve_previous_entry_digest x = chain_end prev xs
   \<and> recomputed_digest p x = ve_entry_digest x"
  by (simp add: chain_verified_append)

lemma chain_end_snoc: "chain_end prev (xs @ [x]) = Some (ve_entry_digest x)"
  by (simp add: chain_end_def)

lemma chain_end_None: "chain_end None xs = None \<longleftrightarrow> xs = []"
  by (simp add: chain_end_def)

lemma chains_agree:
  assumes heads: "record_heads_ok p"
  shows "chain_verified p None xs \<Longrightarrow> chain_verified p None ys \<Longrightarrow>
    list_all entry_sized xs \<Longrightarrow> list_all entry_sized ys \<Longrightarrow>
    chain_end None xs = chain_end None ys \<Longrightarrow> xs = ys \<or> entry_collision p xs ys"
proof (induction xs arbitrary: ys rule: rev_induct)
  case Nil
  then show ?case using chain_end_None [of ys] by (simp add: chain_end_def)
next
  case (snoc x xs)
  then obtain zs y where ys: "ys = zs @ [y]"
    by (metis chain_end_snoc chain_end_None option.distinct(1) rev_exhaust)
  have same: "recomputed_digest p x = recomputed_digest p y"
    using snoc.prems by (simp add: ys chain_end_snoc chain_verified_snoc)
  show ?case
  proof (cases "entry_own_bytes p x = entry_own_bytes p y")
    case False
    with same have "collides p (entry_own_bytes p x) (entry_own_bytes p y)"
      by (simp add: collides_def recomputed_digest_own)
    then show ?thesis by (auto simp: entry_collision_def ys)
  next
    case True
    have fields: "x\<lparr>ve_entry_digest := ve_entry_digest y\<rparr> = y"
      using entry_bytes_inject [OF heads _ _ True, of "ve_entry_digest y"] snoc.prems
      by (simp add: ys)
    moreover have "ve_entry_digest x = ve_entry_digest y"
      using snoc.prems by (simp add: ys chain_end_snoc)
    ultimately have xy: "x = y" by (cases x) simp
    then have "chain_end None xs = chain_end None zs"
      using snoc.prems by (simp add: ys chain_verified_snoc)
    with snoc xy show ?thesis
      using snoc.IH [of zs] by (auto simp: ys chain_verified_snoc entry_collision_def)
  qed
qed

section \<open>View digests\<close>

definition view_sized :: "canonical_view \<Rightarrow> bool" where
  "view_sized v \<longleftrightarrow> sized (cv_rows v)
     \<and> list_all (\<lambda>((fam, hash, key), bs). sized fam \<and> sized hash \<and> key_sized key \<and> sized bs)
         (cv_rows v)"

definition view_row_bytes :: "view_key \<times> bytes \<Rightarrow> bytes" where
  "view_row_bytes = (\<lambda>((fam, hash, key), payload).
     update_bytes (as_bytes fam) @ update_bytes hash @ key_digest_bytes key @ update_bytes payload)"

interpretation view_rows: self_delimiting view_row_bytes
  "\<lambda>((fam, hash, key), bs). sized fam \<and> sized hash \<and> key_sized key \<and> sized bs"
  by unfold_locales
    (auto simp: view_row_bytes_def prefixed_string_cancel prefixed.enc_cancel key_bytes.enc_cancel)

lemma view_digest_bytes_inject:
  assumes "view_sized v" and "view_sized w" and "view_digest_bytes v = view_digest_bytes w"
  shows "cv_rows v = cv_rows w"
proof -
  have "to_le_bytes (of_nat (length (cv_rows v))) @ concat (map view_row_bytes (cv_rows v)) @ [] =
      to_le_bytes (of_nat (length (cv_rows w))) @ concat (map view_row_bytes (cv_rows w)) @ []"
    using assms(3)
    by (simp add: view_digest_bytes_def tbl_iter_def view_row_bytes_def [symmetric])
  with assms(1,2) show ?thesis
    using view_rows.counted_cancel [of "cv_rows v" "cv_rows w" "[]" "[]"]
    by (simp add: view_sized_def)
qed

section \<open>Properties\<close>

text \<open>C20 The fold accepts a log exactly when every checkpoint row carries a record payload, every
  entry names its predecessor's digest and hashes to its own, and every operation is keyed and either
  a retraction or an assertion or mutation with a record payload.\<close>

theorem fold_accepts:
  "(\<exists>v. canonical_fold p rows es prev = Inr v) \<longleftrightarrow>
     list_all (\<lambda>r. payload_bytes (vr_payload r) \<noteq> None) rows
     \<and> chain_verified p prev es \<and> list_all op_applicable (all_operations es)"
  by (rule canonical_fold_Inr)

text \<open>C21 The first entry that breaks the chain is the one the fold reports, whatever follows it.\<close>

theorem fold_reports_first_break:
  assumes "chain_verified p prev es" and "list_all op_applicable (all_operations es)"
    and "ve_previous_entry_digest e \<noteq> chain_end prev es \<or> recomputed_digest p e \<noteq> ve_entry_digest e"
  shows "canonical_fold p [] (es @ e # rest) prev = Inl (VersionedChainBroken (ve_commit_sequence e))"
  using assms fold_entries_broken [of p prev es e view_empty rest]
  by (simp add: canonical_fold_def)

lemma fold_reports_first_break_witness:
  "canonical_fold sample_primitives [] ([sample_first] @ sample_third # []) None =
     Inl (VersionedChainBroken (ve_commit_sequence sample_third))"
proof (rule fold_reports_first_break)
  show "chain_verified sample_primitives None [sample_first]"
    by (simp add: sample_defs)
  show "list_all op_applicable (all_operations [sample_first])"
    by (simp add: sample_defs all_operations_def op_applicable_def)
  show "ve_previous_entry_digest sample_third \<noteq> chain_end None [sample_first]
      \<or> recomputed_digest sample_primitives sample_third \<noteq> ve_entry_digest sample_third"
    by (simp add: sample_defs chain_end_def) code_simp
qed

text \<open>C22 A folded view holds, at every key, the payload of the last operation on that key (nothing
  when it was a retraction), and the checkpoint row where no operation touched the key.\<close>

theorem fold_last_write:
  assumes "canonical_fold p rows es prev = Inr v"
  shows "tbl_get (cv_rows v) key =
    (case last_write (all_operations es) key of Some r \<Rightarrow> r | None \<Rightarrow> last_row rows key)"
  using canonical_fold_rows [OF assms] by (simp add: after_writes_def split: option.splits)

lemma fold_last_write_witness:
  "\<exists>v. canonical_fold sample_primitives [] [sample_first, sample_second] None = Inr v
     \<and> tbl_get (cv_rows v) (''note'', [1], Domain ''a'') = Some [20]"
proof -
  have "chain_verified sample_primitives None [sample_first, sample_second]"
    and "list_all op_applicable (all_operations [sample_first, sample_second])"
    by (simp_all add: sample_defs all_operations_def op_applicable_def)
  then obtain v where
    v: "canonical_fold sample_primitives [] [sample_first, sample_second] None = Inr v"
    using canonical_fold_Inr [of sample_primitives "[]" "[sample_first, sample_second]" None] by auto
  with fold_last_write [OF v, of "(''note'', [1], Domain ''a'')"] show ?thesis
    by (simp add: sample_defs sample_family_def all_operations_def last_write_def
        operation_view_key_def operation_effect_def view_key_new_def)
qed

text \<open>C23 Restoring from a checkpoint loses nothing: the rows a view projects to, folded together with
  a later log suffix from the checkpoint's chain head, give exactly the rows and the view digest of
  folding the whole log.\<close>

theorem checkpoint_plus_suffix:
  assumes whole: "canonical_fold p rows (es @ suffix) prev = Inr w"
    and prefix: "canonical_fold p rows es prev = Inr v"
    and projected: "into_rows v inventory = Inr m"
  shows "\<exists>u. canonical_fold p (mr_rows m) suffix (chain_end prev es) = Inr u
    \<and> cv_rows u = cv_rows w \<and> view_digest p u = view_digest p w"
proof -
  note refold = into_rows_refold [OF canonical_fold_ok [OF prefix] projected]
  have "chain_verified p prev (es @ suffix) \<and> list_all op_applicable (all_operations (es @ suffix))"
    using whole canonical_fold_Inr [of p rows "es @ suffix" prev] by auto
  then obtain u where u: "canonical_fold p (mr_rows m) suffix (chain_end prev es) = Inr u"
    using canonical_fold_Inr [of p "mr_rows m" suffix "chain_end prev es"] refold(2)
    by (auto simp: chain_verified_append all_operations_append)
  have "tbl_get (cv_rows u) = tbl_get (cv_rows w)"
    using canonical_fold_rows [OF u] canonical_fold_rows [OF whole] canonical_fold_rows [OF prefix]
    by (simp add: refold(1) all_operations_append after_writes_append)
  then have "cv_rows u = cv_rows w"
    using canonical_fold_ok [OF u] canonical_fold_ok [OF whole]
    by (auto simp: view_ok_def intro: tbl_ext)
  with u show ?thesis by (simp add: view_digest_def view_digest_bytes_def)
qed

lemma sample_chain:
  "chain_verified sample_primitives None [sample_first, sample_second]"
  "list_all op_applicable (all_operations [sample_first, sample_second])"
  by (simp_all add: sample_defs all_operations_def op_applicable_def)

lemma checkpoint_plus_suffix_witness:
  "\<exists>v m u w. canonical_fold sample_primitives [] [sample_first] None = Inr v
     \<and> into_rows v [] = Inr m
     \<and> canonical_fold sample_primitives [] ([sample_first] @ [sample_second]) None = Inr w
     \<and> canonical_fold sample_primitives (mr_rows m) [sample_second] (chain_end None [sample_first])
         = Inr u \<and> cv_rows u = cv_rows w"
proof -
  obtain w where
    w: "canonical_fold sample_primitives [] ([sample_first] @ [sample_second]) None = Inr w"
    using sample_chain canonical_fold_Inr [of sample_primitives "[]"
        "[sample_first] @ [sample_second]" None] by auto
  obtain v where v: "canonical_fold sample_primitives [] [sample_first] None = Inr v"
    using sample_chain canonical_fold_Inr [of sample_primitives "[]" "[sample_first]" None]
    by (auto simp: all_operations_def)
  obtain m where m: "into_rows v [] = Inr m"
    using into_rows_ok [OF canonical_fold_ok [OF v]] by blast
  from checkpoint_plus_suffix [OF w v m] v m w show ?thesis by blast
qed

text \<open>Projecting a folded view never fails, whatever inventory is supplied: the log declares every
  identity it uses, so \<open>FamilyUnknown\<close> cannot arise.  The projected rows are the folded rows,
  and the cleared rows are the touched keys that hold no row.\<close>

lemma into_rows_total:
  assumes "canonical_fold p rows es prev = Inr v"
  shows "\<exists>m. into_rows v inventory = Inr m
    \<and> map row_view_key (mr_rows m) = map fst (cv_rows v)
    \<and> map row_view_key (mr_cleared m) = cleared_keys v
    \<and> set (map row_view_key (mr_rows m @ mr_cleared m)) = set (map fst (cv_touched v))"
proof -
  have ok: "view_ok v" by (rule canonical_fold_ok [OF assms])
  note touched = row_touched [OF ok]
  have key: "row_view_key (view_row_new (resolved v k) (snd (snd k)) payload) = k"
    if "tbl_get (cv_touched v) k \<noteq> None" for k payload
    using resolve_identity_touched [OF ok that] by (simp add: row_view_key_def view_row_new_def)
  define m where "m = \<lparr>mr_rows = map (\<lambda>(k, bs). view_row_new (resolved v k) (snd (snd k))
      (PayloadRecord bs)) (cv_rows v),
    mr_cleared = map (\<lambda>k. view_row_new (resolved v k) (snd (snd k)) Tombstone) (cleared_keys v)\<rparr>"
  have rows: "map row_view_key (mr_rows m) = map fst (cv_rows v)"
    using key touched by (auto simp: m_def case_prod_beta simp del: not_None_eq)
  have cleared: "map row_view_key (mr_cleared m) = cleared_keys v"
    using key
    by (auto simp: m_def cleared_keys_def tbl_iter_def tbl_get_None_iff simp del: not_None_eq
        intro!: map_idI)
  have "set (map fst (cv_rows v)) \<subseteq> set (map fst (cv_touched v))"
    using touched by (simp only: tbl_get_None_iff) blast
  then have "set (map fst (cv_rows v) @ cleared_keys v) = set (map fst (cv_touched v))"
    unfolding cleared_keys_def tbl_iter_def tbl_get_None_iff by auto
  with rows cleared have "set (map row_view_key (mr_rows m @ mr_cleared m)) =
      set (map fst (cv_touched v))"
    by (simp only: map_append)
  with into_rows_ok [OF ok, of inventory] rows cleared show ?thesis
    unfolding m_def by blast
qed

text \<open>C25 The chain head commits to the whole log: two verified logs from genesis that end in the same
  digest are equal, or two entries of theirs with different hashed bytes have the same \<open>blake3\<close>
  digest.\<close>

theorem chain_head_commits:
  assumes "record_heads_ok p"
    and "canonical_fold p [] xs None = Inr v" and "canonical_fold p [] ys None = Inr w"
    and "list_all entry_sized xs" and "list_all entry_sized ys"
    and "chain_end None xs = chain_end None ys"
  shows "xs = ys \<or> entry_collision p xs ys"
  using assms canonical_fold_Inr [of p "[]" xs None] canonical_fold_Inr [of p "[]" ys None]
  by (intro chains_agree) auto

lemma chain_head_commits_witness:
  "[sample_first] = [sample_first] \<or> entry_collision sample_primitives [sample_first] [sample_first]"
proof -
  obtain v where v: "canonical_fold sample_primitives [] [sample_first] None = Inr v"
    using sample_chain canonical_fold_Inr [of sample_primitives "[]" "[sample_first]" None]
    by (auto simp: all_operations_def)
  have "list_all entry_sized [sample_first]"
    by (simp add: sample_defs entry_sized_def operation_sized_def sample_family_def
        family_sized_def key_sized_def sized_def)
  then show ?thesis
    by (intro chain_head_commits [OF sample_heads_ok v v]) simp_all
qed

text \<open>The view digest names the rows: two folded views with one digest have the same rows, or
  the two byte strings that were hashed are a \<open>blake3\<close> collision.\<close>

theorem view_digest_commits:
  assumes "view_sized v" and "view_sized w" and "view_digest p v = view_digest p w"
  shows "cv_rows v = cv_rows w \<or> collides p (view_digest_bytes v) (view_digest_bytes w)"
  using assms view_digest_bytes_inject [of v w] by (auto simp: collides_def view_digest_def)

definition sample_view :: "bytes \<Rightarrow> canonical_view" where
  "sample_view bs = view_empty\<lparr>cv_rows := [((''note'', [1], Domain ''a''), bs)]\<rparr>"

lemma view_digest_commits_witness:
  "cv_rows (sample_view [1]) = cv_rows (sample_view [2])
   \<or> collides sample_primitives (view_digest_bytes (sample_view [1]))
       (view_digest_bytes (sample_view [2]))"
proof (rule view_digest_commits)
  show "view_sized (sample_view [1])" and "view_sized (sample_view [2])"
    by (simp_all add: sample_view_def view_sized_def sized_def key_sized_def)
  show "view_digest sample_primitives (sample_view [1]) =
      view_digest sample_primitives (sample_view [2])"
    by (simp add: sample_view_def view_digest_def view_digest_bytes_def sample_primitives_def
        sample_hash_def tbl_iter_def update_bytes_def)
qed

end
