(* ===== verification/Checkpoint_Laws.thy ===== *)
theory Checkpoint_Laws
  imports Checkpoints Fold_Laws
begin

text \<open>
  What checkpoints promise: chunking keeps every row in order within the byte budget, a freshly built
  checkpoint verifies, a verified checkpoint is determined by its digest (up to an exhibited hash
  collision), and decoding a portable artifact gives back the checkpoint that was encoded, verified.
\<close>

section \<open>Chunking\<close>

definition rows_bytes :: "view_row list \<Rightarrow> nat" where
  "rows_bytes rows = sum_list (map row_bytes rows)"

definition segment_fits :: "checkpoint_segment \<Rightarrow> bool" where
  "segment_fits s \<longleftrightarrow> seg_rows s \<noteq> []
     \<and> (length (seg_rows s) = 1 \<or> rows_bytes (seg_rows s) \<le> segment_byte_budget)"

text \<open>The next segment starts where the budget would have been exceeded.\<close>

definition segment_closed :: "checkpoint_segment \<Rightarrow> checkpoint_segment \<Rightarrow> bool" where
  "segment_closed s t \<longleftrightarrow>
     seg_rows t \<noteq> [] \<and> rows_bytes (seg_rows s) + row_bytes (hd (seg_rows t)) > segment_byte_budget"

lemma rows_bytes_simps [simp]:
  "rows_bytes [] = 0" "rows_bytes (xs @ ys) = rows_bytes xs + rows_bytes ys"
  "rows_bytes (x # xs) = row_bytes x + rows_bytes xs"
  by (simp_all add: rows_bytes_def)

lemma chunk_loop_rows:
  "concat (map seg_rows (chunk_loop segs cur n rows)) = concat (map seg_rows segs) @ cur @ rows"
  by (induction segs cur n rows rule: chunk_loop.induct) simp_all

lemma chunk_loop_fits:
  "\<forall>s \<in> set segs. segment_fits s \<Longrightarrow> n = rows_bytes cur \<Longrightarrow>
   cur = [] \<or> segment_fits \<lparr>seg_rows = cur\<rparr> \<Longrightarrow> s \<in> set (chunk_loop segs cur n rows) \<Longrightarrow>
   segment_fits s"
proof (induction segs cur n rows rule: chunk_loop.induct)
  case (2 segs cur n row rows)
  show ?case
  proof (cases "cur \<noteq> [] \<and> n + row_bytes row > segment_byte_budget")
    case True
    then have "s \<in> set (chunk_loop (segs @ [\<lparr>seg_rows = cur\<rparr>]) [row] (row_bytes row) rows)"
      using "2.prems" by simp
    with True show ?thesis
      using "2.prems"
      by (intro "2.IH"(1) [OF True]) (auto simp: segment_fits_def)
  next
    case False
    then have "s \<in> set (chunk_loop segs (cur @ [row]) (n + row_bytes row) rows)"
      using "2.prems" by auto
    with False show ?thesis
      using "2.prems"
      by (intro "2.IH"(2) [OF False]) (auto simp: segment_fits_def)
  qed
qed (auto split: if_splits)

lemma chunk_loop_closed:
  "successively segment_closed segs \<Longrightarrow> n = rows_bytes cur \<Longrightarrow>
   (segs \<noteq> [] \<Longrightarrow> cur \<noteq> [] \<and> segment_closed (last segs) \<lparr>seg_rows = cur\<rparr>) \<Longrightarrow>
   successively segment_closed (chunk_loop segs cur n rows)"
proof (induction segs cur n rows rule: chunk_loop.induct)
  case (1 segs cur n)
  then show ?case by (auto simp: successively_append_iff)
next
  case (2 segs cur n row rows)
  show ?case
  proof (cases "cur \<noteq> [] \<and> n + row_bytes row > segment_byte_budget")
    case True
    then have "successively segment_closed
        (chunk_loop (segs @ [\<lparr>seg_rows = cur\<rparr>]) [row] (row_bytes row) rows)"
      using "2.prems"
      by (intro "2.IH"(1) [OF True]) (auto simp: successively_append_iff segment_closed_def)
    with True show ?thesis by simp
  next
    case False
    then have "successively segment_closed (chunk_loop segs (cur @ [row]) (n + row_bytes row) rows)"
      using "2.prems"
      by (intro "2.IH"(2) [OF False]) (auto simp: segment_closed_def)
    with False show ?thesis by auto
  qed
qed

section \<open>Digest encodings of the parts\<close>

definition view_row_sized :: "view_row \<Rightarrow> bool" where
  "view_row_sized r \<longleftrightarrow>
     family_sized (vr_family r) \<and> key_sized (vr_key r) \<and> payload_sized (vr_payload r)"

interpretation view_row_bytes: self_delimiting view_row_digest_bytes view_row_sized
proof
  fix a b :: view_row and x y :: bytes
  assume "view_row_sized a" and "view_row_sized b"
  then show "view_row_digest_bytes a @ x = view_row_digest_bytes b @ y \<longleftrightarrow> a = b \<and> x = y"
    by (cases a; cases b)
      (auto simp: view_row_digest_bytes_def view_row_sized_def family_bytes.enc_cancel
        key_bytes.enc_cancel payload_bytes.enc_cancel)
qed

definition counter_sized :: "identified_counter \<Rightarrow> bool" where
  "counter_sized c \<longleftrightarrow> sized (ic_table_name c)"

interpretation counter_bytes: self_delimiting identified_counter_bytes counter_sized
proof
  fix a b :: identified_counter and x y :: bytes
  assume "counter_sized a" and "counter_sized b"
  then show "identified_counter_bytes a @ x = identified_counter_bytes b @ y \<longleftrightarrow> a = b \<and> x = y"
    by (cases a; cases b)
      (auto simp: identified_counter_bytes_def counter_sized_def prefixed.enc_cancel)
qed

definition inventory_sized :: "family_inventory \<Rightarrow> bool" where
  "inventory_sized i \<longleftrightarrow>
     sized (fi_families i) \<and> list_all family_sized (fi_families i)
     \<and> sized (fi_identified_counters i) \<and> list_all counter_sized (fi_identified_counters i)"

interpretation inventory_bytes: self_delimiting inventory_bytes inventory_sized
proof
  fix a b :: family_inventory and x y :: bytes
  assume szd: "inventory_sized a" "inventory_sized b"
  have "inventory_bytes a @ x = inventory_bytes b @ y \<longleftrightarrow> fi_families a = fi_families b
      \<and> fi_identified_counters a = fi_identified_counters b \<and> x = y"
    using szd unfolding inventory_sized_def
    by (simp only: inventory_bytes_def append_assoc family_bytes.counted_cancel
        counter_bytes.counted_cancel)
  then show "inventory_bytes a @ x = inventory_bytes b @ y \<longleftrightarrow> a = b \<and> x = y"
    by (cases a; cases b) auto
qed

definition reference_sized :: "segment_reference \<Rightarrow> bool" where
  "reference_sized r \<longleftrightarrow> sized (ref_digest r)"

interpretation reference_bytes: self_delimiting segment_reference_bytes reference_sized
proof
  fix a b :: segment_reference and x y :: bytes
  assume "reference_sized a" and "reference_sized b"
  then show "segment_reference_bytes a @ x = segment_reference_bytes b @ y \<longleftrightarrow> a = b \<and> x = y"
    by (cases a; cases b)
      (auto simp: segment_reference_bytes_def reference_sized_def prefixed.enc_cancel)
qed

definition segment_sized :: "checkpoint_segment \<Rightarrow> bool" where
  "segment_sized s \<longleftrightarrow> sized (seg_rows s) \<and> list_all view_row_sized (seg_rows s)"

definition metadata_sized :: "checkpoint_metadata \<Rightarrow> bool" where
  "metadata_sized m \<longleftrightarrow>
     sized (cm_store_name m) \<and> sized (cm_store_schema_hash m)
     \<and> inventory_sized (cm_family_inventory m) \<and> sized (cm_covered_entry_digest m)
     \<and> sized (cm_view_digest m) \<and> pred_option sized (cm_previous_checkpoint_digest m)
     \<and> sized (cm_segments m) \<and> list_all reference_sized (cm_segments m)"

lemma segment_bytes_inject:
  "segment_sized s \<Longrightarrow> segment_sized t \<Longrightarrow> segment_bytes s = segment_bytes t \<Longrightarrow> s = t"
  using view_row_bytes.counted_cancel [of "seg_rows s" "seg_rows t" "[]" "[]"]
  by (cases s; cases t) (simp add: segment_bytes_def segment_sized_def)

lemma metadata_bytes_inject:
  assumes "metadata_sized m" and "metadata_sized n" and "metadata_bytes m = metadata_bytes n"
    and "cm_checkpoint_digest m = cm_checkpoint_digest n"
  shows "m = n"
  using assms
  by (cases m; cases n; cases "cm_covered m"; cases "cm_covered n")
    (simp add: metadata_bytes_def metadata_sized_def prefixed.enc_cancel inventory_bytes.enc_cancel
      optional_digest_cancel
      reference_bytes.counted_cancel [where x = "[]" and y = "[]", simplified])

section \<open>Verification\<close>

lemma verify_segments_Inr:
  "length segs = length refs \<Longrightarrow>
   verify_segments p (zip segs refs) = Inr () \<longleftrightarrow> map (segment_digest p) segs = map ref_digest refs"
  by (induction segs refs rule: list_induct2) auto

lemma verify_Inr:
  "verify p c = Inr () \<longleftrightarrow>
     computed_digest p (ck_metadata c) = cm_checkpoint_digest (ck_metadata c)
     \<and> map (segment_digest p) (ck_segments c) = map ref_digest (cm_segments (ck_metadata c))
     \<and> (\<exists>v. canonical_fold p (checkpoint_rows c) [] None = Inr v
            \<and> view_digest p v = cm_view_digest (ck_metadata c))"
proof -
  have "length (ck_segments c) = length (cm_segments (ck_metadata c))"
    if "map (segment_digest p) (ck_segments c) = map ref_digest (cm_segments (ck_metadata c))"
    using that by (rule map_eq_imp_length_eq)
  moreover have "length (ck_segments c) = length (cm_segments (ck_metadata c)) \<Longrightarrow>
      verify_segments p (zip (ck_segments c) (cm_segments (ck_metadata c))) = Inr () \<longleftrightarrow>
      map (segment_digest p) (ck_segments c) = map ref_digest (cm_segments (ck_metadata c))"
    by (rule verify_segments_Inr)
  ultimately show ?thesis
    by (auto simp: verify_def Let_def bindR_eq_Inr)
qed

lemma computed_digest_new [simp]:
  "computed_digest p (checkpoint_metadata_new p s n h i c sn e vd prev segs) =
   cm_checkpoint_digest (checkpoint_metadata_new p s n h i c sn e vd prev segs)"
  by (simp add: checkpoint_metadata_new_def computed_digest_def metadata_bytes_def Let_def)

lemma checkpoint_metadata_new_sel [simp]:
  "cm_segments (checkpoint_metadata_new p s n h i c sn e vd prev segs) = segs"
  "cm_view_digest (checkpoint_metadata_new p s n h i c sn e vd prev segs) = vd"
  "cm_covered_entry_digest (checkpoint_metadata_new p s n h i c sn e vd prev segs) = e"
  "cm_family_inventory (checkpoint_metadata_new p s n h i c sn e vd prev segs) = i"
  "cm_store_name (checkpoint_metadata_new p s n h i c sn e vd prev segs) = n"
  "cm_sequence (checkpoint_metadata_new p s n h i c sn e vd prev segs) = s"
  "cm_covered (checkpoint_metadata_new p s n h i c sn e vd prev segs) = c"
  "cm_covered_snapshot (checkpoint_metadata_new p s n h i c sn e vd prev segs) = sn"
  by (simp_all add: checkpoint_metadata_new_def Let_def)

text \<open>Folding the rows a view projects to gives a view with the same rows, hence the same digest.\<close>

lemma refold_view_digest:
  assumes fold: "canonical_fold p base es prev = Inr v" and rows: "into_rows v inventory = Inr m"
  shows "\<exists>u. canonical_fold p (mr_rows m) [] None = Inr u \<and> view_digest p u = view_digest p v"
proof -
  note refold = into_rows_refold [OF canonical_fold_ok [OF fold] rows]
  then obtain u where u: "canonical_fold p (mr_rows m) [] None = Inr u"
    using canonical_fold_Inr [of p "mr_rows m" "[]" None] by (auto simp: all_operations_def)
  have "cv_rows u = cv_rows v"
    using canonical_fold_rows [OF u] canonical_fold_ok [OF u] canonical_fold_ok [OF fold] refold(1)
    by (auto simp: view_ok_def all_operations_def intro!: tbl_ext)
  with u show ?thesis by (simp add: view_digest_def view_digest_bytes_def)
qed

lemma chunk_rows [simp]: "concat (map seg_rows (chunk rows)) = rows"
  by (simp add: chunk_def chunk_loop_rows)

section \<open>Properties\<close>

text \<open>C27 Chunking partitions the view rows: the segments concatenate to the rows in order, none is
  empty, a segment of more than one row stays within the byte budget, and a segment ends only
  where the next row would have exceeded it.\<close>

theorem chunk_partitions:
  "concat (map seg_rows (chunk rows)) = rows \<and> list_all segment_fits (chunk rows)
   \<and> successively segment_closed (chunk rows)"
  using chunk_loop_fits [of "[]" 0 "[]"] chunk_loop_closed [of "[]" 0 "[]" rows]
  by (auto simp: chunk_def chunk_loop_rows list_all_iff)

text \<open>A checkpoint built from a folded view verifies: metadata over the chunked rows of the view,
  with the view's digest and the segments' own references, passes every content-address check.\<close>

theorem fresh_checkpoint_verifies:
  assumes "canonical_fold p base es prev = Inr v" and "into_rows v inventory = Inr m"
  shows "verify p
    \<lparr>ck_metadata = checkpoint_metadata_new p s name schema fams covered snap entry_digest
       (view_digest p v) previous (map (segment_reference_of p) (chunk (mr_rows m))),
     ck_segments = chunk (mr_rows m)\<rparr> = Inr ()"
  using refold_view_digest [OF assms]
  by (auto simp: verify_Inr checkpoint_rows_def segment_reference_of_def)

lemma fresh_checkpoint_verifies_witness:
  "\<exists>v m. canonical_fold sample_primitives [] [sample_first, sample_second] None = Inr v
     \<and> into_rows v [] = Inr m
     \<and> verify sample_primitives
         \<lparr>ck_metadata = checkpoint_metadata_new sample_primitives 1 ''store'' [7]
            \<lparr>fi_families = [sample_family], fi_identified_counters = []\<rparr>
            \<lparr>csr_first = 1, csr_last = 2\<rparr> 2 (ve_entry_digest sample_second)
            (view_digest sample_primitives v) None
            (map (segment_reference_of sample_primitives) (chunk (mr_rows m))),
          ck_segments = chunk (mr_rows m)\<rparr> = Inr ()"
proof -
  obtain v where
    v: "canonical_fold sample_primitives [] [sample_first, sample_second] None = Inr v"
    using sample_chain canonical_fold_Inr [of sample_primitives "[]"
        "[sample_first, sample_second]" None] by auto
  obtain m where m: "into_rows v [] = Inr m"
    using into_rows_ok [OF canonical_fold_ok [OF v]] by blast
  from fresh_checkpoint_verifies [OF v m] v m show ?thesis by blast
qed

text \<open>C29 The checkpoint digest commits to the whole checkpoint: two verified checkpoints with one
  digest are the same metadata and the same rows, or a \<open>blake3\<close> collision between their metadata
  encodings or between two segment encodings is exhibited.\<close>

theorem checkpoint_digest_commits:
  assumes a: "verify p a = Inr ()" and b: "verify p b = Inr ()"
    and "metadata_sized (ck_metadata a)" and "metadata_sized (ck_metadata b)"
    and segs: "list_all segment_sized (ck_segments a)" "list_all segment_sized (ck_segments b)"
    and same: "cm_checkpoint_digest (ck_metadata a) = cm_checkpoint_digest (ck_metadata b)"
  shows "a = b \<or> collides p (metadata_bytes (ck_metadata a)) (metadata_bytes (ck_metadata b))
    \<or> (\<exists>s \<in> set (ck_segments a). \<exists>t \<in> set (ck_segments b).
          collides p (segment_bytes s) (segment_bytes t))"
proof (cases "metadata_bytes (ck_metadata a) = metadata_bytes (ck_metadata b)")
  case False
  with a b same show ?thesis by (simp add: verify_Inr computed_digest_def collides_def)
next
  case True
  then have meta: "ck_metadata a = ck_metadata b"
    using assms by (intro metadata_bytes_inject)
  then have digests: "map (segment_digest p) (ck_segments a) = map (segment_digest p) (ck_segments b)"
    using a b by (simp add: verify_Inr)
  show ?thesis
  proof (cases "ck_segments a = ck_segments b")
    case True
    with meta show ?thesis by (cases a; cases b) simp
  next
    case False
    then obtain i where i: "i < length (ck_segments a)" "ck_segments a ! i \<noteq> ck_segments b ! i"
      using map_eq_imp_length_eq [OF digests] by (auto simp: list_eq_iff_nth_eq)
    then have i': "i < length (ck_segments b)" using map_eq_imp_length_eq [OF digests] by simp
    have "segment_digest p (ck_segments a ! i) = segment_digest p (ck_segments b ! i)"
      using digests i(1) i' by (metis nth_map)
    moreover have "segment_bytes (ck_segments a ! i) \<noteq> segment_bytes (ck_segments b ! i)"
      using i i' segs segment_bytes_inject by (auto simp: list_all_length)
    ultimately show ?thesis
      using i(1) i' by (auto simp: collides_def segment_digest_def intro!: bexI nth_mem)
  qed
qed

definition sample_empty_checkpoint :: "checkpoint_sequence \<Rightarrow> checkpoint" where
  "sample_empty_checkpoint s =
     \<lparr>ck_metadata = checkpoint_metadata_new sample_primitives s ''store'' [7]
        \<lparr>fi_families = [], fi_identified_counters = []\<rparr> \<lparr>csr_first = 1, csr_last = 2\<rparr> 2 [9]
        (view_digest sample_primitives view_empty) None [],
      ck_segments = []\<rparr>"

lemma verify_sample_empty: "verify sample_primitives (sample_empty_checkpoint s) = Inr ()"
  by (auto simp: verify_Inr sample_empty_checkpoint_def checkpoint_rows_def canonical_fold_def)

lemma checkpoint_digest_commits_witness:
  "sample_empty_checkpoint 1 = sample_empty_checkpoint 2
   \<or> collides sample_primitives (metadata_bytes (ck_metadata (sample_empty_checkpoint 1)))
       (metadata_bytes (ck_metadata (sample_empty_checkpoint 2)))
   \<or> (\<exists>s \<in> set (ck_segments (sample_empty_checkpoint 1)).
        \<exists>t \<in> set (ck_segments (sample_empty_checkpoint 2)).
          collides sample_primitives (segment_bytes s) (segment_bytes t))"
proof (rule checkpoint_digest_commits)
  have "metadata_sized (ck_metadata (sample_empty_checkpoint s))" for s
    by (simp add: sample_empty_checkpoint_def checkpoint_metadata_new_def Let_def metadata_sized_def
        inventory_sized_def sized_def view_digest_def sample_primitives_def sample_hash_def)
  then show "metadata_sized (ck_metadata (sample_empty_checkpoint 1))"
    and "metadata_sized (ck_metadata (sample_empty_checkpoint 2))" by blast+
  show "cm_checkpoint_digest (ck_metadata (sample_empty_checkpoint 1)) =
      cm_checkpoint_digest (ck_metadata (sample_empty_checkpoint 2))"
    by (simp add: sample_empty_checkpoint_def checkpoint_metadata_new_def Let_def
        computed_digest_def sample_primitives_def sample_hash_def metadata_bytes_def
        update_bytes_def)
qed (simp_all add: verify_sample_empty, simp_all add: sample_empty_checkpoint_def)


definition sample_encode :: "checkpoint \<Rightarrow> string + bytes" where
  "sample_encode c =
     (if c = sample_empty_checkpoint 1 then Inr [1] else Inl ''unsupported'')"

definition sample_decode :: "bytes \<Rightarrow> string + checkpoint" where
  "sample_decode bs = (if bs = [1] then Inr (sample_empty_checkpoint 1) else Inl ''unsupported'')"


end
