(* ===== verification/Stored_Values.thy ===== *)
theory Stored_Values
  imports Checkpoints
begin

text \<open>
  The values the engine keeps in its own storage tables beside logs and checkpoints: mirror outbox rows
  and heads (src/outbox.rs), staged operation groups (src/staging.rs) and subscription registrations
  (src/subscribe.rs).
\<close>

section \<open>Outbox rows and mirror heads\<close>

record outbox_entry =
  ob_commit_sequence :: commit_sequence
  ob_entry_digest :: digest

definition outbox_entry_of :: "versioned_entry \<Rightarrow> outbox_entry" where
  "outbox_entry_of e =
     \<lparr>ob_commit_sequence = ve_commit_sequence e, ob_entry_digest = ve_entry_digest e\<rparr>"

record mirror_head =
  mh_commit_sequence :: commit_sequence
  mh_entry_digest :: digest

definition mirror_head_of :: "outbox_entry \<Rightarrow> mirror_head" where
  "mirror_head_of e =
     \<lparr>mh_commit_sequence = ob_commit_sequence e, mh_entry_digest = ob_entry_digest e\<rparr>"

datatype mirror_acknowledgement = Advanced mirror_head | Unchanged mirror_head

fun acknowledged_head :: "mirror_acknowledgement \<Rightarrow> mirror_head" where
  "acknowledged_head (Advanced head) = head"
| "acknowledged_head (Unchanged head) = head"

datatype durability = LocalCommitted | QueuedForMirror | ServerCommitted

text \<open>Acknowledgements and outcomes of a history compaction (src/versioning.rs).\<close>

datatype history_acknowledgement = AckLocalCheckpoint | AckMirror mirror_head

record history_compaction =
  hc_compacted_entries :: u64
  hc_retained_entries :: u64
  hc_checkpoint_sequence :: "checkpoint_sequence option"

section \<open>Staged operation groups\<close>

record staged_pre_image =
  pi_entry_index :: u64
  pi_operation_index :: u64
  pi_bytes :: bytes

record staged_group =
  sg_entries :: "versioned_entry list"
  sg_retract_pre_images :: "staged_pre_image list"

definition group_entry_count :: "staged_group \<Rightarrow> nat" where
  "group_entry_count g = length (sg_entries g)"

definition last_entry :: "'a list \<Rightarrow> 'a option" where
  "last_entry xs = (if xs = [] then None else Some (last xs))"

definition first_entry :: "'a list \<Rightarrow> 'a option" where
  "first_entry xs = (case xs of [] \<Rightarrow> None | x # _ \<Rightarrow> Some x)"

definition prospective_head :: "staged_group \<Rightarrow> digest option" where
  "prospective_head g = map_option ve_entry_digest (last_entry (sg_entries g))"

definition base_predecessor :: "staged_group \<Rightarrow> digest option" where
  "base_predecessor g =
     Option.bind (first_entry (sg_entries g)) ve_previous_entry_digest"

definition group_first_sequence :: "staged_group \<Rightarrow> commit_sequence option" where
  "group_first_sequence g = map_option ve_commit_sequence (first_entry (sg_entries g))"

definition group_last_sequence :: "staged_group \<Rightarrow> commit_sequence option" where
  "group_last_sequence g = map_option ve_commit_sequence (last_entry (sg_entries g))"

definition retract_pre_image :: "staged_group \<Rightarrow> nat \<Rightarrow> nat \<Rightarrow> bytes option" where
  "retract_pre_image g entry_index operation_index =
     map_option pi_bytes
       (find (\<lambda>pre. pi_entry_index pre = of_nat entry_index
                  \<and> pi_operation_index pre = of_nat operation_index) (sg_retract_pre_images g))"

record staged_group_summary =
  sum_prospective_head :: digest
  sum_base_predecessor :: "digest option"
  sum_entry_count :: nat
  sum_first_commit_sequence :: commit_sequence
  sum_last_commit_sequence :: commit_sequence

record stage_receipt =
  sr_prospective_head :: digest
  sr_entry_count :: nat
  sr_first_commit_sequence :: commit_sequence
  sr_last_commit_sequence :: commit_sequence

record materialize_staged_receipt =
  ms_head :: digest
  ms_commit_sequence :: commit_sequence
  ms_snapshot :: snapshot_identifier
  ms_entry_count :: nat

record discard_staged_receipt =
  ds_prospective_head :: digest
  ds_entry_count :: nat

section \<open>Subscription registrations\<close>

type_synonym subscription_identifier = u64

definition subscription_first :: subscription_identifier where
  "subscription_first = 1"

definition subscription_next :: "subscription_identifier \<Rightarrow> subscription_identifier" where
  "subscription_next i = i + 1"

record subscription_handle =
  sh_id :: subscription_identifier
  sh_table :: string
  sh_snapshot :: snapshot_identifier

record subscription_registration =
  srg_id :: subscription_identifier
  srg_table_name :: string
  srg_filter :: query_filter
  srg_snapshot :: snapshot_identifier

definition subscription_registration_new ::
  "subscription_handle \<Rightarrow> query_filter \<Rightarrow> subscription_registration" where
  "subscription_registration_new handle f =
     \<lparr>srg_id = sh_id handle, srg_table_name = sh_table handle, srg_filter = f,
      srg_snapshot = sh_snapshot handle\<rparr>"

lemma first_entry_simps [simp]: "first_entry [] = None" "first_entry (x # xs) = Some x"
  by (simp_all add: first_entry_def)

lemma last_entry_simps [simp]: "last_entry [] = None" "last_entry (xs @ [x]) = Some x"
  by (simp_all add: last_entry_def)

end
