(* ===== verification/Store.thy ===== *)
theory Store
  imports Stored_Values
begin

text \<open>
  The durable store: one field per storage table of the engine, named after the constants of
  src/engine.rs, src/commit_log.rs, src/outbox.rs and src/staging.rs.  A table with a single fixed key
  (chain head, mirror cursor, staging slot, policy, compaction intent) is an option.  The typed record
  tables of a component are keyed by table name; a domain-keyed table has string keys, an
  engine-identified one \<open>u64\<close> keys.  The storage kernel's transactions are \<open>store_write\<close>: the body
  runs on a copy of the store, which replaces the store only when the body and the kernel's commit
  both succeed.
\<close>

section \<open>Tables\<close>

record 'r store =
  st_catalog :: "(string, table_registration) tbl"
  st_counters :: "(string, u64) tbl"
  st_commit_log :: "(u64, commit_log_entry) tbl"
  st_versioned_log :: "(u64, versioned_entry) tbl"
  st_chain_head :: "digest option"
  st_outbox :: "(u64, outbox_entry) tbl"
  st_mirror_cursor :: "mirror_head option"
  st_staging_slot :: "staged_group option"
  st_checkpoints :: "(u64, checkpoint_metadata) tbl"
  st_segments :: "(digest, checkpoint_segment) tbl"
  st_subscriptions :: "(u64, subscription_registration) tbl"
  st_identified_counters :: "(string, u64) tbl"
  st_policy :: "versioning_policy option"
  st_compaction_intent :: "compaction_intent option"
  st_rows :: "string \<Rightarrow> (string, 'r) tbl"
  st_identified_rows :: "string \<Rightarrow> (u64, 'r) tbl"

definition store_empty :: "'r store" where
  "store_empty =
     \<lparr>st_catalog = [], st_counters = [], st_commit_log = [], st_versioned_log = [],
      st_chain_head = None, st_outbox = [], st_mirror_cursor = None, st_staging_slot = None,
      st_checkpoints = [], st_segments = [], st_subscriptions = [], st_identified_counters = [],
      st_policy = None, st_compaction_intent = None,
      st_rows = (\<lambda>_. []), st_identified_rows = (\<lambda>_. [])\<rparr>"

text \<open>The keys of the counters table.\<close>

definition latest_commit_sequence_key :: string where
  "latest_commit_sequence_key = ''latest_commit_sequence''"

definition latest_snapshot_key :: string where
  "latest_snapshot_key = ''latest_snapshot''"

definition next_subscription_key :: string where
  "next_subscription_key = ''next_subscription''"

definition latest_checkpoint_key :: string where
  "latest_checkpoint_key = ''latest_checkpoint''"

definition storage_layout_key :: string where
  "storage_layout_key = ''engine_storage_layout''"

definition commit_log_count_key :: string where
  "commit_log_count_key = ''commit_log_count''"

definition versioned_log_count_key :: string where
  "versioned_log_count_key = ''versioned_log_count''"

definition storage_layout :: u64 where
  "storage_layout = 7"

definition layout_before_slot :: u64 where
  "layout_before_slot = 1"

definition counter_get :: "'r store \<Rightarrow> string \<Rightarrow> u64 option" where
  "counter_get s key = tbl_get (st_counters s) key"

definition counter_insert :: "string \<Rightarrow> u64 \<Rightarrow> 'r store \<Rightarrow> 'r store" where
  "counter_insert key v s = s\<lparr>st_counters := tbl_insert key v (st_counters s)\<rparr>"

definition row_insert :: "string \<Rightarrow> string \<Rightarrow> 'r \<Rightarrow> 'r store \<Rightarrow> 'r store" where
  "row_insert table key r s =
     s\<lparr>st_rows := (st_rows s)(table := tbl_insert key r (st_rows s table))\<rparr>"

definition row_remove :: "string \<Rightarrow> string \<Rightarrow> 'r store \<Rightarrow> 'r store" where
  "row_remove table key s =
     s\<lparr>st_rows := (st_rows s)(table := tbl_remove key (st_rows s table))\<rparr>"

definition identified_insert :: "string \<Rightarrow> u64 \<Rightarrow> 'r \<Rightarrow> 'r store \<Rightarrow> 'r store" where
  "identified_insert table key r s =
     s\<lparr>st_identified_rows :=
         (st_identified_rows s)(table := tbl_insert key r (st_identified_rows s table))\<rparr>"

definition identified_remove :: "string \<Rightarrow> u64 \<Rightarrow> 'r store \<Rightarrow> 'r store" where
  "identified_remove table key s =
     s\<lparr>st_identified_rows :=
         (st_identified_rows s)(table := tbl_remove key (st_identified_rows s table))\<rparr>"

section \<open>What lies outside the repository\<close>

text \<open>
  The record serializer \<open>rkyv\<close> (by table, which fixes the record type), the component's
  \<open>EngineRecord::record_key\<close>, and the kernel's commit, which may fault and then leaves the store as it
  was.
\<close>

record 'r engine_env = primitives +
  env_to_bytes :: "'r \<Rightarrow> string + bytes"
  env_from_bytes :: "string \<Rightarrow> bytes \<Rightarrow> string + 'r"
  env_record_key :: "'r \<Rightarrow> record_key"
  env_commit_fault :: "'r store \<Rightarrow> kernel_error option"

type_synonym ('r, 'a) transaction_body = "'r store \<Rightarrow> sema_error + 'a \<times> 'r store"

text \<open>A read transaction: its closure's kernel error comes back as an engine error.\<close>

definition store_read :: "sema_error + 'a \<Rightarrow> 'a eresult" where
  "store_read r = (case r of Inl e \<Rightarrow> Inl (from_sema e) | Inr x \<Rightarrow> Inr x)"

lemma store_read_Inr [simp]: "store_read r = Inr x \<longleftrightarrow> r = Inr x"
  by (simp add: store_read_def split: sum.split)

definition store_write ::
  "'r engine_env \<Rightarrow> ('r, 'a) transaction_body \<Rightarrow> 'r store \<Rightarrow> (error + 'a) \<times> 'r store" where
  "store_write env body s =
     (case body s of
        Inl e \<Rightarrow> (Inl (from_sema e), s)
      | Inr (x, s') \<Rightarrow>
          (case env_commit_fault env s' of
             Some fault \<Rightarrow> (Inl (from_sema (Kernel fault)), s)
           | None \<Rightarrow> (Inr x, s')))"

text \<open>A body that cannot fail.\<close>

definition store_put ::
  "'r engine_env \<Rightarrow> ('r store \<Rightarrow> 'r store) \<Rightarrow> 'r store \<Rightarrow> (error + unit) \<times> 'r store" where
  "store_put env f s = store_write env (\<lambda>t. Inr ((), f t)) s"

lemma store_write_Inr:
  "store_write env body s = (Inr x, t) \<longleftrightarrow> body s = Inr (x, t) \<and> env_commit_fault env t = None"
  by (auto simp: store_write_def split: sum.splits option.splits)

text \<open>Atomicity: a failed transaction leaves the store as it was.\<close>

lemma store_write_Inl: "store_write env body s = (Inl e, t) \<Longrightarrow> t = s"
  by (auto simp: store_write_def split: sum.splits option.splits)

lemma store_put_Inr:
  "store_put env f s = (Inr x, t) \<longleftrightarrow> t = f s \<and> env_commit_fault env t = None"
  by (auto simp: store_put_def store_write_Inr)

lemma store_put_Inl: "store_put env f s = (Inl e, t) \<Longrightarrow> t = s"
  unfolding store_put_def by (rule store_write_Inl)

lemma store_put_cases:
  obtains (committed) "store_put env f s = (Inr (), f s)" "env_commit_fault env (f s) = None"
  | (rolled_back) e where "store_put env f s = (Inl e, s)" "env_commit_fault env (f s) \<noteq> None"
  by (cases "env_commit_fault env (f s)") (auto simp: store_put_def store_write_def)

section \<open>Well-formed stores\<close>

definition store_ok :: "'r store \<Rightarrow> bool" where
  "store_ok s \<longleftrightarrow>
     tbl_ok (st_catalog s) \<and> tbl_ok (st_counters s) \<and> tbl_ok (st_commit_log s)
     \<and> tbl_ok (st_versioned_log s) \<and> tbl_ok (st_outbox s) \<and> tbl_ok (st_checkpoints s)
     \<and> tbl_ok (st_segments s) \<and> tbl_ok (st_subscriptions s) \<and> tbl_ok (st_identified_counters s)
     \<and> (\<forall>t. tbl_ok (st_rows s t)) \<and> (\<forall>t. tbl_ok (st_identified_rows s t))"

lemma store_ok_empty [simp]: "store_ok store_empty"
  by (simp add: store_ok_def store_empty_def)

lemma counter_get_insert [simp, engine_simps]:
  "counter_get (counter_insert key v s) k = (if k = key then Some v else counter_get s k)"
  by (simp add: counter_get_def counter_insert_def table_simps)

lemmas counter_keys [simp] =
  latest_commit_sequence_key_def latest_snapshot_key_def next_subscription_key_def
  latest_checkpoint_key_def storage_layout_key_def commit_log_count_key_def
  versioned_log_count_key_def

end
