(* ===== verification/Commit_Log.thy ===== *)
theory Commit_Log
  imports Store Checkpoint_Laws
begin

text \<open>
  The log plane: src/commit_log.rs.  Reads of the two logs, the chain head and the persisted row counts,
  and the append, compaction and rebuild choke points.  Reads are functions of the store; the appends
  are store transformers the engine composes into its own transaction.
\<close>

section \<open>Reads\<close>

definition commit_entries :: "'r store \<Rightarrow> commit_log_entry list" where
  "commit_entries s = map snd (tbl_iter (st_commit_log s))"

definition commit_entries_from :: "'r store \<Rightarrow> commit_sequence \<Rightarrow> commit_log_entry list" where
  "commit_entries_from s start = map snd (tbl_from start (st_commit_log s))"

record sequence_range =
  sqr_start :: snapshot_identifier
  sqr_end :: "snapshot_identifier option"

definition sequence_range_contains :: "sequence_range \<Rightarrow> snapshot_identifier \<Rightarrow> bool" where
  "sequence_range_contains r snap \<longleftrightarrow>
     snap \<ge> sqr_start r \<and> is_none_or (\<lambda>e. snap \<le> e) (sqr_end r)"

definition commit_entries_in :: "'r store \<Rightarrow> sequence_range \<Rightarrow> commit_log_entry list" where
  "commit_entries_in s r =
     filter (\<lambda>e. sequence_range_contains r (cle_snapshot e)) (commit_entries s)"

definition versioned_entries :: "'r store \<Rightarrow> versioned_entry list" where
  "versioned_entries s = map snd (tbl_iter (st_versioned_log s))"

definition versioned_entries_from :: "'r store \<Rightarrow> commit_sequence \<Rightarrow> versioned_entry list" where
  "versioned_entries_from s start = map snd (tbl_from start (st_versioned_log s))"

definition versioned_entry_at :: "'r store \<Rightarrow> commit_sequence \<Rightarrow> versioned_entry option" where
  "versioned_entry_at s sq = tbl_get (st_versioned_log s) sq"

definition entry_present :: "'r store \<Rightarrow> commit_sequence \<Rightarrow> bool" where
  "entry_present s sq \<longleftrightarrow> tbl_get (st_commit_log s) sq \<noteq> None"

definition chain_head :: "'r store \<Rightarrow> digest option" where
  "chain_head s = st_chain_head s"

record log_counts =
  lc_commits :: u64
  lc_versioned :: u64

definition unwrap_or :: "'a \<Rightarrow> 'a option \<Rightarrow> 'a" where
  "unwrap_or d x = (case x of None \<Rightarrow> d | Some y \<Rightarrow> y)"

definition log_counts :: "'r store \<Rightarrow> log_counts" where
  "log_counts s =
     \<lparr>lc_commits = unwrap_or 0 (counter_get s commit_log_count_key),
      lc_versioned = unwrap_or 0 (counter_get s versioned_log_count_key)\<rparr>"

definition next_commit :: "log_counts \<Rightarrow> u64" where
  "next_commit c = lc_commits c + 1"

definition next_versioned :: "log_counts \<Rightarrow> u64" where
  "next_versioned c = lc_versioned c + 1"

definition saturating_sub :: "u64 \<Rightarrow> u64 \<Rightarrow> u64" where
  "saturating_sub a b = (if b \<le> a then a - b else 0)"

definition after_removing :: "log_counts \<Rightarrow> nat \<Rightarrow> nat \<Rightarrow> log_counts" where
  "after_removing c commits versioned =
     \<lparr>lc_commits = saturating_sub (lc_commits c) (of_nat commits),
      lc_versioned = saturating_sub (lc_versioned c) (of_nat versioned)\<rparr>"

section \<open>Appends and compaction\<close>

definition append_commit :: "commit_log_entry \<Rightarrow> u64 \<Rightarrow> 'r store \<Rightarrow> 'r store" where
  "append_commit entry commit_count s =
     counter_insert commit_log_count_key commit_count
       (s\<lparr>st_commit_log := tbl_insert (cle_commit_sequence entry) entry (st_commit_log s)\<rparr>)"

definition append_versioned :: "versioned_entry \<Rightarrow> u64 \<Rightarrow> 'r store \<Rightarrow> 'r store" where
  "append_versioned entry versioned_count s =
     counter_insert versioned_log_count_key versioned_count
       (s\<lparr>st_versioned_log := tbl_insert (ve_commit_sequence entry) entry (st_versioned_log s),
          st_chain_head := Some (ve_entry_digest entry)\<rparr>)"

definition keys_through :: "'r store \<Rightarrow> commit_sequence \<Rightarrow> u64 list \<times> u64 list" where
  "keys_through s through =
     (filter (\<lambda>k. k \<le> through) (map fst (tbl_iter (st_commit_log s))),
      filter (\<lambda>k. k \<le> through) (map fst (tbl_iter (st_versioned_log s))))"

definition compact_through ::
  "u64 list \<Rightarrow> u64 list \<Rightarrow> log_counts \<Rightarrow> 'r store \<Rightarrow> 'r store" where
  "compact_through commit_keys versioned_keys remaining s =
     counter_insert versioned_log_count_key (lc_versioned remaining)
       (counter_insert commit_log_count_key (lc_commits remaining)
         (s\<lparr>st_commit_log := fold tbl_remove commit_keys (st_commit_log s),
            st_versioned_log := fold tbl_remove versioned_keys (st_versioned_log s)\<rparr>))"

definition versioned_log_present :: "'r store \<Rightarrow> bool" where
  "versioned_log_present s \<longleftrightarrow> tbl_iter (st_versioned_log s) \<noteq> []"

definition logs_empty :: "'r store \<Rightarrow> bool" where
  "logs_empty s \<longleftrightarrow> tbl_iter (st_commit_log s) = [] \<and> tbl_iter (st_versioned_log s) = []"

text \<open>Refold the derived slots from the complete versioned log, verified from genesis.\<close>

definition rebuild_derived_slots ::
  "'r engine_env \<Rightarrow> string \<Rightarrow> u64 \<Rightarrow> 'r store \<Rightarrow> (error + unit) \<times> 'r store" where
  "rebuild_derived_slots env layout_key layout s =
     (let entries = versioned_entries s in
      case canonical_fold env [] entries None of
        Inl e \<Rightarrow> (Inl e, s)
      | Inr view \<Rightarrow>
          let head = map_option ve_entry_digest (last_entry entries);
              versioned_count = of_nat (length entries);
              commit_count = of_nat (length (commit_entries s))
          in store_put env
               (\<lambda>t. counter_insert layout_key layout
                     (counter_insert versioned_log_count_key versioned_count
                       (counter_insert commit_log_count_key commit_count
                         (t\<lparr>st_chain_head := head\<rparr>)))) s)"

section \<open>Lemmas\<close>

lemma unwrap_or_simps [simp]: "unwrap_or d None = d" "unwrap_or d (Some x) = x"
  by (simp_all add: unwrap_or_def)

text \<open>Compaction removes exactly the rows up to its floor from both logs.\<close>

lemma compact_through_get:
  assumes "keys_through s through = (ck, vk)"
  shows "tbl_get (st_commit_log (compact_through ck vk n s)) sq =
      (if sq \<le> through then None else tbl_get (st_commit_log s) sq)"
    and "tbl_get (st_versioned_log (compact_through ck vk n s)) sq =
      (if sq \<le> through then None else tbl_get (st_versioned_log s) sq)"
  using assms
  by (auto simp: compact_through_def keys_through_def counter_insert_def tbl_get_remove_keys)

lemma rebuild_derived_slots_Inr:
  assumes "rebuild_derived_slots env key layout s = (Inr u, t)"
  shows "chain_verified env None (versioned_entries s)"
    and "t = counter_insert key layout
      (counter_insert versioned_log_count_key (of_nat (length (versioned_entries s)))
        (counter_insert commit_log_count_key (of_nat (length (commit_entries s)))
          (s\<lparr>st_chain_head := chain_end None (versioned_entries s)\<rparr>)))"
  using assms canonical_fold_Inr [of env "[]" "versioned_entries s" None]
  by (auto simp: rebuild_derived_slots_def Let_def store_put_Inr chain_end_def last_entry_def
      split: sum.splits)

lemma rebuild_derived_slots_Inl:
  "rebuild_derived_slots env key layout s = (Inl e, t) \<Longrightarrow> t = s"
  by (auto simp: rebuild_derived_slots_def Let_def dest: store_put_Inl split: sum.splits)

end
