(* ===== verification/Outbox.thy ===== *)
theory Outbox
  imports Commit_Log
begin

text \<open>
  The mirror outbox plane: src/outbox.rs.  One row per versioned entry of a mirrored store, and the
  durable cursor of the last head the mirror acknowledged.
\<close>

definition stored_mirror_head :: "'r store \<Rightarrow> mirror_head option" where
  "stored_mirror_head s = st_mirror_cursor s"

definition unshipped :: "'r store \<Rightarrow> outbox_entry list" where
  "unshipped s =
     (let after = (case stored_mirror_head s of
                     None \<Rightarrow> commit_sequence_genesis
                   | Some head \<Rightarrow> mh_commit_sequence head)
      in map snd (tbl_from (commit_sequence_next after) (st_outbox s)))"

definition row_at :: "'r store \<Rightarrow> commit_sequence \<Rightarrow> outbox_entry option" where
  "row_at s sq = tbl_get (st_outbox s) sq"

definition outbox_record :: "versioned_entry \<Rightarrow> 'r store \<Rightarrow> 'r store" where
  "outbox_record e s =
     s\<lparr>st_outbox := tbl_insert (ve_commit_sequence e) (outbox_entry_of e) (st_outbox s)\<rparr>"

definition outbox_keys_through :: "'r store \<Rightarrow> commit_sequence \<Rightarrow> u64 list" where
  "outbox_keys_through s through =
     filter (\<lambda>k. k \<le> through) (map fst (tbl_iter (st_outbox s)))"

definition compact_acknowledged_through :: "u64 list \<Rightarrow> 'r store \<Rightarrow> 'r store" where
  "compact_acknowledged_through keys s = s\<lparr>st_outbox := fold tbl_remove keys (st_outbox s)\<rparr>"

definition outbox_acknowledge ::
  "'r engine_env \<Rightarrow> mirror_head \<Rightarrow> digest option \<Rightarrow> 'r store
   \<Rightarrow> (error + mirror_acknowledgement) \<times> 'r store" where
  "outbox_acknowledge env head logged_digest s =
     (let sq = mh_commit_sequence head in
      case row_at s sq of
        None \<Rightarrow> (Inl (MirrorHeadUnknown sq), s)
      | Some recorded \<Rightarrow>
          if is_none_or (\<lambda>d. d \<noteq> ob_entry_digest recorded) logged_digest
          then (Inl (OutboxEntryMismatch sq), s)
          else if ob_entry_digest recorded \<noteq> mh_entry_digest head
          then (Inl (MirrorHeadForked sq (ob_entry_digest recorded) (mh_entry_digest head)), s)
          else (case stored_mirror_head s of
                  Some current \<Rightarrow>
                    if sq \<le> mh_commit_sequence current then (Inr (Unchanged current), s)
                    else bindS (store_put env (\<lambda>t. t\<lparr>st_mirror_cursor := Some head\<rparr>) s)
                           (\<lambda>_ t. (Inr (Advanced head), t))
                | None \<Rightarrow>
                    bindS (store_put env (\<lambda>t. t\<lparr>st_mirror_cursor := Some head\<rparr>) s)
                      (\<lambda>_ t. (Inr (Advanced head), t))))"

definition plane_durability_of :: "'r store \<Rightarrow> commit_sequence \<Rightarrow> durability" where
  "plane_durability_of s sq =
     (case row_at s sq of
        None \<Rightarrow> LocalCommitted
      | Some row \<Rightarrow>
          (case stored_mirror_head s of
             Some head \<Rightarrow>
               if ob_commit_sequence row \<le> mh_commit_sequence head then ServerCommitted
               else QueuedForMirror
           | None \<Rightarrow> QueuedForMirror))"

definition plane_store_durability :: "'r store \<Rightarrow> durability" where
  "plane_store_durability s = (if unshipped s = [] then ServerCommitted else QueuedForMirror)"

section \<open>Lemmas\<close>

lemma outbox_acknowledge_Inr:
  assumes "outbox_acknowledge env head logged s = (Inr a, t)"
  shows "\<exists>row. row_at s (mh_commit_sequence head) = Some row
    \<and> ob_entry_digest row = mh_entry_digest head \<and> logged = Some (mh_entry_digest head)"
    and "(\<exists>current. a = Unchanged current \<and> st_mirror_cursor s = Some current
             \<and> mh_commit_sequence head \<le> mh_commit_sequence current \<and> t = s)
         \<or> (a = Advanced head \<and> t = s\<lparr>st_mirror_cursor := Some head\<rparr>
             \<and> (\<forall>current. st_mirror_cursor s = Some current \<longrightarrow>
                    mh_commit_sequence current < mh_commit_sequence head))"
  using assms
  by (auto simp: outbox_acknowledge_def Let_def is_none_or_def stored_mirror_head_def bindS_eq_Inr
      store_put_Inr not_le split: option.splits if_splits)

lemma outbox_acknowledge_Inl:
  "outbox_acknowledge env head logged s = (Inl e, t) \<Longrightarrow> t = s"
  by (auto simp: outbox_acknowledge_def Let_def bindS_def dest!: store_put_Inl
      split: option.splits if_splits prod.splits sum.splits)

end
