(* ===== verification/Staging.thy ===== *)
theory Staging
  imports Commit_Log
begin

text \<open>
  The staging session: src/staging.rs.  An engaged session buffers entries built over the base the
  store stood at when it began, the key overlay, the identifiers it minted and the pre-images of its
  retractions; the staging plane parks a finished group in its durable slot.
\<close>

section \<open>The slot\<close>

definition staging_slot :: "'r store \<Rightarrow> staged_group option" where
  "staging_slot s = st_staging_slot s"

definition park_in :: "staged_group \<Rightarrow> 'r store \<Rightarrow> 'r store" where
  "park_in g s = s\<lparr>st_staging_slot := Some g\<rparr>"

definition staging_park ::
  "'r engine_env \<Rightarrow> staged_group \<Rightarrow> 'r store \<Rightarrow> (error + unit) \<times> 'r store" where
  "staging_park env g s = store_put env (park_in g) s"

definition clear_in :: "'r store \<Rightarrow> 'r store" where
  "clear_in s = s\<lparr>st_staging_slot := None\<rparr>"

definition staging_clear :: "'r engine_env \<Rightarrow> 'r store \<Rightarrow> (error + unit) \<times> 'r store" where
  "staging_clear env s = store_put env clear_in s"

section \<open>The session\<close>

record staging_base =
  sb_chain_head :: "digest option"
  sb_commit_sequence :: commit_sequence
  sb_snapshot :: snapshot_identifier
  sb_identified_counters :: "(string \<times> u64) list"

datatype overlay_presence = Present | Absent

datatype overlay_effect = Upsert bytes | Remove

text \<open>The two \<open>HashMap\<close>s are only looked up and inserted into, never iterated: finite maps.\<close>

record staging_session =
  ss_base :: staging_base
  ss_store_name :: string
  ss_store_schema_hash :: digest
  ss_entries :: "versioned_entry list"
  ss_latest_commit_sequence :: commit_sequence
  ss_latest_snapshot :: snapshot_identifier
  ss_previous_entry_digest :: "digest option"
  ss_overlay :: "(string \<times> string) \<rightharpoonup> overlay_presence"
  ss_pending_identifiers :: "string \<rightharpoonup> record_identifier"
  ss_retract_pre_images :: "staged_pre_image list"

definition staging_session_new :: "staging_base \<Rightarrow> string \<Rightarrow> digest \<Rightarrow> staging_session" where
  "staging_session_new base store_name schema =
     \<lparr>ss_base = base, ss_store_name = store_name, ss_store_schema_hash = schema, ss_entries = [],
      ss_latest_commit_sequence = sb_commit_sequence base,
      ss_latest_snapshot = sb_snapshot base,
      ss_previous_entry_digest = sb_chain_head base,
      ss_overlay = Map.empty, ss_pending_identifiers = Map.empty, ss_retract_pre_images = []\<rparr>"

definition session_entry_count :: "staging_session \<Rightarrow> nat" where
  "session_entry_count ss = length (ss_entries ss)"

definition append_entry ::
  "'p primitives_scheme \<Rightarrow> versioned_log_operation non_empty \<Rightarrow> staging_session
   \<Rightarrow> (commit_sequence \<times> snapshot_identifier) \<times> staging_session" where
  "append_entry p operations ss =
     (let sq = commit_sequence_next (ss_latest_commit_sequence ss);
          snap = snapshot_next (ss_latest_snapshot ss);
          entry = versioned_entry_new p (ss_store_name ss) (ss_store_schema_hash ss) sq snap
                    (ss_previous_entry_digest ss) operations
      in ((sq, snap),
          ss\<lparr>ss_previous_entry_digest := Some (ve_entry_digest entry),
             ss_latest_commit_sequence := sq, ss_latest_snapshot := snap,
             ss_entries := ss_entries ss @ [entry]\<rparr>))"

definition park_pre_image :: "nat \<Rightarrow> bytes \<Rightarrow> staging_session \<Rightarrow> staging_session" where
  "park_pre_image operation_index bs ss =
     ss\<lparr>ss_retract_pre_images := ss_retract_pre_images ss @
         [\<lparr>pi_entry_index = of_nat (length (ss_entries ss)),
           pi_operation_index = of_nat operation_index, pi_bytes = bs\<rparr>]\<rparr>"

definition overlay_get :: "staging_session \<Rightarrow> string \<Rightarrow> record_key \<Rightarrow> overlay_presence option" where
  "overlay_get ss table key = ss_overlay ss (table, to_owned_string key)"

definition set_overlay ::
  "string \<Rightarrow> record_key \<Rightarrow> overlay_presence \<Rightarrow> staging_session \<Rightarrow> staging_session" where
  "set_overlay table key presence ss =
     ss\<lparr>ss_overlay := (ss_overlay ss)((table, to_owned_string key) \<mapsto> presence)\<rparr>"

text \<open>\<open>durable_next\<close> is what the engine's closure reads; it is only called when nothing is pending.\<close>

definition mint_identifier ::
  "string \<Rightarrow> record_identifier \<Rightarrow> staging_session \<Rightarrow> record_identifier \<times> staging_session" where
  "mint_identifier counter_key durable_next ss =
     (case ss_pending_identifiers ss counter_key of
        Some identifier \<Rightarrow>
          (identifier,
           ss\<lparr>ss_pending_identifiers :=
               (ss_pending_identifiers ss)(counter_key \<mapsto> record_identifier_next identifier)\<rparr>)
      | None \<Rightarrow>
          let base = ss_base ss;
              base' = base\<lparr>sb_identified_counters :=
                             sb_identified_counters base @ [(counter_key, durable_next)]\<rparr>
          in (durable_next,
              ss\<lparr>ss_base := base',
                 ss_pending_identifiers :=
                   (ss_pending_identifiers ss)
                     (counter_key \<mapsto> record_identifier_next durable_next)\<rparr>))"

fun payload_effect :: "versioned_payload \<Rightarrow> overlay_effect" where
  "payload_effect (PayloadRecord bs) = Upsert bs"
| "payload_effect Tombstone = Remove"

definition operation_overlay_effect ::
  "string \<Rightarrow> versioned_log_operation \<Rightarrow> (record_key \<times> overlay_effect) list" where
  "operation_overlay_effect table oper =
     (if family_table_name (vop_family oper) \<noteq> table then []
      else case vop_key oper of
             None \<Rightarrow> []
           | Some key \<Rightarrow> [(key, payload_effect (vop_payload oper))])"

definition overlay_effects_for_table ::
  "staging_session \<Rightarrow> string \<Rightarrow> (record_key \<times> overlay_effect) list" where
  "overlay_effects_for_table ss table =
     concat (map (\<lambda>e. concat (map (operation_overlay_effect table) (ne_list (ve_operations e))))
               (ss_entries ss))"

definition into_group :: "staging_session \<Rightarrow> staged_group" where
  "into_group ss =
     \<lparr>sg_entries = ss_entries ss, sg_retract_pre_images = ss_retract_pre_images ss\<rparr>"

section \<open>The session invariant\<close>

fun sequences_from ::
  "commit_sequence \<Rightarrow> snapshot_identifier \<Rightarrow> versioned_entry list \<Rightarrow> bool" where
  "sequences_from sq snap [] = True"
| "sequences_from sq snap (e # es) \<longleftrightarrow>
     ve_commit_sequence e = sq + 1 \<and> ve_snapshot e = snap + 1
     \<and> sequences_from (sq + 1) (snap + 1) es"

text \<open>The buffered entries are a verified chain from the captured base, numbered consecutively.\<close>

definition session_ok :: "'p primitives_scheme \<Rightarrow> staging_session \<Rightarrow> bool" where
  "session_ok p ss \<longleftrightarrow>
     chain_verified p (sb_chain_head (ss_base ss)) (ss_entries ss)
     \<and> ss_previous_entry_digest ss = chain_end (sb_chain_head (ss_base ss)) (ss_entries ss)
     \<and> sequences_from (sb_commit_sequence (ss_base ss)) (sb_snapshot (ss_base ss)) (ss_entries ss)
     \<and> ss_latest_commit_sequence ss =
         sb_commit_sequence (ss_base ss) + of_nat (length (ss_entries ss))
     \<and> ss_latest_snapshot ss = sb_snapshot (ss_base ss) + of_nat (length (ss_entries ss))"

lemma session_ok_new: "session_ok p (staging_session_new base name schema)"
  by (simp add: session_ok_def staging_session_new_def chain_end_def)

lemma sequences_from_append:
  "sequences_from sq snap (xs @ ys) \<longleftrightarrow>
   sequences_from sq snap xs
   \<and> sequences_from (sq + of_nat (length xs)) (snap + of_nat (length xs)) ys"
  by (induction xs arbitrary: sq snap) (auto simp: add.assoc add.left_commute add.commute)

lemma session_ok_append_entry:
  assumes "session_ok p ss" and "append_entry p opers ss = (r, ss')"
  shows "session_ok p ss'"
    and "r = (ss_latest_commit_sequence ss + 1, ss_latest_snapshot ss + 1)"
  using assms
  by (auto simp: session_ok_def append_entry_def Let_def chain_verified_append sequences_from_append
      chain_end_def commit_sequence_next_def snapshot_next_def)

lemma session_ok_updates [simp]:
  "session_ok p (set_overlay t k v ss) = session_ok p ss"
  "session_ok p (park_pre_image i bs ss) = session_ok p ss"
  by (simp_all add: session_ok_def set_overlay_def park_pre_image_def)

lemma session_ok_mint:
  "mint_identifier key d ss = (i, ss') \<Longrightarrow> session_ok p ss' = session_ok p ss"
  by (auto simp: session_ok_def mint_identifier_def Let_def split: option.splits)

end
