(* ===== verification/Requests.thy ===== *)
theory Requests
  imports Store
begin

text \<open>
  Write requests and their receipts: src/mutation.rs, and the generated table declarations of
  src/table.rs that build them.  The identified variants name a
  \<open>IdentifiedTableReference\<close>; like a \<open>TableReference\<close> it is the table's name.
\<close>

record 'r assertion =
  asr_table :: table_reference
  asr_record :: 'r

definition assertion_new :: "table_reference \<Rightarrow> 'r \<Rightarrow> 'r assertion" where
  "assertion_new t r = \<lparr>asr_table = t, asr_record = r\<rparr>"

record 'r keyed_assertion =
  ka_table :: table_reference
  ka_key :: record_key
  ka_record :: 'r

definition keyed_assertion_new ::
  "table_reference \<Rightarrow> record_key \<Rightarrow> 'r \<Rightarrow> 'r keyed_assertion" where
  "keyed_assertion_new t k r = \<lparr>ka_table = t, ka_key = k, ka_record = r\<rparr>"

record mutation_receipt =
  mrc_operation :: sema_operation
  mrc_table :: string
  mrc_key :: record_key
  mrc_commit_sequence :: commit_sequence
  mrc_snapshot :: snapshot_identifier

definition mutation_receipt_new ::
  "sema_operation \<Rightarrow> string \<Rightarrow> record_key \<Rightarrow> commit_sequence \<Rightarrow> snapshot_identifier \<Rightarrow> mutation_receipt" where
  "mutation_receipt_new oper t k sq snap =
     \<lparr>mrc_operation = oper, mrc_table = t, mrc_key = k,
      mrc_commit_sequence = sq, mrc_snapshot = snap\<rparr>"

definition receipt_marker :: "mutation_receipt \<Rightarrow> database_marker" where
  "receipt_marker r =
     \<lparr>marker_commit_sequence = mrc_commit_sequence r, marker_snapshot = mrc_snapshot r\<rparr>"

record 'r identified_assertion =
  ia_table :: table_reference
  ia_record :: 'r

definition identified_assertion_new ::
  "table_reference \<Rightarrow> 'r \<Rightarrow> 'r identified_assertion" where
  "identified_assertion_new t r = \<lparr>ia_table = t, ia_record = r\<rparr>"

record identified_retraction =
  irt_table :: table_reference
  irt_identifier :: record_identifier

definition identified_retraction_new ::
  "table_reference \<Rightarrow> record_identifier \<Rightarrow> identified_retraction" where
  "identified_retraction_new t i = \<lparr>irt_table = t, irt_identifier = i\<rparr>"

record 'r identified_mutation =
  im_table :: table_reference
  im_identifier :: record_identifier
  im_record :: 'r

definition identified_mutation_new ::
  "table_reference \<Rightarrow> record_identifier \<Rightarrow> 'r \<Rightarrow> 'r identified_mutation" where
  "identified_mutation_new t i r = \<lparr>im_table = t, im_identifier = i, im_record = r\<rparr>"

record identified_mutation_receipt =
  imr_operation :: sema_operation
  imr_table :: string
  imr_identifier :: record_identifier
  imr_commit_sequence :: commit_sequence
  imr_snapshot :: snapshot_identifier

definition identified_mutation_receipt_new ::
  "sema_operation \<Rightarrow> string \<Rightarrow> record_identifier \<Rightarrow> commit_sequence \<Rightarrow> snapshot_identifier \<Rightarrow> identified_mutation_receipt" where
  "identified_mutation_receipt_new oper t i sq snap =
     \<lparr>imr_operation = oper, imr_table = t, imr_identifier = i,
      imr_commit_sequence = sq, imr_snapshot = snap\<rparr>"

record 'r mutation =
  mut_table :: table_reference
  mut_record :: 'r

definition mutation_new :: "table_reference \<Rightarrow> 'r \<Rightarrow> 'r mutation" where
  "mutation_new t r = \<lparr>mut_table = t, mut_record = r\<rparr>"

record 'r keyed_mutation =
  km_table :: table_reference
  km_key :: record_key
  km_record :: 'r

definition keyed_mutation_new ::
  "table_reference \<Rightarrow> record_key \<Rightarrow> 'r \<Rightarrow> 'r keyed_mutation" where
  "keyed_mutation_new t k r = \<lparr>km_table = t, km_key = k, km_record = r\<rparr>"

record retraction =
  rt_table :: table_reference
  rt_key :: record_key

definition retraction_new :: "table_reference \<Rightarrow> record_key \<Rightarrow> retraction" where
  "retraction_new t k = \<lparr>rt_table = t, rt_key = k\<rparr>"

definition assertion_record_key :: "'r engine_env \<Rightarrow> 'r assertion \<Rightarrow> record_key" where
  "assertion_record_key env a = env_record_key env (asr_record a)"

definition mutation_record_key :: "'r engine_env \<Rightarrow> 'r mutation \<Rightarrow> record_key" where
  "mutation_record_key env m = env_record_key env (mut_record m)"

lemma mutation_receipt_new_sel [simp]:
  "mrc_operation (mutation_receipt_new oper t k sq snap) = oper"
  "mrc_table (mutation_receipt_new oper t k sq snap) = t"
  "mrc_key (mutation_receipt_new oper t k sq snap) = k"
  "mrc_commit_sequence (mutation_receipt_new oper t k sq snap) = sq"
  "mrc_snapshot (mutation_receipt_new oper t k sq snap) = snap"
  by (simp_all add: mutation_receipt_new_def)

datatype 'r write_operation =
    WriteAssert 'r
  | WriteMutate 'r
  | WriteRetract record_key

fun write_operation_class :: "'r write_operation \<Rightarrow> sema_operation" where
  "write_operation_class (WriteAssert r) = Assert"
| "write_operation_class (WriteMutate r) = Mutate"
| "write_operation_class (WriteRetract k) = Retract"

record 'r commit_request =
  crq_table :: table_reference
  crq_operations :: "'r write_operation list"

definition commit_request_new :: "table_reference \<Rightarrow> 'r commit_request" where
  "commit_request_new t = \<lparr>crq_table = t, crq_operations = []\<rparr>"

definition request_assert :: "'r \<Rightarrow> 'r commit_request \<Rightarrow> 'r commit_request" where
  "request_assert r q = q\<lparr>crq_operations := crq_operations q @ [WriteAssert r]\<rparr>"

definition request_mutate :: "'r \<Rightarrow> 'r commit_request \<Rightarrow> 'r commit_request" where
  "request_mutate r q = q\<lparr>crq_operations := crq_operations q @ [WriteMutate r]\<rparr>"

definition request_retract :: "record_key \<Rightarrow> 'r commit_request \<Rightarrow> 'r commit_request" where
  "request_retract k q = q\<lparr>crq_operations := crq_operations q @ [WriteRetract k]\<rparr>"

definition request_operation_count :: "'r commit_request \<Rightarrow> nat" where
  "request_operation_count q = length (crq_operations q)"

record commit_receipt =
  cmr_table :: string
  cmr_commit_sequence :: commit_sequence
  cmr_snapshot :: snapshot_identifier
  cmr_operation_count :: nat

section \<open>Generated table declarations\<close>

text \<open>The trait \<open>TableSpecification\<close>: the structural constants of a domain-keyed table and the projection of
  its source-declared key, which an implementor provides and which may fail; the provided constructors
  lower the declaration into the engine's requests.\<close>

record 'k table_specification =
  spec_table_name :: string
  spec_family_name :: string
  spec_schema_hash :: digest
  spec_record_key :: "'k \<Rightarrow> record_key eresult"

definition spec_descriptor :: "'k table_specification \<Rightarrow> 'r table_descriptor" where
  "spec_descriptor t =
     table_descriptor_new (spec_table_name t) (spec_family_name t) (spec_schema_hash t)"

definition spec_table_reference :: "'k table_specification \<Rightarrow> table_reference" where
  "spec_table_reference t = spec_table_name t"

definition spec_assertion ::
  "'k table_specification \<Rightarrow> 'k \<Rightarrow> 'r \<Rightarrow> 'r keyed_assertion eresult" where
  "spec_assertion t key r =
     bindR (spec_record_key t key) (\<lambda>k. Inr (keyed_assertion_new (spec_table_reference t) k r))"

definition spec_query :: "'k table_specification \<Rightarrow> 'k \<Rightarrow> query_plan eresult" where
  "spec_query t key = bindR (spec_record_key t key) (\<lambda>k. Inr (query_key (spec_table_reference t) k))"

end
