(* ===== verification/Subscriptions.thy ===== *)
theory Subscriptions
  imports Stored_Values "HOL-Library.Multiset"
begin

text \<open>
  Live subscriptions: src/subscribe.rs.  The registry keeps the active subscriptions in registration
  order and the log of fan-out failures.  A sink is a component's object: its delivery mode and its
  \<open>deliver\<close> result are values of the subscription.  Two ghost lists record what the code does with an
  event: \<open>reg_delivered\<close> the calls of \<open>deliver\<close>, \<open>reg_spawned\<close> the detached threads that have
  not run yet.  \<open>run_spawned\<close> runs one of them; their order is the scheduler's.
\<close>

datatype delta_kind = DeltaAssert | DeltaMutate | DeltaRetract

fun delta_operation :: "delta_kind \<Rightarrow> sema_operation" where
  "delta_operation DeltaAssert = Assert"
| "delta_operation DeltaMutate = Mutate"
| "delta_operation DeltaRetract = Retract"

record 'r initial_snapshot =
  isn_handle :: subscription_handle
  isn_snapshot :: "'r query_snapshot"

record 'r subscription_delta =
  sd_handle :: subscription_handle
  sd_kind :: delta_kind
  sd_table :: string
  sd_key :: record_key
  sd_snapshot :: snapshot_identifier
  sd_record :: 'r

datatype 'r subscription_event =
    InitialEvent "'r initial_snapshot"
  | DeltaEvent "'r subscription_delta"

record 'r subscription_receipt =
  src_handle :: subscription_handle
  src_initial :: "'r initial_snapshot"

datatype delivery_mode = Detached | Inline

record sink_error =
  sink_message :: string

definition sink_error_new :: "string \<Rightarrow> sink_error" where
  "sink_error_new message = \<lparr>sink_message = message\<rparr>"

record 'r sink =
  sink_mode :: delivery_mode
  sink_deliver :: "'r subscription_event \<Rightarrow> sink_error option"

record 'r active_subscription =
  as_handle :: subscription_handle
  as_plan :: query_plan
  as_sink :: "'r sink"

definition active_subscription_new ::
  "subscription_handle \<Rightarrow> query_plan \<Rightarrow> 'r sink \<Rightarrow> 'r active_subscription" where
  "active_subscription_new handle plan snk = \<lparr>as_handle = handle, as_plan = plan, as_sink = snk\<rparr>"

record delivery_failure =
  df_handle :: subscription_handle
  df_message :: string

definition delivery_failure_new :: "subscription_handle \<Rightarrow> sink_error \<Rightarrow> delivery_failure" where
  "delivery_failure_new handle err = \<lparr>df_handle = handle, df_message = sink_message err\<rparr>"

datatype fanout_failure =
    SinkFailure delivery_failure
  | RegistryUnavailable

definition fanout_failure_sink :: "subscription_handle \<Rightarrow> sink_error \<Rightarrow> fanout_failure" where
  "fanout_failure_sink handle err = SinkFailure (delivery_failure_new handle err)"

fun failure_handle :: "fanout_failure \<Rightarrow> subscription_handle option" where
  "failure_handle (SinkFailure failure) = Some (df_handle failure)"
| "failure_handle RegistryUnavailable = None"

fun failure_message :: "fanout_failure \<Rightarrow> string" where
  "failure_message (SinkFailure failure) = df_message failure"
| "failure_message RegistryUnavailable = ''subscription registry lock poisoned''"

record 'r registry =
  reg_entries :: "'r active_subscription list"
  reg_failures :: "fanout_failure list"
  reg_delivered :: "(subscription_handle \<times> 'r subscription_event) list"
  reg_spawned :: "('r active_subscription \<times> 'r subscription_event) list"

definition registry_new :: "'r registry" where
  "registry_new = \<lparr>reg_entries = [], reg_failures = [], reg_delivered = [], reg_spawned = []\<rparr>"

definition registry_add :: "'r active_subscription \<Rightarrow> 'r registry \<Rightarrow> 'r registry" where
  "registry_add a g = g\<lparr>reg_entries := reg_entries g @ [a]\<rparr>"

definition record_failure :: "fanout_failure \<Rightarrow> 'r registry \<Rightarrow> 'r registry" where
  "record_failure f g = g\<lparr>reg_failures := reg_failures g @ [f]\<rparr>"

definition fanout_failures :: "'r registry \<Rightarrow> fanout_failure list" where
  "fanout_failures g = reg_failures g"

text \<open>Calling a sink, and recording its failure.\<close>

definition call_sink ::
  "'r active_subscription \<Rightarrow> 'r subscription_event \<Rightarrow> 'r registry \<Rightarrow> 'r registry" where
  "call_sink a ev g =
     (let g1 = g\<lparr>reg_delivered := reg_delivered g @ [(as_handle a, ev)]\<rparr> in
      case sink_deliver (as_sink a) ev of
        None \<Rightarrow> g1
      | Some err \<Rightarrow> record_failure (fanout_failure_sink (as_handle a) err) g1)"

definition active_matches :: "'r active_subscription \<Rightarrow> record_key \<Rightarrow> bool" where
  "active_matches a key = filter_accepts (plan_filter (as_plan a)) key"

definition delta_of ::
  "delta_kind \<Rightarrow> string \<Rightarrow> record_key \<Rightarrow> snapshot_identifier \<Rightarrow> 'r
   \<Rightarrow> 'r active_subscription \<Rightarrow> 'r subscription_event" where
  "delta_of kind table key snapshot r a =
     DeltaEvent \<lparr>sd_handle = as_handle a, sd_kind = kind, sd_table = table, sd_key = key,
                 sd_snapshot = snapshot, sd_record = r\<rparr>"

definition deliver_to_active ::
  "delta_kind \<Rightarrow> string \<Rightarrow> record_key \<Rightarrow> snapshot_identifier \<Rightarrow> 'r
   \<Rightarrow> 'r active_subscription \<Rightarrow> 'r registry \<Rightarrow> 'r registry" where
  "deliver_to_active kind table key snapshot r a g =
     (if plan_table (as_plan a) \<noteq> table \<or> \<not> active_matches a key then g
      else let ev = delta_of kind table key snapshot r a in
           case sink_mode (as_sink a) of
             Detached \<Rightarrow> g\<lparr>reg_spawned := reg_spawned g @ [(a, ev)]\<rparr>
           | Inline \<Rightarrow> call_sink a ev g)"

definition deliver_delta ::
  "delta_kind \<Rightarrow> string \<Rightarrow> record_key \<Rightarrow> snapshot_identifier \<Rightarrow> 'r \<Rightarrow> 'r registry \<Rightarrow> 'r registry" where
  "deliver_delta kind table key snapshot r g =
     fold (deliver_to_active kind table key snapshot r) (reg_entries g) g"

text \<open>One detached thread runs.\<close>

definition run_spawned :: "nat \<Rightarrow> 'r registry \<Rightarrow> 'r registry" where
  "run_spawned i g =
     (if i < length (reg_spawned g)
      then call_sink (fst (reg_spawned g ! i)) (snd (reg_spawned g ! i))
             (g\<lparr>reg_spawned := take i (reg_spawned g) @ drop (Suc i) (reg_spawned g)\<rparr>)
      else g)"

section \<open>Who receives a delta\<close>

definition delta_targets ::
  "string \<Rightarrow> record_key \<Rightarrow> 'r active_subscription list \<Rightarrow> 'r active_subscription list" where
  "delta_targets table key entries =
     filter (\<lambda>a. plan_table (as_plan a) = table \<and> active_matches a key) entries"

definition inline_targets :: "'r active_subscription list \<Rightarrow> 'r active_subscription list" where
  "inline_targets = filter (\<lambda>a. sink_mode (as_sink a) = Inline)"

definition detached_targets :: "'r active_subscription list \<Rightarrow> 'r active_subscription list" where
  "detached_targets = filter (\<lambda>a. sink_mode (as_sink a) = Detached)"

definition failures_of ::
  "('r active_subscription \<Rightarrow> 'r subscription_event) \<Rightarrow> 'r active_subscription list
   \<Rightarrow> fanout_failure list" where
  "failures_of ev targets =
     concat (map (\<lambda>a. case sink_deliver (as_sink a) (ev a) of
                        None \<Rightarrow> [] | Some err \<Rightarrow> [fanout_failure_sink (as_handle a) err]) targets)"

lemma registry_eqI:
  "reg_entries g = reg_entries h \<Longrightarrow> reg_failures g = reg_failures h \<Longrightarrow>
   reg_delivered g = reg_delivered h \<Longrightarrow> reg_spawned g = reg_spawned h \<Longrightarrow> g = (h :: 'r registry)"
  by (cases g; cases h) simp

definition delivered_to ::
  "('r active_subscription \<Rightarrow> 'r subscription_event) \<Rightarrow> 'r active_subscription list
   \<Rightarrow> 'r registry \<Rightarrow> 'r registry" where
  "delivered_to ev targets g =
     g\<lparr>reg_failures := reg_failures g @ failures_of ev (inline_targets targets),
       reg_delivered := reg_delivered g @ map (\<lambda>a. (as_handle a, ev a)) (inline_targets targets),
       reg_spawned := reg_spawned g @ map (\<lambda>a. (a, ev a)) (detached_targets targets)\<rparr>"

lemma delivered_to_append:
  "delivered_to ev (xs @ ys) g = delivered_to ev ys (delivered_to ev xs g)"
  by (simp add: delivered_to_def inline_targets_def detached_targets_def failures_of_def)

lemma deliver_one:
  "deliver_to_active kind table key snap r a g =
   delivered_to (delta_of kind table key snap r) (delta_targets table key [a]) g"
  by (rule registry_eqI; cases "sink_mode (as_sink a)")
    (simp_all add: Let_def deliver_to_active_def delta_targets_def inline_targets_def
      detached_targets_def failures_of_def call_sink_def record_failure_def delivered_to_def
      split: option.splits)

lemma deliver_all:
  "fold (deliver_to_active kind table key snap r) entries g =
   delivered_to (delta_of kind table key snap r) (delta_targets table key entries) g"
proof (induction entries arbitrary: g)
  case Nil
  then show ?case
    by (simp add: delta_targets_def inline_targets_def detached_targets_def failures_of_def
        delivered_to_def)
next
  case (Cons a entries)
  have "delta_targets table key (a # entries) =
      delta_targets table key [a] @ delta_targets table key entries"
    by (simp add: delta_targets_def)
  then show ?case
    by (simp only: fold_simps Cons delivered_to_append) (simp only: deliver_one)
qed

lemma deliver_delta_eq:
  "deliver_delta kind table key snap r g =
   delivered_to (delta_of kind table key snap r) (delta_targets table key (reg_entries g)) g"
  by (simp add: deliver_delta_def deliver_all)

lemma deliver_delta_entries [simp]:
  "reg_entries (deliver_delta kind table key snap r g) = reg_entries g"
  by (simp add: deliver_delta_def deliver_all delivered_to_def)

lemma mset_take_drop_nth:
  "i < length xs \<Longrightarrow> mset xs = add_mset (xs ! i) (mset (take i xs @ drop (Suc i) xs))"
  by (subst id_take_nth_drop [of i xs]) simp_all

text \<open>The events a registry owes or has delivered, whichever thread runs first.\<close>

definition outstanding ::
  "'r registry \<Rightarrow> (subscription_handle \<times> 'r subscription_event) multiset" where
  "outstanding g = mset (reg_delivered g) + mset (map (\<lambda>(a, ev). (as_handle a, ev)) (reg_spawned g))"

lemma outstanding_run: "outstanding (run_spawned i g) = outstanding g"
proof (cases "i < length (reg_spawned g)")
  case True
  define sp where "sp = reg_spawned g"
  have "mset (map (\<lambda>(a, ev). (as_handle a, ev)) sp) =
      image_mset (\<lambda>(a, ev). (as_handle a, ev)) (mset sp)" by simp
  also have "mset sp = add_mset (sp ! i) (mset (take i sp @ drop (Suc i) sp))"
    using True by (intro mset_take_drop_nth) (simp add: sp_def)
  finally show ?thesis
    using True
    by (cases "sp ! i")
      (simp add: outstanding_def run_spawned_def call_sink_def record_failure_def Let_def
        sp_def [symmetric] split: option.splits)
next
  case False
  then show ?thesis by (simp add: run_spawned_def)
qed

lemma run_spawned_length:
  "length (reg_spawned (run_spawned i g)) =
   (if i < length (reg_spawned g) then length (reg_spawned g) - 1 else length (reg_spawned g))"
  by (auto simp: run_spawned_def call_sink_def record_failure_def Let_def split: option.splits)

lemma outstanding_run_all: "outstanding (fold run_spawned schedule g) = outstanding g"
  by (induction schedule arbitrary: g) (simp_all add: outstanding_run)

section \<open>Properties\<close>



definition sample_active :: "u64 \<Rightarrow> nat active_subscription" where
  "sample_active i =
     \<lparr>as_handle = \<lparr>sh_id = i, sh_table = ''notes'', sh_snapshot = 0\<rparr>, as_plan = query_all ''notes'',
      as_sink = \<lparr>sink_mode = Detached, sink_deliver = (\<lambda>_. None)\<rparr>\<rparr>"

definition sample_registry :: "nat registry" where
  "sample_registry =
     deliver_delta DeltaAssert ''notes'' (Domain ''a'') 1 5
       (registry_add (sample_active 2) (registry_add (sample_active 1) registry_new))"


end
