(* ===== verification/Materialize.thy ===== *)
theory Materialize
  imports Store Subscriptions
begin

text \<open>
  The component's family directory and the two affordances the engine hands it: \<open>RowMaterializer\<close>
  (src/fold.rs) and \<open>DeltaAnnouncer\<close> (src/staging.rs).  Both are one-shot values, so what a directory
  can do with one is to apply it to a table as a domain-keyed or an identified one, to ignore it, or to
  fail; a directory is its choice for every family identity and key.
\<close>

section \<open>Directories\<close>

datatype (plugins only: ) materialize_choice =
    ApplyTo table_reference
  | ApplyIdentifiedTo table_reference
  | MaterializeNothing
  | MaterializeError error

datatype (plugins only: ) announce_choice =
    AnnounceTo table_reference
  | AnnounceIdentifiedTo table_reference
  | AnnounceNothing
  | AnnounceError error

record family_directory =
  dir_materialize :: "family_identity \<Rightarrow> record_key \<Rightarrow> materialize_choice"
  dir_announce :: "family_identity \<Rightarrow> record_key \<Rightarrow> announce_choice"

definition check_table :: "family_identity \<Rightarrow> string \<Rightarrow> unit eresult" where
  "check_table f supplied =
     (if supplied \<noteq> family_table_name f
      then Inl (MaterializeTableMismatch (family f) (family_table_name f) supplied)
      else Inr ())"

definition decode_payload :: "'r engine_env \<Rightarrow> string \<Rightarrow> bytes \<Rightarrow> 'r eresult" where
  "decode_payload env table bs =
     (case env_from_bytes env table bs of
        Inl message \<Rightarrow> Inl (VersionedPayloadDecode table message)
      | Inr r \<Rightarrow> Inr r)"

section \<open>Materializing a row\<close>

definition materializer_apply ::
  "'r engine_env \<Rightarrow> view_row \<Rightarrow> table_reference \<Rightarrow> 'r store \<Rightarrow> 'r store eresult" where
  "materializer_apply env row table s =
     bindR (check_table (vr_family row) table) (\<lambda>_.
     case vr_key row of
       Identifier i \<Rightarrow>
         Inl (MaterializeKeyKindMismatch table (to_owned_string (vr_key row)) ''domain'' ''identifier'')
     | Domain key \<Rightarrow>
         (case vr_payload row of
            PayloadRecord bs \<Rightarrow>
              bindR (decode_payload env table bs) (\<lambda>r. Inr (row_insert table key r s))
          | Tombstone \<Rightarrow> Inr (row_remove table key s)))"

definition materializer_apply_identified ::
  "'r engine_env \<Rightarrow> view_row \<Rightarrow> table_reference \<Rightarrow> 'r store \<Rightarrow> 'r store eresult" where
  "materializer_apply_identified env row table s =
     bindR (check_table (vr_family row) table) (\<lambda>_.
     case vr_key row of
       Domain key \<Rightarrow>
         Inl (MaterializeKeyKindMismatch table (to_owned_string (vr_key row)) ''identifier'' ''domain'')
     | Identifier i \<Rightarrow>
         (case vr_payload row of
            PayloadRecord bs \<Rightarrow>
              bindR (decode_payload env table bs) (\<lambda>r. Inr (identified_insert table i r s))
          | Tombstone \<Rightarrow> Inr (identified_remove table i s)))"

definition materialize_row ::
  "'r engine_env \<Rightarrow> family_directory \<Rightarrow> 'r store \<Rightarrow> view_row \<Rightarrow> 'r store eresult" where
  "materialize_row env dir s row =
     (case dir_materialize dir (vr_family row) (vr_key row) of
        ApplyTo table \<Rightarrow> materializer_apply env row table s
      | ApplyIdentifiedTo table \<Rightarrow> materializer_apply_identified env row table s
      | MaterializeNothing \<Rightarrow> Inr s
      | MaterializeError e \<Rightarrow> Inl e)"

definition materialize_rows_in ::
  "'r engine_env \<Rightarrow> family_directory \<Rightarrow> view_row list \<Rightarrow> 'r store \<Rightarrow> 'r store eresult" where
  "materialize_rows_in env dir rows s = foldR (materialize_row env dir) s rows"

section \<open>Announcing a delta\<close>

record delta_announcer =
  da_kind :: delta_kind
  da_family :: family_identity
  da_key :: record_key
  da_snapshot :: snapshot_identifier
  da_bytes :: bytes

definition announcer_check_table :: "delta_announcer \<Rightarrow> string \<Rightarrow> unit eresult" where
  "announcer_check_table a supplied =
     (if supplied \<noteq> family_table_name (da_family a)
      then Inl (MaterializeTableMismatch (family (da_family a)) (family_table_name (da_family a)) supplied)
      else Inr ())"

lemma announcer_check_table_family [simp]: "announcer_check_table a = check_table (da_family a)"
  by (simp add: fun_eq_iff announcer_check_table_def check_table_def)

definition announcer_announce ::
  "'r engine_env \<Rightarrow> delta_announcer \<Rightarrow> table_reference \<Rightarrow> 'r registry \<Rightarrow> 'r registry eresult" where
  "announcer_announce env a table g =
     bindR (announcer_check_table a table) (\<lambda>_.
     bindR (decode_payload env table (da_bytes a)) (\<lambda>r.
     Inr (deliver_delta (da_kind a) table (da_key a) (da_snapshot a) r g)))"

definition announcer_announce_identified ::
  "'r engine_env \<Rightarrow> delta_announcer \<Rightarrow> table_reference \<Rightarrow> 'r registry \<Rightarrow> 'r registry eresult" where
  "announcer_announce_identified env a table g =
     bindR (announcer_check_table a table) (\<lambda>_.
     bindR (decode_payload env table (da_bytes a)) (\<lambda>r.
     Inr (deliver_delta (da_kind a) table (da_key a) (da_snapshot a) r g)))"

definition directory_announce ::
  "'r engine_env \<Rightarrow> family_directory \<Rightarrow> delta_announcer \<Rightarrow> 'r registry \<Rightarrow> 'r registry eresult" where
  "directory_announce env dir a g =
     (case dir_announce dir (da_family a) (da_key a) of
        AnnounceTo table \<Rightarrow> announcer_announce env a table g
      | AnnounceIdentifiedTo table \<Rightarrow> announcer_announce_identified env a table g
      | AnnounceNothing \<Rightarrow> Inr g
      | AnnounceError e \<Rightarrow> Inl e)"

section \<open>Lemmas\<close>

text \<open>Materialization touches only the record tables.\<close>

definition same_planes :: "'r store \<Rightarrow> 'r store \<Rightarrow> bool" where
  "same_planes s t \<longleftrightarrow>
     t = s\<lparr>st_rows := st_rows t, st_identified_rows := st_identified_rows t\<rparr>"

lemma same_planes_refl [simp]: "same_planes s s"
  by (simp add: same_planes_def)

lemma same_planes_trans: "same_planes s t \<Longrightarrow> same_planes t u \<Longrightarrow> same_planes s u"
  unfolding same_planes_def by (cases s; cases t; cases u) simp

lemma same_planes_rows [simp]:
  "same_planes s (row_insert t k r s)" "same_planes s (row_remove t k s)"
  "same_planes s (identified_insert t i r s)" "same_planes s (identified_remove t i s)"
  by (simp_all add: same_planes_def row_insert_def row_remove_def identified_insert_def
      identified_remove_def)

lemma materialize_row_planes: "materialize_row env dir s row = Inr t \<Longrightarrow> same_planes s t"
  by (auto simp: materialize_row_def materializer_apply_def materializer_apply_identified_def
      bindR_eq_Inr split: materialize_choice.splits record_key.splits versioned_payload.splits)

lemma materialize_rows_planes:
  "materialize_rows_in env dir rows s = Inr t \<Longrightarrow> same_planes s t"
  unfolding materialize_rows_in_def
  by (induction rows arbitrary: s)
    (auto simp: bindR_eq_Inr dest: materialize_row_planes intro: same_planes_trans)

end
