(* ===== verification/Engine_Base.thy ===== *)
theory Engine_Base
  imports Outbox Staging Requests Materialize
begin

text \<open>
  The engine's state and the parts every operation of src/engine.rs uses: registration state, allocation
  of sequences and identifiers, building versioned entries, and the block of inserts that lands one
  commit.  An operation is a function from the engine to a result and the engine it leaves.  The write
  lock of the code serializes operations, so each is one step.
\<close>

section \<open>State\<close>

record 'r engine =
  eng_storage :: "'r store"
  eng_catalog :: catalog
  eng_subscriptions :: "'r registry"
  eng_policy :: "versioning_policy option"
  eng_staging :: "staging_session option"
  eng_fault :: "compaction_fault option"

type_synonym ('r, 'a) engine_result = "(error + 'a) \<times> 'r engine"

text \<open>\<open>self.storage.write(..)\<close>: a transaction on the engine's store.\<close>

definition engine_write ::
  "'r engine_env \<Rightarrow> ('r, 'a) transaction_body \<Rightarrow> 'r engine \<Rightarrow> ('r, 'a) engine_result" where
  "engine_write env body e =
     (case store_write env body (eng_storage e) of (r, s) \<Rightarrow> (r, e\<lparr>eng_storage := s\<rparr>))"

definition engine_put ::
  "'r engine_env \<Rightarrow> ('r store \<Rightarrow> 'r store) \<Rightarrow> 'r engine \<Rightarrow> ('r, unit) engine_result" where
  "engine_put env f e = engine_write env (\<lambda>s. Inr ((), f s)) e"

text \<open>Lifting a call that only reads.\<close>

definition reads :: "'a eresult \<Rightarrow> 'r engine \<Rightarrow> ('r, 'a) engine_result" where
  "reads r e = (r, e)"

section \<open>Errors\<close>

definition record_not_found :: "string \<Rightarrow> record_key \<Rightarrow> error" where
  "record_not_found table key = RecordNotFound table (to_owned_string key)"

definition identified_record_not_found :: "string \<Rightarrow> record_identifier \<Rightarrow> error" where
  "identified_record_not_found table identifier = RecordNotFound table (decimal (unat identifier))"

definition duplicate_write_key :: "string \<Rightarrow> record_key \<Rightarrow> error" where
  "duplicate_write_key table key = DuplicateWriteKey table (to_owned_string key)"

definition duplicate_assert_key :: "string \<Rightarrow> record_key \<Rightarrow> error" where
  "duplicate_assert_key table key = DuplicateAssertKey table (to_owned_string key)"

section \<open>Registration\<close>

datatype family_registration = Existing | NewRegistration table_registration

definition family_registration_state ::
  "catalog \<Rightarrow> family_identity \<Rightarrow> family_registration eresult" where
  "family_registration_state c identity =
     (case registration_for_table c (family_table_name identity) of
        Some stored \<Rightarrow>
          if registration_identity stored \<noteq> identity
          then Inl (FamilyIdentityMismatch (family_table_name identity)
                 (family_display (registration_identity stored)) (family_display identity))
          else Inr Existing
      | None \<Rightarrow>
          (case registration_for_family c identity of
             Some bound \<Rightarrow>
               Inl (FamilyAlreadyBound (family identity) (registration_table_name bound)
                      (family_table_name identity))
           | None \<Rightarrow> Inr (NewRegistration (registration_new identity))))"

definition registered_family :: "'r engine \<Rightarrow> string \<Rightarrow> family_identity eresult" where
  "registered_family e name =
     ok_or (TableNotRegistered name) (catalog_family_identity (eng_catalog e) name)"

definition ensure_registered :: "'r engine \<Rightarrow> string \<Rightarrow> unit eresult" where
  "ensure_registered e name = ensure (is_registered (eng_catalog e) name) (TableNotRegistered name)"

definition store_schema_hash :: "'r engine_env \<Rightarrow> 'r engine \<Rightarrow> digest" where
  "store_schema_hash env e = store_schema_of_catalog env (eng_catalog e)"

section \<open>Sequences, snapshots, markers\<close>

definition committed_snapshot :: "'r store \<Rightarrow> snapshot_identifier" where
  "committed_snapshot s = unwrap_or snapshot_genesis (counter_get s latest_snapshot_key)"

definition committed_commit_sequence :: "'r store \<Rightarrow> commit_sequence" where
  "committed_commit_sequence s =
     unwrap_or commit_sequence_genesis (counter_get s latest_commit_sequence_key)"

definition next_snapshot :: "'r engine \<Rightarrow> snapshot_identifier" where
  "next_snapshot e = snapshot_next (committed_snapshot (eng_storage e))"

definition next_commit_sequence :: "'r engine \<Rightarrow> commit_sequence" where
  "next_commit_sequence e = commit_sequence_next (committed_commit_sequence (eng_storage e))"

definition marker_from_values :: "u64 option \<Rightarrow> u64 option \<Rightarrow> database_marker" where
  "marker_from_values sq snap =
     \<lparr>marker_commit_sequence = unwrap_or commit_sequence_genesis sq,
      marker_snapshot = unwrap_or snapshot_genesis snap\<rparr>"

definition committed_marker :: "'r store \<Rightarrow> database_marker" where
  "committed_marker s =
     marker_from_values (counter_get s latest_commit_sequence_key) (counter_get s latest_snapshot_key)"

definition latest_snapshot :: "'r engine \<Rightarrow> snapshot_identifier" where
  "latest_snapshot e =
     (case eng_staging e of
        Some session \<Rightarrow> ss_latest_snapshot session
      | None \<Rightarrow> committed_snapshot (eng_storage e))"

definition current_commit_sequence :: "'r engine \<Rightarrow> commit_sequence" where
  "current_commit_sequence e =
     (case eng_staging e of
        Some session \<Rightarrow> ss_latest_commit_sequence session
      | None \<Rightarrow> committed_commit_sequence (eng_storage e))"

definition current_database_marker :: "'r engine \<Rightarrow> database_marker" where
  "current_database_marker e =
     (case eng_staging e of
        Some session \<Rightarrow>
          \<lparr>marker_commit_sequence = ss_latest_commit_sequence session,
           marker_snapshot = ss_latest_snapshot session\<rparr>
      | None \<Rightarrow> committed_marker (eng_storage e))"

definition next_record_identifier :: "'r store \<Rightarrow> string \<Rightarrow> record_identifier" where
  "next_record_identifier s table =
     unwrap_or record_identifier_first
       (tbl_get (st_identified_counters s) (identified_counter_key table))"

section \<open>Versioned entries\<close>

definition versioned_record_payload ::
  "'r engine_env \<Rightarrow> string \<Rightarrow> 'r \<Rightarrow> versioned_payload eresult" where
  "versioned_record_payload env table r =
     (case env_to_bytes env r of
        Inl message \<Rightarrow> Inl (VersionedPayloadEncode table message)
      | Inr bs \<Rightarrow> Inr (PayloadRecord bs))"

definition versioned_entry_for ::
  "'r engine_env \<Rightarrow> 'r engine \<Rightarrow> commit_sequence \<Rightarrow> snapshot_identifier
   \<Rightarrow> versioned_log_operation non_empty \<Rightarrow> versioned_entry option" where
  "versioned_entry_for env e sq snap operations =
     (case eng_policy e of
        None \<Rightarrow> None
      | Some policy \<Rightarrow>
          Some (versioned_entry_new env (policy_store_name policy) (store_schema_hash env e) sq snap
                 (chain_head (eng_storage e)) operations))"

definition versioned_record_entry ::
  "'r engine_env \<Rightarrow> 'r engine \<Rightarrow> commit_sequence \<Rightarrow> snapshot_identifier \<Rightarrow> sema_operation
   \<Rightarrow> string \<Rightarrow> record_key option \<Rightarrow> 'r \<Rightarrow> versioned_entry option eresult" where
  "versioned_record_entry env e sq snap oper table key r =
     (if eng_policy e = None then Inr None
      else bindR (registered_family e table) (\<lambda>fam.
           bindR (versioned_record_payload env table r) (\<lambda>payload.
           Inr (versioned_entry_for env e sq snap
             (ne_single \<lparr>vop_operation = oper, vop_family = fam, vop_key = key,
                         vop_payload = payload\<rparr>)))))"

definition versioned_tombstone_entry ::
  "'r engine_env \<Rightarrow> 'r engine \<Rightarrow> commit_sequence \<Rightarrow> snapshot_identifier \<Rightarrow> sema_operation
   \<Rightarrow> string \<Rightarrow> record_key option \<Rightarrow> versioned_entry option eresult" where
  "versioned_tombstone_entry env e sq snap oper table key =
     (if eng_policy e = None then Inr None
      else bindR (registered_family e table) (\<lambda>fam.
           Inr (versioned_entry_for env e sq snap
             (ne_single \<lparr>vop_operation = oper, vop_family = fam, vop_key = key,
                         vop_payload = Tombstone\<rparr>))))"

definition writes_mirror_outbox :: "versioning_policy option \<Rightarrow> bool" where
  "writes_mirror_outbox policy \<longleftrightarrow>
     (case policy of None \<Rightarrow> False | Some p \<Rightarrow> policy_recovery_topology p = Mirror)"

definition insert_versioned_entry ::
  "versioning_policy option \<Rightarrow> versioned_entry option \<Rightarrow> u64 \<Rightarrow> 'r store \<Rightarrow> 'r store" where
  "insert_versioned_entry policy entry versioned_count s =
     (case entry of
        None \<Rightarrow> s
      | Some e \<Rightarrow>
          let s1 = append_versioned e versioned_count s in
          if writes_mirror_outbox policy then outbox_record e s1 else s1)"

text \<open>The inserts every write transaction ends with: both logs, the outbox row, the two counters.\<close>

definition land_commit ::
  "versioning_policy option \<Rightarrow> log_counts \<Rightarrow> commit_log_entry \<Rightarrow> versioned_entry option
   \<Rightarrow> commit_sequence \<Rightarrow> snapshot_identifier \<Rightarrow> 'r store \<Rightarrow> 'r store" where
  "land_commit policy counts entry ventry sq snap s =
     counter_insert latest_snapshot_key snap
       (counter_insert latest_commit_sequence_key sq
         (insert_versioned_entry policy ventry (next_versioned counts)
           (append_commit entry (next_commit counts) s)))"

section \<open>Lemmas\<close>

lemma engine_write_Inr:
  "engine_write env body e = (Inr x, e') \<longleftrightarrow>
   (\<exists>s. body (eng_storage e) = Inr (x, s) \<and> env_commit_fault env s = None
        \<and> e' = e\<lparr>eng_storage := s\<rparr>)"
  by (auto simp: engine_write_def store_write_def split: sum.splits option.splits prod.splits)

lemma engine_write_Inl: "engine_write env body e = (Inl err, e') \<Longrightarrow> e' = e"
  by (cases e) (auto simp: engine_write_def dest: store_write_Inl split: prod.splits)

lemma engine_put_Inr:
  "engine_put env f e = (Inr x, e') \<longleftrightarrow>
   env_commit_fault env (f (eng_storage e)) = None \<and> e' = e\<lparr>eng_storage := f (eng_storage e)\<rparr>"
  by (auto simp: engine_put_def engine_write_Inr)

lemma engine_put_Inl: "engine_put env f e = (Inl err, e') \<Longrightarrow> e' = e"
  unfolding engine_put_def by (rule engine_write_Inl)

lemma reads_simps [simp, result_simps]:
  "bindS (reads (Inl err) e) f = (Inl err, e)" "bindS (reads (Inr x) e) f = f x e"
  by (simp_all add: reads_def)

lemma reads_eq [simp]: "reads r e = (x, e') \<longleftrightarrow> r = x \<and> e = e'"
  by (simp add: reads_def)

lemma bindS_reads: "bindS (reads r e) f = (case r of Inl err \<Rightarrow> (Inl err, e) | Inr x \<Rightarrow> f x e)"
  by (cases r) simp_all

end
