(* ===== verification/Engine_History.thy ===== *)
theory Engine_History
  imports Engine_Base
begin

text \<open>
  Derived artifacts of the versioned log in src/engine.rs: checkpoints, history compaction, the
  maintenance run after every write, rebuilding the record tables from the log, and the mirror outbox
  operations of the engine.
\<close>

section \<open>Checkpoints\<close>

definition ensure_versioned_log_complete :: "'r store \<Rightarrow> unit eresult" where
  "ensure_versioned_log_complete s =
     (let counts = log_counts s in
      if lc_commits counts \<noteq> lc_versioned counts
      then Inl (VersionedLogIncomplete (lc_commits counts) (lc_versioned counts))
      else Inr ())"

text \<open>\<open>str::strip_suffix\<close>, and the counter rows whose key carries the identified-counter suffix.\<close>

definition strip_suffix :: "string \<Rightarrow> string \<Rightarrow> string option" where
  "strip_suffix key suffix =
     (if length suffix \<le> length key \<and> drop (length key - length suffix) key = suffix
      then Some (take (length key - length suffix) key) else None)"

definition identified_counter_inventory :: "'r store \<Rightarrow> identified_counter list" where
  "identified_counter_inventory s =
     List.map_filter
       (\<lambda>(key, next_identifier).
          map_option (\<lambda>table. \<lparr>ic_table_name = table, ic_next_identifier = next_identifier\<rparr>)
            (strip_suffix key ('':'' @ identified_counter_suffix)))
       (tbl_iter (st_identified_counters s))"

definition load_segment :: "'r store \<Rightarrow> segment_reference \<Rightarrow> checkpoint_segment eresult" where
  "load_segment s reference =
     ok_or (SegmentMissing (ref_digest reference)) (tbl_get (st_segments s) (ref_digest reference))"

definition latest_checkpoint :: "'r engine_env \<Rightarrow> 'r store \<Rightarrow> checkpoint option eresult" where
  "latest_checkpoint env s =
     (case counter_get s latest_checkpoint_key of
        None \<Rightarrow> Inr None
      | Some sq \<Rightarrow>
          bindR (ok_or (CheckpointRowMissing sq) (tbl_get (st_checkpoints s) sq)) (\<lambda>metadata.
          bindR (mapR (load_segment s) (cm_segments metadata)) (\<lambda>segments.
          let c = \<lparr>ck_metadata = metadata, ck_segments = segments\<rparr> in
          bindR (verify env c) (\<lambda>_. Inr (Some c)))))"

text \<open>The starting point a fold resumes from: rows, chain head and covered sequence.\<close>

definition resume_point ::
  "checkpoint option \<Rightarrow> view_row list \<times> digest option \<times> commit_sequence" where
  "resume_point c =
     (case c of
        Some ck \<Rightarrow>
          (checkpoint_rows ck, Some (cm_covered_entry_digest (ck_metadata ck)),
           csr_last (cm_covered (ck_metadata ck)))
      | None \<Rightarrow> ([], None, commit_sequence_genesis))"

definition publish_checkpoint ::
  "'r engine_env \<Rightarrow> checkpoint_metadata \<Rightarrow> checkpoint_segment list \<Rightarrow> 'r store \<Rightarrow> 'r store" where
  "publish_checkpoint env metadata segments s =
     counter_insert latest_checkpoint_key (cm_sequence metadata)
       (s\<lparr>st_checkpoints := tbl_insert (cm_sequence metadata) metadata (st_checkpoints s),
          st_segments :=
            fold (\<lambda>seg. tbl_insert (segment_digest env seg) seg) segments (st_segments s)\<rparr>)"

text \<open>The metadata and segments a checkpoint over \<open>previous\<close> and the log suffix would publish.\<close>

definition checkpoint_plan ::
  "'r engine_env \<Rightarrow> 'r engine \<Rightarrow> versioning_policy \<Rightarrow> checkpoint option
   \<Rightarrow> (checkpoint_metadata \<times> checkpoint_segment list \<times> nat) eresult" where
  "checkpoint_plan env e policy previous =
     (let s = eng_storage e;
          (previous_rows, chain_hd, after) = resume_point previous;
          entries = versioned_entries_from s (commit_sequence_next after)
      in case entries of
           [] \<Rightarrow> Inl CheckpointNothingToCover
         | first # _ \<Rightarrow>
             let last_e = last entries;
                 covered =
                   \<lparr>csr_first = (case previous of
                       Some ck \<Rightarrow> csr_first (cm_covered (ck_metadata ck))
                     | None \<Rightarrow> ve_commit_sequence first),
                    csr_last = ve_commit_sequence last_e\<rparr>;
                 sq = (case previous of
                       Some ck \<Rightarrow> checkpoint_sequence_next (cm_sequence (ck_metadata ck))
                     | None \<Rightarrow> checkpoint_sequence_first);
                 previous_digest =
                   map_option (\<lambda>ck. cm_checkpoint_digest (ck_metadata ck)) previous
             in bindR (canonical_fold env previous_rows entries chain_hd) (\<lambda>view.
                let vdigest = view_digest env view; families = family_inventory (eng_catalog e) in
                bindR (into_rows view families) (\<lambda>materialize.
                let segments = chunk (mr_rows materialize);
                    metadata =
                      checkpoint_metadata_new env sq (policy_store_name policy)
                        (store_schema_hash env e)
                        \<lparr>fi_families = families,
                         fi_identified_counters = identified_counter_inventory s\<rparr>
                        covered (ve_snapshot last_e) (ve_entry_digest last_e) vdigest previous_digest
                        (map (segment_reference_of env) segments)
                in Inr (metadata, segments, length (mr_rows materialize)))))"

definition take_checkpoint :: "'r engine_env \<Rightarrow> 'r engine \<Rightarrow> ('r, checkpoint_receipt) engine_result"
  where
  "take_checkpoint env e =
     (case eng_policy e of
        None \<Rightarrow> (Inl (versioning_not_enabled ''checkpoint''), e)
      | Some policy \<Rightarrow>
          bindS (reads (ensure_versioned_log_complete (eng_storage e)) e) (\<lambda>_ e.
          bindS (reads (latest_checkpoint env (eng_storage e)) e) (\<lambda>previous e.
          bindS (reads (checkpoint_plan env e policy previous) e) (\<lambda>(metadata, segments, rows) e.
          bindS (engine_put env (publish_checkpoint env metadata segments) e) (\<lambda>_ e.
          (Inr \<lparr>cr_sequence = cm_sequence metadata, cr_covered = cm_covered metadata,
                cr_view_digest = cm_view_digest metadata,
                cr_checkpoint_digest = cm_checkpoint_digest metadata,
                cr_segment_count = length segments, cr_row_count = rows\<rparr>, e))))))"

section \<open>History compaction\<close>

definition validate_history_acknowledgement ::
  "'r engine \<Rightarrow> history_acknowledgement \<Rightarrow> unit eresult" where
  "validate_history_acknowledgement e ack =
     (case eng_policy e of
        None \<Rightarrow> Inl (versioning_not_enabled ''compact_versioned_history'')
      | Some policy \<Rightarrow>
          (case (policy_recovery_topology policy, ack) of
             (LocalCheckpoint, AckLocalCheckpoint) \<Rightarrow>
               (case (stored_mirror_head (eng_storage e), last_entry (unshipped (eng_storage e))) of
                  (Some head, Some entry) \<Rightarrow>
                    Inl (HistoryCompactionUnacknowledged (ob_commit_sequence entry)
                           (Some (mh_commit_sequence head)))
                | _ \<Rightarrow> Inr ())
           | (Mirror, AckMirror head) \<Rightarrow> Inr ()
           | (LocalCheckpoint, AckMirror head) \<Rightarrow>
               Inl (HistoryCompactionTopologyMismatch ''local-checkpoint'' ''mirror'')
           | (Mirror, AckLocalCheckpoint) \<Rightarrow>
               Inl (HistoryCompactionTopologyMismatch ''mirror'' ''local-checkpoint'')))"

text \<open>Reuse a checkpoint that covers the current head, else publish one.\<close>

definition covering_checkpoint :: "'r engine_env \<Rightarrow> 'r engine \<Rightarrow> ('r, checkpoint) engine_result" where
  "covering_checkpoint env e =
     (let current = current_commit_sequence e in
      bindS (reads (latest_checkpoint env (eng_storage e)) e) (\<lambda>found e.
      case found of
        Some c \<Rightarrow>
          if csr_last (cm_covered (ck_metadata c)) \<ge> current then (Inr c, e)
          else bindS (take_checkpoint env e) (\<lambda>_ e.
               bindS (reads (latest_checkpoint env (eng_storage e)) e) (\<lambda>c' e. (Inr (the c'), e)))
      | None \<Rightarrow>
          bindS (take_checkpoint env e) (\<lambda>_ e.
          bindS (reads (latest_checkpoint env (eng_storage e)) e) (\<lambda>c' e. (Inr (the c'), e)))))"

definition ensure_mirror_covers ::
  "'r store \<Rightarrow> history_acknowledgement \<Rightarrow> commit_sequence \<Rightarrow> unit eresult" where
  "ensure_mirror_covers s ack covered =
     (case ack of
        AckLocalCheckpoint \<Rightarrow> Inr ()
      | AckMirror head \<Rightarrow>
          if mh_commit_sequence head < covered
          then Inl (HistoryCompactionUnacknowledged covered (Some (mh_commit_sequence head)))
          else (let durable = map_option mh_commit_sequence (stored_mirror_head s) in
                if is_none_or (\<lambda>sq. sq < covered) durable
                then Inl (HistoryCompactionUnacknowledged covered durable)
                else Inr ()))"

text \<open>The root checkpoint: the same metadata without a predecessor.\<close>

definition root_metadata :: "'r engine_env \<Rightarrow> checkpoint_metadata \<Rightarrow> checkpoint_metadata" where
  "root_metadata env m =
     checkpoint_metadata_new env (cm_sequence m) (cm_store_name m) (cm_store_schema_hash m)
       (cm_family_inventory m) (cm_covered m) (cm_covered_snapshot m) (cm_covered_entry_digest m)
       (cm_view_digest m) None (cm_segments m)"

definition prune_history :: "'r engine_env \<Rightarrow> checkpoint_metadata \<Rightarrow> 'r store \<Rightarrow> 'r store" where
  "prune_history env m s =
     (let covered = csr_last (cm_covered m);
          (commit_keys, versioned_keys) = keys_through s covered;
          counts = after_removing (log_counts s) (length commit_keys) (length versioned_keys);
          outbox_keys = outbox_keys_through s covered;
          checkpoint_keys =
            filter (\<lambda>k. k \<noteq> cm_sequence m) (map fst (tbl_iter (st_checkpoints s)));
          segment_keys =
            filter (\<lambda>d. d \<notin> set (map ref_digest (cm_segments m))) (map fst (tbl_iter (st_segments s)));
          s1 = compact_acknowledged_through outbox_keys
                 (compact_through commit_keys versioned_keys counts s)
      in s1\<lparr>st_checkpoints :=
              tbl_insert (cm_sequence m) (root_metadata env m)
                (fold tbl_remove checkpoint_keys (st_checkpoints s1)),
            st_segments := fold tbl_remove segment_keys (st_segments s1)\<rparr>)"

definition compact_versioned_history ::
  "'r engine_env \<Rightarrow> versioned_history_retention \<Rightarrow> history_acknowledgement \<Rightarrow> 'r engine
   \<Rightarrow> ('r, history_compaction) engine_result" where
  "compact_versioned_history env retention ack e =
     bindS (reads (validate_history_acknowledgement e ack) e) (\<lambda>_ e.
     let retained_before = (of_nat (length (versioned_entries (eng_storage e))) :: u64) in
     if retained_before \<le> maximum_live_entries retention
     then bindS (reads (latest_checkpoint env (eng_storage e)) e) (\<lambda>c e.
          (Inr \<lparr>hc_compacted_entries = 0, hc_retained_entries = retained_before,
                hc_checkpoint_sequence = map_option (\<lambda>ck. cm_sequence (ck_metadata ck)) c\<rparr>, e))
     else bindS (covering_checkpoint env e) (\<lambda>c e.
          let m = ck_metadata c; covered = csr_last (cm_covered m) in
          bindS (reads (ensure_mirror_covers (eng_storage e) ack covered) e) (\<lambda>_ e.
          let s = eng_storage e;
              (commit_keys, versioned_keys) = keys_through s covered;
              counts = after_removing (log_counts s) (length commit_keys) (length versioned_keys) in
          bindS (engine_put env (prune_history env m) e) (\<lambda>_ e.
          (Inr \<lparr>hc_compacted_entries = saturating_sub retained_before (lc_versioned counts),
                hc_retained_entries = lc_versioned counts,
                hc_checkpoint_sequence = Some (cm_sequence (root_metadata env m))\<rparr>, e)))))"

definition compact_configured_versioned_history ::
  "'r engine_env \<Rightarrow> 'r engine \<Rightarrow> ('r, history_compaction) engine_result" where
  "compact_configured_versioned_history env e =
     (case eng_policy e of
        None \<Rightarrow> (Inl (versioning_not_enabled ''compact_configured_versioned_history''), e)
      | Some policy \<Rightarrow>
          let retained = (of_nat (length (versioned_entries (eng_storage e))) :: u64) in
          if retained \<le> maximum_live_entries (policy_retention policy)
          then bindS (reads (latest_checkpoint env (eng_storage e)) e) (\<lambda>c e.
               (Inr \<lparr>hc_compacted_entries = 0, hc_retained_entries = retained,
                     hc_checkpoint_sequence = map_option (\<lambda>ck. cm_sequence (ck_metadata ck)) c\<rparr>, e))
          else bindS (reads
                 (case policy_recovery_topology policy of
                    LocalCheckpoint \<Rightarrow> Inr AckLocalCheckpoint
                  | Mirror \<Rightarrow>
                      ok_or (HistoryCompactionUnacknowledged (current_commit_sequence e) None)
                        (map_option AckMirror (stored_mirror_head (eng_storage e)))) e)
                 (\<lambda>ack e. compact_versioned_history env (policy_retention policy) ack e))"

definition maintain_versioned_history :: "'r engine_env \<Rightarrow> 'r engine \<Rightarrow> ('r, unit) engine_result" where
  "maintain_versioned_history env e =
     (if eng_policy e \<noteq> None
      then bindS (compact_configured_versioned_history env e) (\<lambda>_ e. (Inr (), e))
      else (Inr (), e))"

section \<open>Rebuild\<close>

definition lift_storage :: "'a eresult \<Rightarrow> sema_error + 'a" where
  "lift_storage r = (case r of Inl e \<Rightarrow> Inl (into_storage e) | Inr x \<Rightarrow> Inr x)"

definition rebuild_from_log ::
  "'r engine_env \<Rightarrow> family_directory \<Rightarrow> 'r engine \<Rightarrow> ('r, rebuild_receipt) engine_result" where
  "rebuild_from_log env dir e =
     (if eng_policy e = None then (Inl (versioning_not_enabled ''rebuild_from_log''), e)
      else bindS (reads (ensure_versioned_log_complete (eng_storage e)) e) (\<lambda>_ e.
           bindS (reads (latest_checkpoint env (eng_storage e)) e) (\<lambda>c e.
           let (rows, chain_hd, after) = resume_point c;
               entries = versioned_entries_from (eng_storage e) (commit_sequence_next after) in
           bindS (reads (canonical_fold env rows entries chain_hd) e) (\<lambda>view e.
           let vdigest = view_digest env view in
           bindS (reads (into_rows view (family_inventory (eng_catalog e))) e) (\<lambda>materialize e.
           bindS (engine_write env
                    (\<lambda>s. bindR (lift_storage
                            (materialize_rows_in env dir (materialize_iter materialize) s))
                          (\<lambda>s'. Inr ((), s'))) e) (\<lambda>_ e.
           (Inr \<lparr>rr_view_digest = vdigest, rr_row_count = length (mr_rows materialize),
                 rr_cleared_count = length (mr_cleared materialize),
                 rr_folded_entry_count = length entries\<rparr>, e)))))))"

section \<open>The mirror outbox of the engine\<close>

definition unshipped_outbox :: "'r engine \<Rightarrow> outbox_entry list" where
  "unshipped_outbox e = unshipped (eng_storage e)"

definition acknowledge_mirror ::
  "'r engine_env \<Rightarrow> mirror_head \<Rightarrow> 'r engine \<Rightarrow> ('r, mirror_acknowledgement) engine_result" where
  "acknowledge_mirror env head e =
     (let logged = map_option ve_entry_digest
                     (versioned_entry_at (eng_storage e) (mh_commit_sequence head))
      in case outbox_acknowledge env head logged (eng_storage e) of
           (r, s) \<Rightarrow> (r, e\<lparr>eng_storage := s\<rparr>))"

definition durability_of :: "'r engine \<Rightarrow> commit_sequence \<Rightarrow> durability eresult" where
  "durability_of e sq =
     (if entry_present (eng_storage e) sq then Inr (plane_durability_of (eng_storage e) sq)
      else Inl (unknown_commit_sequence sq))"

definition store_durability :: "'r engine \<Rightarrow> durability" where
  "store_durability e =
     (if eng_policy e = None then LocalCommitted else plane_store_durability (eng_storage e))"

end
