(* ===== verification/Engine_Staged.thy ===== *)
theory Engine_Staged
  imports Engine_History
begin

text \<open>
  The buffered write and read surface of an engaged staging session (the \<open>staged_*\<close> methods of
  src/engine.rs).  A method works on the session inside the engine; a failing method keeps whatever it
  already did to the session, as the code's \<open>&mut\<close> session does.
\<close>

section \<open>What the session and the committed state say about a key\<close>

definition record_at :: "'r engine \<Rightarrow> string \<Rightarrow> record_key \<Rightarrow> 'r option" where
  "record_at e table key = tbl_get (st_rows (eng_storage e) table) (to_owned_string key)"

definition identified_record_at :: "'r engine \<Rightarrow> string \<Rightarrow> record_identifier \<Rightarrow> 'r option" where
  "identified_record_at e table i = tbl_get (st_identified_rows (eng_storage e) table) i"

definition staged_key_present :: "staging_session \<Rightarrow> string \<Rightarrow> record_key \<Rightarrow> bool \<Rightarrow> bool" where
  "staged_key_present ss table key committed =
     (case overlay_get ss table key of
        Some Present \<Rightarrow> True
      | Some Absent \<Rightarrow> False
      | None \<Rightarrow> committed)"

text \<open>The payload of a committed row, encoded: absent rows have none.\<close>

definition committed_payload ::
  "'r engine_env \<Rightarrow> string \<Rightarrow> 'r option \<Rightarrow> versioned_payload option eresult" where
  "committed_payload env table r =
     (case r of
        None \<Rightarrow> Inr None
      | Some x \<Rightarrow> bindR (versioned_record_payload env table x) (\<lambda>payload. Inr (Some payload)))"

definition staged_pre_image ::
  "staging_session \<Rightarrow> string \<Rightarrow> record_key \<Rightarrow> versioned_payload option eresult \<Rightarrow> bytes option eresult"
  where
  "staged_pre_image ss table key committed =
     (let from_committed =
            bindR committed (\<lambda>payload. Inr (Option.bind payload payload_bytes)) in
      case overlay_get ss table key of
        Some Absent \<Rightarrow> Inr None
      | Some Present \<Rightarrow>
          (case find (\<lambda>(effect_key, effect). effect_key = key)
                  (rev (overlay_effects_for_table ss table)) of
             Some (_, Upsert bs) \<Rightarrow> Inr (Some bs)
           | _ \<Rightarrow> from_committed)
      | None \<Rightarrow> from_committed)"

section \<open>Buffered writes\<close>

type_synonym 'a staged_result = "(error + 'a) \<times> staging_session"

text \<open>Append one operation as an entry of its own.\<close>

definition append_single ::
  "'r engine_env \<Rightarrow> sema_operation \<Rightarrow> family_identity \<Rightarrow> record_key \<Rightarrow> versioned_payload
   \<Rightarrow> staging_session \<Rightarrow> (commit_sequence \<times> snapshot_identifier) \<times> staging_session" where
  "append_single env oper fam key payload ss =
     append_entry env
       (ne_single \<lparr>vop_operation = oper, vop_family = fam, vop_key = Some key,
                   vop_payload = payload\<rparr>) ss"

definition staged_assert_keyed ::
  "'r engine_env \<Rightarrow> 'r engine \<Rightarrow> 'r keyed_assertion \<Rightarrow> staging_session
   \<Rightarrow> mutation_receipt staged_result" where
  "staged_assert_keyed env e a ss =
     (let key = ka_key a; table = ka_table a in
      if staged_key_present ss table key (record_at e table key \<noteq> None)
      then (Inl (duplicate_assert_key table key), ss)
      else bindS (registered_family e table, ss) (\<lambda>fam ss.
           bindS (versioned_record_payload env table (ka_record a), ss) (\<lambda>payload ss.
           let ((sq, snap), ss') =
                 append_single env Assert fam key payload (set_overlay table key Present ss)
           in (Inr (mutation_receipt_new Assert table key sq snap), ss'))))"

definition staged_mutate_keyed ::
  "'r engine_env \<Rightarrow> 'r engine \<Rightarrow> 'r keyed_mutation \<Rightarrow> staging_session
   \<Rightarrow> mutation_receipt staged_result" where
  "staged_mutate_keyed env e m ss =
     (let key = km_key m; table = km_table m in
      if \<not> staged_key_present ss table key (record_at e table key \<noteq> None)
      then (Inl (record_not_found table key), ss)
      else bindS (registered_family e table, ss) (\<lambda>fam ss.
           bindS (versioned_record_payload env table (km_record m), ss) (\<lambda>payload ss.
           let ((sq, snap), ss') =
                 append_single env Mutate fam key payload (set_overlay table key Present ss)
           in (Inr (mutation_receipt_new Mutate table key sq snap), ss'))))"

definition staged_retract ::
  "'r engine_env \<Rightarrow> 'r engine \<Rightarrow> retraction \<Rightarrow> staging_session \<Rightarrow> mutation_receipt staged_result" where
  "staged_retract env e r ss =
     (let key = rt_key r; table = rt_table r in
      bindS (staged_pre_image ss table key (committed_payload env table (record_at e table key)), ss)
        (\<lambda>found ss.
      case found of
        None \<Rightarrow> (Inl (record_not_found table key), ss)
      | Some pre_image \<Rightarrow>
          bindS (registered_family e table, ss) (\<lambda>fam ss.
          let ((sq, snap), ss') =
                append_single env Retract fam key Tombstone
                  (park_pre_image 0 pre_image (set_overlay table key Absent ss))
          in (Inr (mutation_receipt_new Retract table key sq snap), ss'))))"

definition staged_assert_identified ::
  "'r engine_env \<Rightarrow> 'r engine \<Rightarrow> 'r identified_assertion \<Rightarrow> staging_session
   \<Rightarrow> identified_mutation_receipt staged_result" where
  "staged_assert_identified env e a ss =
     (let table = ia_table a;
          (identifier, ss) =
            mint_identifier (identified_counter_key table)
              (next_record_identifier (eng_storage e) table) ss;
          key = Identifier identifier
      in bindS (registered_family e table, ss) (\<lambda>fam ss.
         bindS (versioned_record_payload env table (ia_record a), ss) (\<lambda>payload ss.
         let ((sq, snap), ss') =
               append_single env Assert fam key payload (set_overlay table key Present ss)
         in (Inr (identified_mutation_receipt_new Assert table identifier sq snap), ss'))))"

definition staged_mutate_identified ::
  "'r engine_env \<Rightarrow> 'r engine \<Rightarrow> 'r identified_mutation \<Rightarrow> staging_session
   \<Rightarrow> identified_mutation_receipt staged_result" where
  "staged_mutate_identified env e m ss =
     (let table = im_table m; identifier = im_identifier m; key = Identifier identifier in
      if \<not> staged_key_present ss table key (identified_record_at e table identifier \<noteq> None)
      then (Inl (identified_record_not_found table identifier), ss)
      else bindS (registered_family e table, ss) (\<lambda>fam ss.
           bindS (versioned_record_payload env table (im_record m), ss) (\<lambda>payload ss.
           let ((sq, snap), ss') =
                 append_single env Mutate fam key payload (set_overlay table key Present ss)
           in (Inr (identified_mutation_receipt_new Mutate table identifier sq snap), ss'))))"

definition staged_retract_identified ::
  "'r engine_env \<Rightarrow> 'r engine \<Rightarrow> identified_retraction \<Rightarrow> staging_session
   \<Rightarrow> identified_mutation_receipt staged_result" where
  "staged_retract_identified env e r ss =
     (let table = irt_table r; identifier = irt_identifier r; key = Identifier identifier in
      bindS (staged_pre_image ss table key
               (committed_payload env table (identified_record_at e table identifier)), ss)
        (\<lambda>found ss.
      case found of
        None \<Rightarrow> (Inl (identified_record_not_found table identifier), ss)
      | Some pre_image \<Rightarrow>
          bindS (registered_family e table, ss) (\<lambda>fam ss.
          let ((sq, snap), ss') =
                append_single env Retract fam key Tombstone
                  (park_pre_image 0 pre_image (set_overlay table key Absent ss))
          in (Inr (identified_mutation_receipt_new Retract table identifier sq snap), ss'))))"

text \<open>The loop of \<open>staged_commit\<close>: keys seen, operations, overlay effects and pre-images so far.\<close>

record staged_plan =
  sp_request_keys :: "record_key list"
  sp_operations :: "versioned_log_operation list"
  sp_overlay_effects :: "(record_key \<times> overlay_presence) list"
  sp_pre_images :: "(nat \<times> bytes) list"

definition staged_plan_empty :: staged_plan where
  "staged_plan_empty =
     \<lparr>sp_request_keys = [], sp_operations = [], sp_overlay_effects = [], sp_pre_images = []\<rparr>"

definition staged_plan_push ::
  "sema_operation \<Rightarrow> family_identity \<Rightarrow> record_key \<Rightarrow> versioned_payload \<Rightarrow> overlay_presence
   \<Rightarrow> (nat \<times> bytes) list \<Rightarrow> staged_plan \<Rightarrow> staged_plan" where
  "staged_plan_push oper fam key payload presence pre sp =
     \<lparr>sp_request_keys = key # sp_request_keys sp,
      sp_operations = sp_operations sp @
        [\<lparr>vop_operation = oper, vop_family = fam, vop_key = Some key, vop_payload = payload\<rparr>],
      sp_overlay_effects = sp_overlay_effects sp @ [(key, presence)],
      sp_pre_images = sp_pre_images sp @ pre\<rparr>"

fun staged_commit_step ::
  "'r engine_env \<Rightarrow> 'r engine \<Rightarrow> staging_session \<Rightarrow> string \<Rightarrow> family_identity \<Rightarrow> staged_plan
   \<Rightarrow> nat \<times> 'r write_operation \<Rightarrow> staged_plan eresult" where
  "staged_commit_step env e ss table fam sp (i, WriteAssert r) =
     (let key = env_record_key env r in
      if key \<in> set (sp_request_keys sp) then Inl (duplicate_write_key table key)
      else if staged_key_present ss table key (record_at e table key \<noteq> None)
      then Inl (duplicate_assert_key table key)
      else bindR (versioned_record_payload env table r) (\<lambda>payload.
           Inr (staged_plan_push Assert fam key payload Present [] sp)))"
| "staged_commit_step env e ss table fam sp (i, WriteMutate r) =
     (let key = env_record_key env r in
      if key \<in> set (sp_request_keys sp) then Inl (duplicate_write_key table key)
      else if \<not> staged_key_present ss table key (record_at e table key \<noteq> None)
      then Inl (record_not_found table key)
      else bindR (versioned_record_payload env table r) (\<lambda>payload.
           Inr (staged_plan_push Mutate fam key payload Present [] sp)))"
| "staged_commit_step env e ss table fam sp (i, WriteRetract key) =
     (if key \<in> set (sp_request_keys sp) then Inl (duplicate_write_key table key)
      else bindR (staged_pre_image ss table key
                    (committed_payload env table (record_at e table key))) (\<lambda>found.
           case found of
             None \<Rightarrow> Inl (record_not_found table key)
           | Some pre_image \<Rightarrow>
               Inr (staged_plan_push Retract fam key Tombstone Absent [(i, pre_image)] sp)))"

definition staged_commit ::
  "'r engine_env \<Rightarrow> 'r engine \<Rightarrow> 'r commit_request \<Rightarrow> staging_session \<Rightarrow> commit_receipt staged_result"
  where
  "staged_commit env e q ss =
     (let table = crq_table q in
      bindS (registered_family e table, ss) (\<lambda>fam ss.
      bindS (foldR (staged_commit_step env e ss table fam) staged_plan_empty
               (enumerate 0 (crq_operations q)), ss) (\<lambda>sp ss.
      let ss1 = fold (\<lambda>(key, presence). set_overlay table key presence) (sp_overlay_effects sp) ss;
          ss2 = fold (\<lambda>(i, bs). park_pre_image i bs) (sp_pre_images sp) ss1
      in case ne_try_from_vec (sp_operations sp) of
           None \<Rightarrow> (Inl (EmptyCommit table), ss2)
         | Some operations \<Rightarrow>
             let ((sq, snap), ss3) = append_entry env operations ss2
             in (Inr \<lparr>cmr_table = table, cmr_commit_sequence = sq, cmr_snapshot = snap,
                      cmr_operation_count = request_operation_count q\<rparr>, ss3))))"

section \<open>Session-scoped reads\<close>

definition overlay_row ::
  "'r engine_env \<Rightarrow> string \<Rightarrow> (string, 'r) tbl \<Rightarrow> record_key \<times> overlay_effect
   \<Rightarrow> (string, 'r) tbl eresult" where
  "overlay_row env table rows effect =
     (case snd effect of
        Upsert bs \<Rightarrow>
          bindR (decode_payload env table bs)
            (\<lambda>r. Inr (tbl_insert (to_owned_string (fst effect)) r rows))
      | Remove \<Rightarrow> Inr (tbl_remove (to_owned_string (fst effect)) rows))"

definition overlay_rows ::
  "'r engine_env \<Rightarrow> 'r engine \<Rightarrow> staging_session \<Rightarrow> string \<Rightarrow> (string, 'r) tbl eresult" where
  "overlay_rows env e ss table =
     foldR (overlay_row env table) (tbl_iter (st_rows (eng_storage e) table))
       (overlay_effects_for_table ss table)"

definition option_list :: "'a option \<Rightarrow> 'a list" where
  "option_list x = (case x of None \<Rightarrow> [] | Some y \<Rightarrow> [y])"

text \<open>The rows a supported read plan selects from a table.\<close>

definition select_rows :: "read_plan_node \<Rightarrow> (string, 'r) tbl \<Rightarrow> 'r list eresult" where
  "select_rows node rows =
     (case node of
        AllRows \<Rightarrow> Inr (map snd (tbl_iter rows))
      | ByKey key \<Rightarrow> Inr (option_list (tbl_get rows (to_owned_string key)))
      | ByKeyRange rng \<Rightarrow>
          Inr (map snd (filter (\<lambda>r. key_range_contains rng (Domain (fst r))) (tbl_iter rows)))
      | other \<Rightarrow> Inl (UnsupportedReadPlan (plan_operator other)))"

definition select_identified ::
  "identified_read_plan_node \<Rightarrow> (u64, 'r) tbl \<Rightarrow> 'r identified_record list" where
  "select_identified node rows =
     (let record = (\<lambda>(i, r). \<lparr>ir_identifier = i, ir_value = r\<rparr>) in
      case node of
        IdAllRows \<Rightarrow> map record (tbl_iter rows)
      | ByIdentifier i \<Rightarrow>
          option_list (map_option (\<lambda>r. \<lparr>ir_identifier = i, ir_value = r\<rparr>) (tbl_get rows i))
      | ByIdentifierRange rng \<Rightarrow>
          map record (filter (\<lambda>(i, r). id_range_contains rng i) (tbl_iter rows)))"

definition session_marker :: "staging_session \<Rightarrow> database_marker" where
  "session_marker ss =
     \<lparr>marker_commit_sequence = ss_latest_commit_sequence ss,
      marker_snapshot = ss_latest_snapshot ss\<rparr>"

definition staged_match_records ::
  "'r engine_env \<Rightarrow> 'r engine \<Rightarrow> staging_session \<Rightarrow> query_plan \<Rightarrow> 'r query_snapshot eresult" where
  "staged_match_records env e ss q =
     bindR (overlay_rows env e ss (plan_table q)) (\<lambda>rows.
     bindR (select_rows (plan_read q) rows) (\<lambda>records.
     Inr \<lparr>qs_operation = Match, qs_table = plan_table q, qs_marker = session_marker ss,
          qs_records = records\<rparr>))"

definition overlay_identified ::
  "'r engine_env \<Rightarrow> string \<Rightarrow> (u64, 'r) tbl \<Rightarrow> record_key \<times> overlay_effect \<Rightarrow> (u64, 'r) tbl eresult"
  where
  "overlay_identified env table rows effect =
     (case fst effect of
        Domain key \<Rightarrow> Inr rows
      | Identifier i \<Rightarrow>
          (case snd effect of
             Upsert bs \<Rightarrow> bindR (decode_payload env table bs) (\<lambda>r. Inr (tbl_insert i r rows))
           | Remove \<Rightarrow> Inr (tbl_remove i rows)))"

definition staged_match_identified ::
  "'r engine_env \<Rightarrow> 'r engine \<Rightarrow> staging_session \<Rightarrow> identified_query_plan
   \<Rightarrow> 'r identified_query_snapshot eresult" where
  "staged_match_identified env e ss q =
     bindR (foldR (overlay_identified env (iplan_table q))
              (tbl_iter (st_identified_rows (eng_storage e) (iplan_table q)))
              (overlay_effects_for_table ss (iplan_table q))) (\<lambda>rows.
     Inr \<lparr>iqs_operation = Match, iqs_table = iplan_table q, iqs_marker = session_marker ss,
          iqs_records = select_identified (iplan_read q) rows\<rparr>)"

end
