(* ===== verification/Engine_Writes.thy ===== *)
theory Engine_Writes
  imports Engine_Staged
begin

text \<open>
  The write and read surface of src/engine.rs: registration and in-place evolution of families, the
  domain-keyed and identified mutations, the multi-operation commit, queries and subscriptions.  While a
  staging session is engaged the mutations go to Engine_Staged.
\<close>

section \<open>Registration\<close>

text \<open>The operations an evolution logs: a retraction per prior row, then an assertion per carried one.\<close>

definition evolution_log_operations :: "string \<Rightarrow> (string \<times> 'r) list \<Rightarrow> commit_log_operation list" where
  "evolution_log_operations name carried =
     map (\<lambda>(key, _). commit_log_operation_new Retract name (Some (Domain key))) carried
     @ map (\<lambda>(key, _). commit_log_operation_new Assert name (Some (Domain key))) carried"

definition evolution_versioned_operations ::
  "'r engine_env \<Rightarrow> 'r engine \<Rightarrow> string \<Rightarrow> family_identity \<Rightarrow> family_identity \<Rightarrow> (string \<times> 'r) list
   \<Rightarrow> versioned_log_operation list eresult" where
  "evolution_versioned_operations env e name stored evolved carried =
     (if eng_policy e = None then Inr []
      else bindR (mapR (\<lambda>(key, row).
                   bindR (versioned_record_payload env name row) (\<lambda>payload.
                   Inr \<lparr>vop_operation = Assert, vop_family = evolved, vop_key = Some (Domain key),
                        vop_payload = payload\<rparr>)) carried) (\<lambda>asserts.
           Inr (map (\<lambda>(key, _). \<lparr>vop_operation = Retract, vop_family = stored,
                                  vop_key = Some (Domain key), vop_payload = Tombstone\<rparr>) carried
                @ asserts)))"

definition catalog_row_insert :: "string \<Rightarrow> table_registration \<Rightarrow> 'r store \<Rightarrow> 'r store" where
  "catalog_row_insert name r s = s\<lparr>st_catalog := tbl_insert name r (st_catalog s)\<rparr>"

definition persist_family_evolution ::
  "'r engine_env \<Rightarrow> 'r table_descriptor \<Rightarrow> family_identity \<Rightarrow> (string \<times> 'r) list
   \<Rightarrow> table_registration \<Rightarrow> 'r engine \<Rightarrow> ('r, unit) engine_result" where
  "persist_family_evolution env d stored carried evolved e =
     (let name = td_name d in
      if carried = [] then engine_put env (catalog_row_insert name evolved) e
      else
        bindS (reads (evolution_versioned_operations env e name stored
                        (registration_identity evolved) carried) e) (\<lambda>vops e.
        let sq = next_commit_sequence e; snap = next_snapshot e in
        bindS (reads (ok_or (EmptyCommit name)
                       (ne_try_from_vec (evolution_log_operations name carried))) e) (\<lambda>opers e.
        let entry = commit_log_entry_new sq snap opers in
        bindS (reads (if eng_policy e = None then Inr None
                      else bindR (ok_or (EmptyCommit name) (ne_try_from_vec vops))
                             (\<lambda>vs. Inr (versioned_entry_for env e sq snap vs))) e) (\<lambda>ventry e.
        let counts = log_counts (eng_storage e) in
        bindS (engine_put env
                 (\<lambda>s. catalog_row_insert name evolved
                        (land_commit (eng_policy e) counts entry ventry sq snap
                          (fold (\<lambda>(key, row). row_insert name key row) carried s))) e) (\<lambda>_ e.
        maintain_versioned_history env e)))))"

definition evolve_registered_family ::
  "'r engine_env \<Rightarrow> 'r table_descriptor \<Rightarrow> family_identity \<Rightarrow> 'r evolution_step \<Rightarrow> 'r engine
   \<Rightarrow> ('r, unit) engine_result" where
  "evolve_registered_family env d stored step e =
     (let name = td_name d;
          previous = registration_new stored;
          evolved = registration_new (td_family_identity d)
      in bindS (reads (store_read (carry_rows step (st_rows (eng_storage e) name))) e) (\<lambda>carried e.
         bindS (reads (catalog_evolve (eng_catalog e) name evolved) e) (\<lambda>c e.
         case persist_family_evolution env d stored carried evolved (e\<lparr>eng_catalog := c\<rparr>) of
           (Inr u, e') \<Rightarrow> (Inr u, e')
         | (Inl err, e') \<Rightarrow>
             bindS (reads (catalog_evolve (eng_catalog e') name previous) e') (\<lambda>c' e'.
             (Inl err, e'\<lparr>eng_catalog := c'\<rparr>)))))"

definition register_table ::
  "'r engine_env \<Rightarrow> 'r table_descriptor \<Rightarrow> 'r engine \<Rightarrow> ('r, table_reference) engine_result" where
  "register_table env d e =
     (let name = td_name d in
      case family_registration_state (eng_catalog e) (td_family_identity d) of
        Inr Existing \<Rightarrow> (Inr name, e)
      | Inr (NewRegistration registration) \<Rightarrow>
          bindS (engine_put env (catalog_row_insert name registration) e) (\<lambda>_ e.
          bindS (reads (catalog_insert (eng_catalog e) registration) e) (\<lambda>c e.
          (Inr name, e\<lparr>eng_catalog := c\<rparr>)))
      | Inl err \<Rightarrow>
          (case err of
             FamilyIdentityMismatch _ _ _ \<Rightarrow>
               bindS (reads (registered_family e name) e) (\<lambda>stored e.
               case evolution_step_for d stored of
                 None \<Rightarrow> (Inl err, e)
               | Some step \<Rightarrow>
                   bindS (evolve_registered_family env d stored step e) (\<lambda>_ e. (Inr name, e)))
           | other \<Rightarrow> (Inl err, e)))"

definition identified_counter_insert :: "string \<Rightarrow> u64 \<Rightarrow> 'r store \<Rightarrow> 'r store" where
  "identified_counter_insert key v s =
     s\<lparr>st_identified_counters := tbl_insert key v (st_identified_counters s)\<rparr>"

definition register_identified_table ::
  "'r engine_env \<Rightarrow> identified_table_descriptor \<Rightarrow> 'r engine \<Rightarrow> ('r, table_reference) engine_result"
  where
  "register_identified_table env d e =
     (let name = itd_name d in
      bindS (reads (family_registration_state (eng_catalog e) (itd_family_identity d)) e) (\<lambda>state e.
      case state of
        Existing \<Rightarrow> (Inr name, e)
      | NewRegistration registration \<Rightarrow>
          bindS (engine_put env
                   (\<lambda>s. identified_counter_insert (identified_counter_key name)
                          record_identifier_first (catalog_row_insert name registration s)) e) (\<lambda>_ e.
          bindS (reads (catalog_insert (eng_catalog e) registration) e) (\<lambda>c e.
          (Inr name, e\<lparr>eng_catalog := c\<rparr>)))))"

section \<open>Single mutations\<close>

definition with_session ::
  "(staging_session \<Rightarrow> (error + 'a) \<times> staging_session) \<Rightarrow> staging_session \<Rightarrow> 'r engine
   \<Rightarrow> ('r, 'a) engine_result" where
  "with_session f ss e = (case f ss of (r, ss') \<Rightarrow> (r, e\<lparr>eng_staging := Some ss'\<rparr>))"

definition deliver ::
  "delta_kind \<Rightarrow> string \<Rightarrow> record_key \<Rightarrow> snapshot_identifier \<Rightarrow> 'r \<Rightarrow> 'r engine \<Rightarrow> 'r engine" where
  "deliver kind table key snap r e =
     e\<lparr>eng_subscriptions := deliver_delta kind table key snap r (eng_subscriptions e)\<rparr>"

text \<open>The metadata entry of a one-operation commit.\<close>

definition single_entry ::
  "commit_sequence \<Rightarrow> snapshot_identifier \<Rightarrow> sema_operation \<Rightarrow> string \<Rightarrow> record_key
   \<Rightarrow> commit_log_entry" where
  "single_entry sq snap oper table key =
     commit_log_entry_single sq snap (commit_log_operation_new oper table (Some key))"

text \<open>Run maintenance after the write committed, then return the receipt.\<close>

definition finish_write :: "'r engine_env \<Rightarrow> 'a \<Rightarrow> 'r engine \<Rightarrow> ('r, 'a) engine_result" where
  "finish_write env receipt e =
     bindS (maintain_versioned_history env e) (\<lambda>_ e. (Inr receipt, e))"

definition assert_keyed ::
  "'r engine_env \<Rightarrow> 'r keyed_assertion \<Rightarrow> 'r engine \<Rightarrow> ('r, mutation_receipt) engine_result" where
  "assert_keyed env a e =
     (let table = ka_table a; key = ka_key a; r = ka_record a in
      bindS (reads (ensure_registered e table) e) (\<lambda>_ e.
      case eng_staging e of
        Some ss \<Rightarrow> with_session (staged_assert_keyed env e a) ss e
      | None \<Rightarrow>
          if record_at e table key \<noteq> None then (Inl (duplicate_assert_key table key), e)
          else
            let sq = next_commit_sequence e; snap = next_snapshot e;
                entry = single_entry sq snap Assert table key in
            bindS (reads (versioned_record_entry env e sq snap Assert table (Some key) r) e)
              (\<lambda>ventry e.
            let counts = log_counts (eng_storage e) in
            bindS (engine_put env
                     (\<lambda>s. land_commit (eng_policy e) counts entry ventry sq snap
                            (row_insert table (to_owned_string key) r s)) e) (\<lambda>_ e.
            finish_write env
              (mutation_receipt_new Assert table key sq snap)
              (deliver DeltaAssert table key snap r e)))))"

definition engine_assert ::
  "'r engine_env \<Rightarrow> 'r assertion \<Rightarrow> 'r engine \<Rightarrow> ('r, mutation_receipt) engine_result" where
  "engine_assert env a e =
     assert_keyed env
       \<lparr>ka_table = asr_table a, ka_key = assertion_record_key env a, ka_record = asr_record a\<rparr> e"

definition mutate_keyed ::
  "'r engine_env \<Rightarrow> 'r keyed_mutation \<Rightarrow> 'r engine \<Rightarrow> ('r, mutation_receipt) engine_result" where
  "mutate_keyed env m e =
     (let table = km_table m; key = km_key m; r = km_record m in
      bindS (reads (ensure_registered e table) e) (\<lambda>_ e.
      case eng_staging e of
        Some ss \<Rightarrow> with_session (staged_mutate_keyed env e m) ss e
      | None \<Rightarrow>
          if record_at e table key = None then (Inl (record_not_found table key), e)
          else
            let sq = next_commit_sequence e; snap = next_snapshot e;
                entry = single_entry sq snap Mutate table key in
            bindS (reads (versioned_record_entry env e sq snap Mutate table (Some key) r) e)
              (\<lambda>ventry e.
            let counts = log_counts (eng_storage e) in
            bindS (engine_put env
                     (\<lambda>s. land_commit (eng_policy e) counts entry ventry sq snap
                            (row_insert table (to_owned_string key) r s)) e) (\<lambda>_ e.
            finish_write env
              (mutation_receipt_new Mutate table key sq snap)
              (deliver DeltaMutate table key snap r e)))))"

definition engine_mutate ::
  "'r engine_env \<Rightarrow> 'r mutation \<Rightarrow> 'r engine \<Rightarrow> ('r, mutation_receipt) engine_result" where
  "engine_mutate env m e =
     mutate_keyed env
       \<lparr>km_table = mut_table m, km_key = mutation_record_key env m, km_record = mut_record m\<rparr> e"

definition engine_retract ::
  "'r engine_env \<Rightarrow> retraction \<Rightarrow> 'r engine \<Rightarrow> ('r, mutation_receipt) engine_result" where
  "engine_retract env rt e =
     (let table = rt_table rt; key = rt_key rt in
      bindS (reads (ensure_registered e table) e) (\<lambda>_ e.
      case eng_staging e of
        Some ss \<Rightarrow> with_session (staged_retract env e rt) ss e
      | None \<Rightarrow>
          (case record_at e table key of
             None \<Rightarrow> (Inl (record_not_found table key), e)
           | Some r \<Rightarrow>
               let sq = next_commit_sequence e; snap = next_snapshot e;
                   entry = single_entry sq snap Retract table key in
               bindS (reads (versioned_tombstone_entry env e sq snap Retract table (Some key)) e)
                 (\<lambda>ventry e.
               let counts = log_counts (eng_storage e) in
               bindS (engine_write env
                        (\<lambda>s. let removed = tbl_get (st_rows s table) (to_owned_string key) \<noteq> None;
                                 s' = row_remove table (to_owned_string key) s in
                             Inr (removed,
                                  if removed
                                  then land_commit (eng_policy e) counts entry ventry sq snap s'
                                  else s')) e) (\<lambda>removed e.
               if \<not> removed then (Inl (record_not_found table key), e)
               else finish_write env
                      (mutation_receipt_new Retract table key sq snap)
                      (deliver DeltaRetract table key snap r e))))))"

section \<open>Identified mutations\<close>

definition assert_identified ::
  "'r engine_env \<Rightarrow> 'r identified_assertion \<Rightarrow> 'r engine
   \<Rightarrow> ('r, identified_mutation_receipt) engine_result" where
  "assert_identified env a e =
     (let table = ia_table a; r = ia_record a in
      bindS (reads (ensure_registered e table) e) (\<lambda>_ e.
      case eng_staging e of
        Some ss \<Rightarrow> with_session (staged_assert_identified env e a) ss e
      | None \<Rightarrow>
          let identifier = next_record_identifier (eng_storage e) table;
              sq = next_commit_sequence e; snap = next_snapshot e;
              key = Identifier identifier;
              entry = single_entry sq snap Assert table key in
          bindS (reads (versioned_record_entry env e sq snap Assert table (Some key) r) e)
            (\<lambda>ventry e.
          let counts = log_counts (eng_storage e) in
          bindS (engine_put env
                   (\<lambda>s. identified_counter_insert (identified_counter_key table)
                          (record_identifier_next identifier)
                          (land_commit (eng_policy e) counts entry ventry sq snap
                            (identified_insert table identifier r s))) e) (\<lambda>_ e.
          (Inr (identified_mutation_receipt_new Assert table identifier sq snap), e)))))"

definition retract_identified ::
  "'r engine_env \<Rightarrow> identified_retraction \<Rightarrow> 'r engine
   \<Rightarrow> ('r, identified_mutation_receipt) engine_result" where
  "retract_identified env rt e =
     (let table = irt_table rt; identifier = irt_identifier rt in
      bindS (reads (ensure_registered e table) e) (\<lambda>_ e.
      case eng_staging e of
        Some ss \<Rightarrow> with_session (staged_retract_identified env e rt) ss e
      | None \<Rightarrow>
          (case identified_record_at e table identifier of
             None \<Rightarrow> (Inl (identified_record_not_found table identifier), e)
           | Some _ \<Rightarrow>
               let sq = next_commit_sequence e; snap = next_snapshot e;
                   key = Identifier identifier;
                   entry = single_entry sq snap Retract table key in
               bindS (reads (versioned_tombstone_entry env e sq snap Retract table (Some key)) e)
                 (\<lambda>ventry e.
               let counts = log_counts (eng_storage e) in
               bindS (engine_write env
                        (\<lambda>s. let removed = tbl_get (st_identified_rows s table) identifier \<noteq> None;
                                 s' = identified_remove table identifier s in
                             Inr (removed,
                                  if removed
                                  then land_commit (eng_policy e) counts entry ventry sq snap s'
                                  else s')) e) (\<lambda>removed e.
               if \<not> removed then (Inl (identified_record_not_found table identifier), e)
               else (Inr (identified_mutation_receipt_new Retract table identifier sq snap), e))))))"

definition mutate_identified ::
  "'r engine_env \<Rightarrow> 'r identified_mutation \<Rightarrow> 'r engine
   \<Rightarrow> ('r, identified_mutation_receipt) engine_result" where
  "mutate_identified env m e =
     (let table = im_table m; identifier = im_identifier m; r = im_record m in
      bindS (reads (ensure_registered e table) e) (\<lambda>_ e.
      case eng_staging e of
        Some ss \<Rightarrow> with_session (staged_mutate_identified env e m) ss e
      | None \<Rightarrow>
          if identified_record_at e table identifier = None
          then (Inl (identified_record_not_found table identifier), e)
          else
            let sq = next_commit_sequence e; snap = next_snapshot e;
                key = Identifier identifier;
                entry = single_entry sq snap Mutate table key in
            bindS (reads (versioned_record_entry env e sq snap Mutate table (Some key) r) e)
              (\<lambda>ventry e.
            let counts = log_counts (eng_storage e) in
            bindS (engine_put env
                     (\<lambda>s. land_commit (eng_policy e) counts entry ventry sq snap
                            (identified_insert table identifier r s)) e) (\<lambda>_ e.
            (Inr (identified_mutation_receipt_new Mutate table identifier sq snap), e)))))"

section \<open>The multi-operation commit\<close>

record 'r committed_effect =
  ce_kind :: delta_kind
  ce_key :: record_key
  ce_record :: 'r

record 'r commit_plan =
  cp_effect_keys :: "record_key list"
  cp_effects :: "'r committed_effect list"
  cp_log_operations :: "commit_log_operation list"
  cp_versioned_operations :: "versioned_log_operation list"

definition commit_plan_empty :: "'r commit_plan" where
  "commit_plan_empty =
     \<lparr>cp_effect_keys = [], cp_effects = [], cp_log_operations = [], cp_versioned_operations = []\<rparr>"

definition commit_plan_push ::
  "sema_operation \<Rightarrow> delta_kind \<Rightarrow> string \<Rightarrow> record_key \<Rightarrow> 'r \<Rightarrow> versioned_log_operation list
   \<Rightarrow> 'r commit_plan \<Rightarrow> 'r commit_plan" where
  "commit_plan_push oper kind table key r vops cp =
     \<lparr>cp_effect_keys = key # cp_effect_keys cp,
      cp_effects = cp_effects cp @ [\<lparr>ce_kind = kind, ce_key = key, ce_record = r\<rparr>],
      cp_log_operations =
        cp_log_operations cp @ [commit_log_operation_new oper table (Some key)],
      cp_versioned_operations = cp_versioned_operations cp @ vops\<rparr>"

text \<open>The versioned operation of a record-bearing step, when the store is versioned.\<close>

definition planned_operation ::
  "'r engine_env \<Rightarrow> string \<Rightarrow> family_identity option \<Rightarrow> sema_operation \<Rightarrow> record_key \<Rightarrow> 'r
   \<Rightarrow> versioned_log_operation list eresult" where
  "planned_operation env table versioned_family oper key r =
     (case versioned_family of
        None \<Rightarrow> Inr []
      | Some fam \<Rightarrow>
          bindR (versioned_record_payload env table r) (\<lambda>payload.
          Inr [\<lparr>vop_operation = oper, vop_family = fam, vop_key = Some key,
                vop_payload = payload\<rparr>]))"

fun commit_step ::
  "'r engine_env \<Rightarrow> 'r engine \<Rightarrow> string \<Rightarrow> family_identity option \<Rightarrow> 'r commit_plan
   \<Rightarrow> 'r write_operation \<Rightarrow> 'r commit_plan eresult" where
  "commit_step env e table fam cp (WriteAssert r) =
     (let key = env_record_key env r in
      if key \<in> set (cp_effect_keys cp) then Inl (duplicate_write_key table key)
      else if record_at e table key \<noteq> None then Inl (duplicate_assert_key table key)
      else bindR (planned_operation env table fam Assert key r) (\<lambda>vops.
           Inr (commit_plan_push Assert DeltaAssert table key r vops cp)))"
| "commit_step env e table fam cp (WriteMutate r) =
     (let key = env_record_key env r in
      if key \<in> set (cp_effect_keys cp) then Inl (duplicate_write_key table key)
      else if record_at e table key = None then Inl (record_not_found table key)
      else bindR (planned_operation env table fam Mutate key r) (\<lambda>vops.
           Inr (commit_plan_push Mutate DeltaMutate table key r vops cp)))"
| "commit_step env e table fam cp (WriteRetract key) =
     (if key \<in> set (cp_effect_keys cp) then Inl (duplicate_write_key table key)
      else case record_at e table key of
             None \<Rightarrow> Inl (record_not_found table key)
           | Some r \<Rightarrow>
               Inr (commit_plan_push Retract DeltaRetract table key r
                 (case fam of
                    None \<Rightarrow> []
                  | Some f \<Rightarrow> [\<lparr>vop_operation = Retract, vop_family = f, vop_key = Some key,
                                vop_payload = Tombstone\<rparr>]) cp))"

fun apply_write :: "'r engine_env \<Rightarrow> string \<Rightarrow> 'r write_operation \<Rightarrow> 'r store \<Rightarrow> 'r store" where
  "apply_write env table (WriteAssert r) s =
     row_insert table (to_owned_string (env_record_key env r)) r s"
| "apply_write env table (WriteMutate r) s =
     row_insert table (to_owned_string (env_record_key env r)) r s"
| "apply_write env table (WriteRetract key) s = row_remove table (to_owned_string key) s"

definition engine_commit ::
  "'r engine_env \<Rightarrow> 'r commit_request \<Rightarrow> 'r engine \<Rightarrow> ('r, commit_receipt) engine_result" where
  "engine_commit env q e =
     (let table = crq_table q in
      bindS (reads (ensure_registered e table) e) (\<lambda>_ e.
      if crq_operations q = [] then (Inl (EmptyCommit table), e)
      else case eng_staging e of
        Some ss \<Rightarrow> with_session (staged_commit env e q) ss e
      | None \<Rightarrow>
          bindS (reads (if eng_policy e = None then Inr None
                        else bindR (registered_family e table) (\<lambda>f. Inr (Some f))) e) (\<lambda>fam e.
          bindS (reads (foldR (commit_step env e table fam) commit_plan_empty
                          (crq_operations q)) e) (\<lambda>cp e.
          let sq = next_commit_sequence e; snap = next_snapshot e in
          bindS (reads (ok_or (EmptyCommit table) (ne_try_from_vec (cp_log_operations cp))) e)
            (\<lambda>opers e.
          let entry = commit_log_entry_new sq snap opers in
          bindS (reads (if eng_policy e = None then Inr None
                        else bindR (ok_or (EmptyCommit table)
                                      (ne_try_from_vec (cp_versioned_operations cp)))
                               (\<lambda>vs. Inr (versioned_entry_for env e sq snap vs))) e) (\<lambda>ventry e.
          let counts = log_counts (eng_storage e) in
          bindS (engine_put env
                   (\<lambda>s. land_commit (eng_policy e) counts entry ventry sq snap
                          (fold (apply_write env table) (crq_operations q) s)) e) (\<lambda>_ e.
          finish_write env
            \<lparr>cmr_table = table, cmr_commit_sequence = sq, cmr_snapshot = snap,
             cmr_operation_count = request_operation_count q\<rparr>
            (fold (\<lambda>ef. deliver (ce_kind ef) table (ce_key ef) snap (ce_record ef))
               (cp_effects cp) e))))))))"

section \<open>Queries\<close>

definition match_records ::
  "'r engine_env \<Rightarrow> query_plan \<Rightarrow> 'r engine \<Rightarrow> 'r query_snapshot eresult" where
  "match_records env q e =
     bindR (ensure_registered e (plan_table q)) (\<lambda>_.
     case eng_staging e of
       Some ss \<Rightarrow> staged_match_records env e ss q
     | None \<Rightarrow>
         bindR (select_rows (plan_read q) (st_rows (eng_storage e) (plan_table q))) (\<lambda>records.
         Inr \<lparr>qs_operation = Match, qs_table = plan_table q,
              qs_marker = committed_marker (eng_storage e), qs_records = records\<rparr>))"

definition match_identified ::
  "'r engine_env \<Rightarrow> identified_query_plan \<Rightarrow> 'r engine \<Rightarrow> 'r identified_query_snapshot eresult" where
  "match_identified env q e =
     bindR (ensure_registered e (iplan_table q)) (\<lambda>_.
     case eng_staging e of
       Some ss \<Rightarrow> staged_match_identified env e ss q
     | None \<Rightarrow>
         Inr \<lparr>iqs_operation = Match, iqs_table = iplan_table q,
              iqs_marker = committed_marker (eng_storage e),
              iqs_records = select_identified (iplan_read q)
                (st_identified_rows (eng_storage e) (iplan_table q))\<rparr>)"

definition engine_validate ::
  "'r engine_env \<Rightarrow> query_plan \<Rightarrow> 'r engine \<Rightarrow> validation_receipt eresult" where
  "engine_validate env q e =
     bindR (match_records env q e) (\<lambda>snapshot.
     Inr \<lparr>vr_operation = Validate, vr_table = plan_table q, vr_marker = qs_marker snapshot,
          vr_record_count = length (qs_records snapshot)\<rparr>)"

end
