(* ===== verification/Engine_Groups.thy ===== *)
theory Engine_Groups
  imports Engine_Writes
begin

text \<open>
  Writes that land as one group: the heterogeneous atomic commit (src/atomic.rs), the staging lifecycle
  (engage, park, materialize, discard) and the resumable compaction of src/engine.rs.
\<close>

section \<open>Atomic commits over several tables\<close>

datatype atomic_kind = AtomicAssert | AtomicMutate | AtomicRetract

fun atomic_operation :: "atomic_kind \<Rightarrow> sema_operation" where
  "atomic_operation AtomicAssert = Assert"
| "atomic_operation AtomicMutate = Mutate"
| "atomic_operation AtomicRetract = Retract"

fun atomic_delta :: "atomic_kind \<Rightarrow> delta_kind" where
  "atomic_delta AtomicAssert = DeltaAssert"
| "atomic_delta AtomicMutate = DeltaMutate"
| "atomic_delta AtomicRetract = DeltaRetract"

record 'r atomic_write =
  aw_kind :: atomic_kind
  aw_table :: table_reference
  aw_key :: record_key
  aw_record :: "'r option"

type_synonym 'r atomic_commit = "'r atomic_write list"

definition begin_atomic_commit :: "'r atomic_commit" where
  "begin_atomic_commit = []"

definition atomic_assert ::
  "'r engine_env \<Rightarrow> table_reference \<Rightarrow> 'r \<Rightarrow> 'r atomic_commit \<Rightarrow> 'r atomic_commit" where
  "atomic_assert env table r c =
     c @ [\<lparr>aw_kind = AtomicAssert, aw_table = table, aw_key = env_record_key env r,
           aw_record = Some r\<rparr>]"

definition atomic_mutate ::
  "'r engine_env \<Rightarrow> table_reference \<Rightarrow> 'r \<Rightarrow> 'r atomic_commit \<Rightarrow> 'r atomic_commit" where
  "atomic_mutate env table r c =
     c @ [\<lparr>aw_kind = AtomicMutate, aw_table = table, aw_key = env_record_key env r,
           aw_record = Some r\<rparr>]"

definition atomic_retract :: "table_reference \<Rightarrow> record_key \<Rightarrow> 'r atomic_commit \<Rightarrow> 'r atomic_commit"
  where
  "atomic_retract table key c =
     c @ [\<lparr>aw_kind = AtomicRetract, aw_table = table, aw_key = key, aw_record = None\<rparr>]"

record 'r prepared_write =
  pw_operation :: commit_log_operation
  pw_versioned :: "versioned_log_operation option"
  pw_kind :: delta_kind
  pw_table :: string
  pw_key :: record_key
  pw_record :: 'r

text \<open>The services the engine lends to a prepared write.\<close>

definition ensure_atomic_registered :: "'r engine \<Rightarrow> table_reference \<Rightarrow> unit eresult" where
  "ensure_atomic_registered e table = ensure_registered e table"

definition atomic_read :: "'r engine \<Rightarrow> table_reference \<Rightarrow> record_key \<Rightarrow> 'r option" where
  "atomic_read e table key = record_at e table key"

definition atomic_duplicate_assert :: "table_reference \<Rightarrow> record_key \<Rightarrow> error" where
  "atomic_duplicate_assert table key = duplicate_assert_key table key"

definition atomic_missing :: "table_reference \<Rightarrow> record_key \<Rightarrow> error" where
  "atomic_missing table key = record_not_found table key"

definition atomic_payload ::
  "'r engine_env \<Rightarrow> string \<Rightarrow> 'r \<Rightarrow> versioned_payload eresult" where
  "atomic_payload env table r = versioned_record_payload env table r"

definition atomic_versioned_operation ::
  "'r engine \<Rightarrow> sema_operation \<Rightarrow> string \<Rightarrow> record_key \<Rightarrow> versioned_payload
   \<Rightarrow> versioned_log_operation option eresult" where
  "atomic_versioned_operation e oper table key payload =
     (if eng_policy e = None then Inr None
      else bindR (registered_family e table) (\<lambda>fam.
           Inr (Some \<lparr>vop_operation = oper, vop_family = fam, vop_key = Some key, vop_payload = payload\<rparr>)))"

definition atomic_announce :: "snapshot_identifier \<Rightarrow> 'r prepared_write \<Rightarrow> 'r engine \<Rightarrow> 'r engine" where
  "atomic_announce snap = (\<lambda>p. deliver (pw_kind p) (pw_table p) (pw_key p) snap (pw_record p))"

lemmas atomic_services [simp] = ensure_atomic_registered_def atomic_read_def atomic_duplicate_assert_def
  atomic_missing_def atomic_payload_def atomic_versioned_operation_def atomic_announce_def

definition atomic_prepare ::
  "'r engine_env \<Rightarrow> 'r engine \<Rightarrow> 'r atomic_write \<Rightarrow> 'r prepared_write eresult" where
  "atomic_prepare env e w =
     (let table = aw_table w; key = aw_key w in
      bindR (ensure_atomic_registered e table) (\<lambda>_.
      let prior = atomic_read e table key in
      bindR (case (aw_kind w, prior) of
               (AtomicAssert, Some _) \<Rightarrow> Inl (atomic_duplicate_assert table key)
             | (AtomicMutate, None) \<Rightarrow> Inl (atomic_missing table key)
             | (AtomicRetract, None) \<Rightarrow> Inl (atomic_missing table key)
             | _ \<Rightarrow> Inr ()) (\<lambda>_.
      bindR (if aw_kind w = AtomicRetract then Inr Tombstone
             else atomic_payload env table (the (aw_record w))) (\<lambda>payload.
      bindR (atomic_versioned_operation e (atomic_operation (aw_kind w)) table key payload) (\<lambda>versioned.
      Inr \<lparr>pw_operation =
             commit_log_operation_new (atomic_operation (aw_kind w)) table (Some key),
           pw_versioned = versioned, pw_kind = atomic_delta (aw_kind w), pw_table = table,
           pw_key = key,
           pw_record = (if aw_kind w = AtomicRetract then the prior else the (aw_record w))\<rparr>)))))"

definition atomic_materialize :: "'r atomic_write \<Rightarrow> 'r store \<Rightarrow> 'r store" where
  "atomic_materialize w s =
     (if aw_kind w = AtomicRetract then row_remove (aw_table w) (to_owned_string (aw_key w)) s
      else row_insert (aw_table w) (to_owned_string (aw_key w)) (the (aw_record w)) s)"

text \<open>The loop over the writes: coordinates seen and prepared writes so far.\<close>

definition atomic_step ::
  "'r engine_env \<Rightarrow> 'r engine \<Rightarrow> (string \<times> record_key) list \<times> 'r prepared_write list
   \<Rightarrow> 'r atomic_write \<Rightarrow> ((string \<times> record_key) list \<times> 'r prepared_write list) eresult" where
  "atomic_step env e acc w =
     (if (aw_table w, aw_key w) \<in> set (fst acc)
      then Inl (duplicate_write_key (aw_table w) (aw_key w))
      else bindR (atomic_prepare env e w) (\<lambda>p.
           Inr ((aw_table w, aw_key w) # fst acc, snd acc @ [p])))"

record atomic_commit_receipt =
  acr_commit_sequence :: commit_sequence
  acr_snapshot :: snapshot_identifier
  acr_operation_count :: nat

definition commit_atomic ::
  "'r engine_env \<Rightarrow> 'r atomic_commit \<Rightarrow> 'r engine \<Rightarrow> ('r, atomic_commit_receipt) engine_result" where
  "commit_atomic env writes e =
     (if writes = [] then (Inl EmptyAtomicCommit, e)
      else
        bindS (reads (foldR (atomic_step env e) ([], []) writes) e) (\<lambda>(_, prepared) e.
        let sq = next_commit_sequence e; snap = next_snapshot e in
        bindS (reads (ok_or EmptyAtomicCommit (ne_try_from_vec (map pw_operation prepared))) e)
          (\<lambda>opers e.
        let entry = commit_log_entry_new sq snap opers in
        bindS (reads (if eng_policy e = None then Inr None
                      else bindR (ok_or EmptyAtomicCommit
                                    (ne_try_from_vec (List.map_filter pw_versioned prepared)))
                             (\<lambda>vs. Inr (versioned_entry_for env e sq snap vs))) e) (\<lambda>ventry e.
        let counts = log_counts (eng_storage e) in
        bindS (engine_put env
                 (\<lambda>s. land_commit (eng_policy e) counts entry ventry sq snap
                        (fold atomic_materialize writes s)) e) (\<lambda>_ e.
        finish_write env
          \<lparr>acr_commit_sequence = sq, acr_snapshot = snap, acr_operation_count = length prepared\<rparr>
          (fold (atomic_announce snap) prepared e))))))"

section \<open>Engaging and parking a staged group\<close>

definition begin_staged_group :: "'r engine_env \<Rightarrow> 'r engine \<Rightarrow> ('r, unit) engine_result" where
  "begin_staged_group env e =
     (case eng_policy e of
        None \<Rightarrow> (Inl (versioning_not_enabled ''staging''), e)
      | Some policy \<Rightarrow>
          if eng_staging e \<noteq> None then (Inl StagingSessionEngaged, e)
          else if staging_slot (eng_storage e) \<noteq> None then (Inl StagingSlotOccupied, e)
          else (Inr (),
                e\<lparr>eng_staging := Some (staging_session_new
                    \<lparr>sb_chain_head = chain_head (eng_storage e),
                     sb_commit_sequence = committed_commit_sequence (eng_storage e),
                     sb_snapshot = committed_snapshot (eng_storage e),
                     sb_identified_counters = []\<rparr>
                    (policy_store_name policy) (store_schema_hash env e))\<rparr>))"

definition ensure_staging_base_current :: "'r store \<Rightarrow> staging_base \<Rightarrow> unit eresult" where
  "ensure_staging_base_current s base =
     (let current = committed_commit_sequence s in
      if chain_head s \<noteq> sb_chain_head base \<or> current \<noteq> sb_commit_sequence base
         \<or> committed_snapshot s \<noteq> sb_snapshot base
      then Inl (StagingBaseMoved current)
      else if \<exists>(key, start) \<in> set (sb_identified_counters base).
                unwrap_or record_identifier_first (tbl_get (st_identified_counters s) key) \<noteq> start
      then Inl (StagingBaseMoved current)
      else Inr ())"

definition park_staged_group ::
  "'r engine_env \<Rightarrow> 'r engine \<Rightarrow> ('r, stage_receipt option) engine_result" where
  "park_staged_group env e =
     (case eng_staging e of
        None \<Rightarrow> (Inl (StagingSessionNotEngaged ''park_staged_group''), e)
      | Some session \<Rightarrow>
          let e = e\<lparr>eng_staging := None\<rparr> in
          if session_entry_count session = 0 then (Inr None, e)
          else bindS (reads (ensure_staging_base_current (eng_storage e) (ss_base session)) e)
                 (\<lambda>_ e.
               if staging_slot (eng_storage e) \<noteq> None then (Inl StagingSlotOccupied, e)
               else
                 let grp = into_group session;
                     receipt =
                       \<lparr>sr_prospective_head = the (prospective_head grp),
                        sr_entry_count = group_entry_count grp,
                        sr_first_commit_sequence = the (group_first_sequence grp),
                        sr_last_commit_sequence = the (group_last_sequence grp)\<rparr>
                 in bindS (engine_put env (park_in grp) e) (\<lambda>_ e. (Inr (Some receipt), e))))"

definition abandon_staged_group :: "'r engine \<Rightarrow> ('r, unit) engine_result" where
  "abandon_staged_group e = (Inr (), e\<lparr>eng_staging := None\<rparr>)"

definition staged_group_summary_of :: "'r engine \<Rightarrow> staged_group_summary option" where
  "staged_group_summary_of e =
     (case staging_slot (eng_storage e) of
        None \<Rightarrow> None
      | Some grp \<Rightarrow>
          (case (prospective_head grp, group_first_sequence grp, group_last_sequence grp) of
             (Some head, Some first, Some last_sq) \<Rightarrow>
               Some \<lparr>sum_prospective_head = head, sum_base_predecessor = base_predecessor grp,
                     sum_entry_count = group_entry_count grp,
                     sum_first_commit_sequence = first, sum_last_commit_sequence = last_sq\<rparr>
           | _ \<Rightarrow> None))"

definition discard_staged_group ::
  "'r engine_env \<Rightarrow> 'r engine \<Rightarrow> ('r, discard_staged_receipt) engine_result" where
  "discard_staged_group env e =
     (case staging_slot (eng_storage e) of
        None \<Rightarrow> (Inl (StagingSlotEmpty ''discard_staged_group''), e)
      | Some grp \<Rightarrow>
          bindS (reads (ok_or (StagingSlotEmpty ''discard_staged_group'') (prospective_head grp)) e)
            (\<lambda>head e.
          bindS (engine_put env clear_in e) (\<lambda>_ e.
          (Inr \<lparr>ds_prospective_head = head, ds_entry_count = group_entry_count grp\<rparr>, e))))"

section \<open>Materializing a parked group\<close>

text \<open>The verification loop: predecessor, expected sequence and expected snapshot.\<close>

fun verify_group_entries ::
  "'p primitives_scheme \<Rightarrow> commit_sequence \<Rightarrow> digest option \<Rightarrow> commit_sequence
   \<Rightarrow> snapshot_identifier \<Rightarrow> versioned_entry list \<Rightarrow> digest option eresult" where
  "verify_group_entries p current prev sq snap [] = Inr prev"
| "verify_group_entries p current prev sq snap (e # es) =
     (let sq' = commit_sequence_next sq; snap' = snapshot_next snap in
      if ve_previous_entry_digest e \<noteq> prev \<or> ve_commit_sequence e \<noteq> sq' \<or> ve_snapshot e \<noteq> snap'
      then Inl (StagingBaseMoved current)
      else let recomputed = recomputed_digest p e in
           if recomputed \<noteq> ve_entry_digest e
           then Inl (StagedGroupDigestMismatch (ve_commit_sequence e) (ve_entry_digest e) recomputed)
           else verify_group_entries p current (Some (ve_entry_digest e)) sq' snap' es)"

definition identified_advance ::
  "versioned_log_operation \<Rightarrow> (string, u64) tbl \<Rightarrow> (string, u64) tbl" where
  "identified_advance oper advances =
     (case vop_key oper of
        Some (Identifier i) \<Rightarrow>
          if vop_operation oper = Assert
          then tbl_insert (family_identified_counter_key (vop_family oper))
                 (record_identifier_next i) advances
          else advances
      | _ \<Rightarrow> advances)"

definition identified_advances :: "staged_group \<Rightarrow> (string, u64) tbl" where
  "identified_advances g = fold identified_advance (all_operations (sg_entries g)) []"

definition materialize_operation ::
  "'r engine_env \<Rightarrow> family_directory \<Rightarrow> 'r store \<Rightarrow> versioned_log_operation \<Rightarrow> 'r store eresult" where
  "materialize_operation env dir s oper =
     bindR (ok_or (ReplayMissingKey (family (vop_family oper))) (vop_key oper)) (\<lambda>key.
     materialize_row env dir s (view_row_new (vop_family oper) key (vop_payload oper)))"

text \<open>One entry of the group inside the transaction: its rows, both logs, the outbox row.\<close>

definition land_group_entry ::
  "'r engine_env \<Rightarrow> family_directory \<Rightarrow> bool \<Rightarrow> (u64 \<times> u64) \<times> 'r store \<Rightarrow> versioned_entry
   \<Rightarrow> ((u64 \<times> u64) \<times> 'r store) eresult" where
  "land_group_entry env dir mirror acc entry =
     (let ((commit_count, versioned_count), s) = acc in
      bindR (foldR (materialize_operation env dir) s (ne_list (ve_operations entry))) (\<lambda>s1.
      let commit_count' = commit_count + 1; versioned_count' = versioned_count + 1;
          s2 = append_versioned entry versioned_count'
                 (append_commit (entry_of_versioned entry) commit_count' s1);
          s3 = (if mirror then outbox_record entry s2 else s2)
      in Inr ((commit_count', versioned_count'), s3)))"

definition land_group ::
  "'r engine_env \<Rightarrow> family_directory \<Rightarrow> bool \<Rightarrow> log_counts \<Rightarrow> staged_group \<Rightarrow> bool \<Rightarrow> 'r store
   \<Rightarrow> 'r store eresult" where
  "land_group env dir mirror counts g completes s =
     bindR (foldR (land_group_entry env dir mirror) ((lc_commits counts, lc_versioned counts), s)
              (sg_entries g)) (\<lambda>(_, s1).
     let final = last (sg_entries g);
         s2 = counter_insert latest_snapshot_key (ve_snapshot final)
                (counter_insert latest_commit_sequence_key (ve_commit_sequence final) s1);
         s3 = fold (\<lambda>(key, v). identified_counter_insert key v)
                (tbl_iter (identified_advances g)) s2;
         s4 = (if completes
               then s3\<lparr>st_compaction_intent := Some (intent_applied (ve_commit_sequence final))\<rparr>
               else s3)
     in Inr (clear_in s4))"

text \<open>The delta an operation of the group announces after the transaction, if any.\<close>

definition operation_announcement ::
  "staged_group \<Rightarrow> nat \<Rightarrow> snapshot_identifier \<Rightarrow> nat \<times> versioned_log_operation
   \<Rightarrow> delta_announcer option" where
  "operation_announcement g entry_index snap indexed =
     (let oper = snd indexed in
      case vop_key oper of
        None \<Rightarrow> None
      | Some key \<Rightarrow>
          map_option
            (\<lambda>(kind, bs). \<lparr>da_kind = kind, da_family = vop_family oper, da_key = key,
                            da_snapshot = snap, da_bytes = bs\<rparr>)
            (case (vop_operation oper, vop_payload oper) of
               (Assert, PayloadRecord bs) \<Rightarrow> Some (DeltaAssert, bs)
             | (Mutate, PayloadRecord bs) \<Rightarrow> Some (DeltaMutate, bs)
             | (Retract, _) \<Rightarrow>
                 map_option (\<lambda>bs. (DeltaRetract, bs)) (retract_pre_image g entry_index (fst indexed))
             | _ \<Rightarrow> None))"

definition group_announcements :: "staged_group \<Rightarrow> delta_announcer list" where
  "group_announcements g =
     concat (map (\<lambda>(i, entry).
         List.map_filter (operation_announcement g i (ve_snapshot entry))
           (enumerate 0 (ne_list (ve_operations entry)))) (enumerate 0 (sg_entries g)))"

fun announce_all ::
  "'r engine_env \<Rightarrow> family_directory \<Rightarrow> delta_announcer list \<Rightarrow> 'r registry
   \<Rightarrow> (error + unit) \<times> 'r registry" where
  "announce_all env dir [] g = (Inr (), g)"
| "announce_all env dir (a # as) g =
     (case directory_announce env dir a g of
        Inl err \<Rightarrow> (Inl err, g)
      | Inr g' \<Rightarrow> announce_all env dir as g')"

definition intent_planned_pending :: "'r store \<Rightarrow> bool" where
  "intent_planned_pending s \<longleftrightarrow>
     (case st_compaction_intent s of None \<Rightarrow> False | Some intent \<Rightarrow> intent_is_planned intent)"

definition materialize_staged_group ::
  "'r engine_env \<Rightarrow> family_directory \<Rightarrow> 'r engine \<Rightarrow> ('r, materialize_staged_receipt) engine_result"
  where
  "materialize_staged_group env dir e =
     (if eng_staging e \<noteq> None then (Inl StagingSessionEngaged, e)
      else case staging_slot (eng_storage e) of
        None \<Rightarrow> (Inl (StagingSlotEmpty ''materialize_staged_group''), e)
      | Some grp \<Rightarrow>
          let s = eng_storage e; current_head = chain_head s;
              current_sequence = committed_commit_sequence s;
              current_snapshot = committed_snapshot s in
          if base_predecessor grp \<noteq> current_head then (Inl (StagingBaseMoved current_sequence), e)
          else
            bindS (reads (verify_group_entries env current_sequence current_head current_sequence
                            current_snapshot (sg_entries grp)) e) (\<lambda>previous e.
            bindS (reads (ok_or (StagingSlotEmpty ''materialize_staged_group'')
                            (prospective_head grp)) e) (\<lambda>staged_head e.
            let produced = the previous in
            if produced \<noteq> staged_head then (Inl (StagedHeadMismatch staged_head produced), e)
            else
              let final = last (sg_entries grp);
                  counts = log_counts (eng_storage e);
                  completes = intent_planned_pending (eng_storage e);
                  mirror = writes_mirror_outbox (eng_policy e) in
              bindS (engine_write env
                       (\<lambda>s. bindR (lift_storage (land_group env dir mirror counts grp completes s))
                              (\<lambda>s'. Inr ((), s'))) e) (\<lambda>_ e.
              case announce_all env dir (group_announcements grp) (eng_subscriptions e) of
                (r, g) \<Rightarrow>
                  bindS (r, e\<lparr>eng_subscriptions := g\<rparr>) (\<lambda>_ e.
                  (Inr \<lparr>ms_head = staged_head, ms_commit_sequence = ve_commit_sequence final,
                        ms_snapshot = ve_snapshot final,
                        ms_entry_count = group_entry_count grp\<rparr>, e))))))"

section \<open>Resumable compaction\<close>

definition compaction_intent_of :: "'r engine \<Rightarrow> compaction_intent option" where
  "compaction_intent_of e = st_compaction_intent (eng_storage e)"

definition inject_compaction_fault :: "compaction_fault \<Rightarrow> 'r engine \<Rightarrow> 'r engine" where
  "inject_compaction_fault fault e = e\<lparr>eng_fault := Some fault\<rparr>"

fun fault_phase :: "compaction_fault \<Rightarrow> string" where
  "fault_phase AfterPlanPersisted = ''plan-persisted''"
| "fault_phase AfterRetractionsApplied = ''retractions-applied''"
| "fault_phase AfterCheckpointPublished = ''checkpoint-published''"
| "fault_phase AfterHistoryFloorAdvanced = ''history-floor-advanced''"

definition interrupt_compaction_at :: "compaction_fault \<Rightarrow> 'r engine \<Rightarrow> ('r, unit) engine_result" where
  "interrupt_compaction_at phase e =
     (if eng_fault e = Some phase
      then (Inl (CompactionInterrupted (fault_phase phase)), e\<lparr>eng_fault := None\<rparr>)
      else (Inr (), e))"

definition begin_compaction :: "'r engine_env \<Rightarrow> 'r engine \<Rightarrow> ('r, unit) engine_result" where
  "begin_compaction env e =
     (if compaction_intent_of e \<noteq> None then (Inl CompactionIntentOccupied, e)
      else begin_staged_group env e)"

definition put_intent :: "compaction_intent option \<Rightarrow> 'r store \<Rightarrow> 'r store" where
  "put_intent intent s = s\<lparr>st_compaction_intent := intent\<rparr>"

definition park_compaction :: "'r engine_env \<Rightarrow> 'r engine \<Rightarrow> ('r, bool) engine_result" where
  "park_compaction env e =
     (case eng_staging e of
        None \<Rightarrow> (Inl (StagingSessionNotEngaged ''park_compaction''), e)
      | Some session \<Rightarrow>
          let e = e\<lparr>eng_staging := None\<rparr> in
          if session_entry_count session = 0 then (Inr False, e)
          else bindS (reads (ensure_staging_base_current (eng_storage e) (ss_base session)) e)
                 (\<lambda>_ e.
               if staging_slot (eng_storage e) \<noteq> None \<or> compaction_intent_of e \<noteq> None
               then (Inl CompactionIntentOccupied, e)
               else bindS (engine_put env
                             (\<lambda>s. put_intent (Some intent_planned) (park_in (into_group session) s)) e)
                      (\<lambda>_ e.
                    bindS (interrupt_compaction_at AfterPlanPersisted e) (\<lambda>_ e. (Inr True, e)))))"

text \<open>The \<open>Applied\<close> phase up to the point where its successor phase is durable.\<close>

definition publish_compaction_checkpoint ::
  "'r engine_env \<Rightarrow> compaction_intent \<Rightarrow> 'r engine \<Rightarrow> ('r, unit) engine_result" where
  "publish_compaction_checkpoint env intent e =
     bindS (reads (ok_or CompactionIntentMissingSequence (intent_final_sequence intent)) e)
       (\<lambda>final_sequence e.
     bindS (reads (latest_checkpoint env (eng_storage e)) e) (\<lambda>found e.
     let covers = (case found of
           None \<Rightarrow> False
         | Some c \<Rightarrow> csr_last (cm_covered (ck_metadata c)) \<ge> final_sequence) in
     bindS (if covers then (Inr (), e)
            else bindS (take_checkpoint env e) (\<lambda>_ e. (Inr (), e))) (\<lambda>_ e.
     bindS (reads (bindR (latest_checkpoint env (eng_storage e))
                     (ok_or (CheckpointRowMissing 0))) e) (\<lambda>c e.
     if csr_last (cm_covered (ck_metadata c)) < final_sequence
     then (Inl (CompactionCheckpointBehind (csr_last (cm_covered (ck_metadata c))) final_sequence), e)
     else bindS (engine_put env (put_intent (Some (intent_checkpointed final_sequence))) e) (\<lambda>_ e.
          interrupt_compaction_at AfterCheckpointPublished e)))))"

definition finish_compaction :: "'r engine_env \<Rightarrow> 'r engine \<Rightarrow> ('r, unit) engine_result" where
  "finish_compaction env e =
     bindS (compact_configured_versioned_history env e) (\<lambda>_ e.
     bindS (interrupt_compaction_at AfterHistoryFloorAdvanced e) (\<lambda>_ e.
     engine_put env (put_intent None) e))"

text \<open>The recursion of \<open>resume_compaction\<close>: every call either ends or starts over in a later phase.
  Fuel bounds it; \<open>resume_compaction\<close> uses 4 calls, which suffice (Resume_Theorems).\<close>

fun resume_loop ::
  "nat \<Rightarrow> 'r engine_env \<Rightarrow> family_directory \<Rightarrow> 'r engine \<Rightarrow> (error + unit) option \<times> 'r engine" where
  "resume_loop 0 env dir e = (None, e)"
| "resume_loop (Suc n) env dir e =
     (case compaction_intent_of e of
        None \<Rightarrow> (Some (Inr ()), e)
      | Some intent \<Rightarrow>
          (case intent_phase intent of
             Planned \<Rightarrow>
               (case bindS (materialize_staged_group env dir e)
                       (\<lambda>_ e. interrupt_compaction_at AfterRetractionsApplied e) of
                  (Inl err, e') \<Rightarrow> (Some (Inl err), e')
                | (Inr _, e') \<Rightarrow> resume_loop n env dir e')
           | Applied \<Rightarrow>
               (case publish_compaction_checkpoint env intent e of
                  (Inl err, e') \<Rightarrow> (Some (Inl err), e')
                | (Inr _, e') \<Rightarrow> resume_loop n env dir e')
           | Checkpointed \<Rightarrow>
               (case finish_compaction env e of (r, e') \<Rightarrow> (Some r, e'))))"

definition resume_compaction ::
  "'r engine_env \<Rightarrow> family_directory \<Rightarrow> 'r engine \<Rightarrow> (error + unit) option \<times> 'r engine" where
  "resume_compaction env dir e = resume_loop 4 env dir e"

end
