(* ===== verification/Engine_Lifecycle.thy ===== *)
theory Engine_Lifecycle
  imports Engine_Groups
begin

text \<open>
  Opening a store, importing a checkpoint into a fresh one, replaying a versioned log and subscribing
  (src/engine.rs, src/import.rs).  The storage kernel's own open (paths, schema version) is outside the
  repository: an open here starts from the store it found.
\<close>

section \<open>Opening\<close>

datatype layout_open_plan = LayoutCurrent | StampFresh | RebuildDerivedSlots

definition validated_storage_layout :: "'r store \<Rightarrow> layout_open_plan eresult" where
  "validated_storage_layout s =
     (case counter_get s storage_layout_key of
        Some layout \<Rightarrow>
          if layout = storage_layout then Inr LayoutCurrent
          else if layout > storage_layout then Inl (StorageLayoutMismatch layout storage_layout)
          else if versioned_log_present s then Inr RebuildDerivedSlots
          else Inl (StorageLayoutMismatch layout storage_layout)
      | None \<Rightarrow>
          let has_engine_history =
                counter_get s latest_commit_sequence_key \<noteq> None
                \<or> counter_get s latest_snapshot_key \<noteq> None
                \<or> counter_get s next_subscription_key \<noteq> None in
          if has_engine_history then Inl (StorageLayoutMismatch layout_before_slot storage_layout)
          else Inr StampFresh)"

definition apply_layout_plan ::
  "'r engine_env \<Rightarrow> layout_open_plan \<Rightarrow> 'r store \<Rightarrow> (error + unit) \<times> 'r store" where
  "apply_layout_plan env plan s =
     (case plan of
        LayoutCurrent \<Rightarrow> (Inr (), s)
      | StampFresh \<Rightarrow> store_put env (counter_insert storage_layout_key storage_layout) s
      | RebuildDerivedSlots \<Rightarrow> rebuild_derived_slots env storage_layout_key storage_layout s)"

definition ensure_durable_versioning_policy ::
  "'r engine_env \<Rightarrow> versioning_policy option \<Rightarrow> 'r store \<Rightarrow> (error + unit) \<times> 'r store" where
  "ensure_durable_versioning_policy env requested s =
     (case (st_policy s, requested) of
        (Some _, None) \<Rightarrow> (Inl VersioningPolicyRequired, s)
      | (Some recorded, Some wanted) \<Rightarrow>
          if recorded = wanted then (Inr (), s) else (Inl VersioningPolicyMismatch, s)
      | (None, None) \<Rightarrow> (Inr (), s)
      | (None, Some wanted) \<Rightarrow> store_put env (\<lambda>t. t\<lparr>st_policy := Some wanted\<rparr>) s)"

definition open_unrecovered ::
  "'r engine_env \<Rightarrow> versioning_policy option \<Rightarrow> 'r store \<Rightarrow> (error + 'r engine) \<times> 'r store" where
  "open_unrecovered env policy s =
     bindS (validated_storage_layout s, s) (\<lambda>plan s.
     let registrations = map snd (tbl_iter (st_catalog s)) in
     bindS (apply_layout_plan env plan s) (\<lambda>_ s.
     bindS (ensure_durable_versioning_policy env policy s) (\<lambda>_ s.
     (Inr \<lparr>eng_storage = s, eng_catalog = registrations, eng_subscriptions = registry_new,
           eng_policy = policy, eng_staging = None, eng_fault = None\<rparr>, s))))"

definition engine_open ::
  "'r engine_env \<Rightarrow> versioning_policy option \<Rightarrow> 'r store \<Rightarrow> (error + 'r engine) \<times> 'r store" where
  "engine_open env policy s =
     bindS (open_unrecovered env policy s) (\<lambda>e s.
     case compaction_intent_of e of
       Some intent \<Rightarrow> (Inl (CompactionRecoveryRequired (intent_phase intent)), s)
     | None \<Rightarrow> (Inr e, s))"

definition open_recovering ::
  "'r engine_env \<Rightarrow> family_directory \<Rightarrow> versioning_policy option \<Rightarrow> 'r store
   \<Rightarrow> (error + 'r engine) option \<times> 'r store" where
  "open_recovering env dir policy s =
     (case open_unrecovered env policy s of
        (Inl err, s) \<Rightarrow> (Some (Inl err), s)
      | (Inr e, s) \<Rightarrow>
          (case resume_compaction env dir e of
             (None, e) \<Rightarrow> (None, eng_storage e)
           | (Some (Inl err), e) \<Rightarrow> (Some (Inl err), eng_storage e)
           | (Some (Inr _), e) \<Rightarrow>
               (case maintain_versioned_history env e of
                  (Inl err, e) \<Rightarrow> (Some (Inl err), eng_storage e)
                | (Inr _, e) \<Rightarrow> (Some (Inr e), eng_storage e))))"

section \<open>Import\<close>

record import_session =
  isn_checkpoint :: "checkpoint option"
  isn_suffix :: "versioned_entry list"

definition import_session_new :: import_session where
  "import_session_new = \<lparr>isn_checkpoint = None, isn_suffix = []\<rparr>"

definition ingest_checkpoint ::
  "'p primitives_scheme \<Rightarrow> checkpoint \<Rightarrow> import_session \<Rightarrow> (error + unit) \<times> import_session" where
  "ingest_checkpoint p c session =
     (if isn_checkpoint session \<noteq> None then (Inl ImportCheckpointAlreadyIngested, session)
      else bindS (verify p c, session) (\<lambda>_ session.
           (Inr (), session\<lparr>isn_checkpoint := Some c\<rparr>)))"

definition ingest_suffix :: "versioned_entry list \<Rightarrow> import_session \<Rightarrow> import_session" where
  "ingest_suffix entries session = session\<lparr>isn_suffix := isn_suffix session @ entries\<rparr>"

record import_receipt =
  irc_covered :: commit_sequence_range
  irc_suffix_count :: nat
  irc_view_digest :: digest
  irc_row_count :: nat
  irc_commit_sequence :: commit_sequence
  irc_snapshot :: snapshot_identifier

definition ensure_fresh_for_import :: "'r engine \<Rightarrow> unit eresult" where
  "ensure_fresh_for_import e =
     (let s = eng_storage e in
      ensure (eng_catalog e = [] \<and> counter_get s latest_commit_sequence_key = None
              \<and> counter_get s latest_snapshot_key = None \<and> counter_get s latest_checkpoint_key = None
              \<and> tbl_iter (st_catalog s) = [] \<and> logs_empty s)
        ImportStoreNotFresh)"

definition begin_import :: "'r engine \<Rightarrow> import_session eresult" where
  "begin_import e =
     (if eng_policy e = None then Inl (versioning_not_enabled ''import'')
      else bindR (ensure_fresh_for_import e) (\<lambda>_. Inr import_session_new))"

text \<open>One suffix entry inside the import transaction, with its position from 1.\<close>

definition import_entry :: "bool \<Rightarrow> nat \<times> versioned_entry \<Rightarrow> 'r store \<Rightarrow> 'r store" where
  "import_entry mirror indexed s =
     (let count = of_nat (fst indexed) + 1; entry = snd indexed;
          s1 = append_versioned entry count s;
          s2 = (if mirror then outbox_record entry s1 else s1)
      in append_commit (entry_of_versioned entry) count s2)"

definition land_import ::
  "'r engine_env \<Rightarrow> family_directory \<Rightarrow> bool \<Rightarrow> checkpoint \<Rightarrow> versioned_entry list
   \<Rightarrow> materialize_rows \<Rightarrow> commit_sequence \<Rightarrow> snapshot_identifier \<Rightarrow> 'r store \<Rightarrow> 'r store eresult"
  where
  "land_import env dir mirror c suffix materialize sq snap s =
     (let m = ck_metadata c; inventory = cm_family_inventory m;
          s1 = fold (\<lambda>f. catalog_row_insert (family_table_name f) (registration_new f))
                 (fi_families inventory) s;
          s2 = fold (\<lambda>ctr. identified_counter_insert (ic_counter_key ctr) (ic_next_identifier ctr))
                 (fi_identified_counters inventory) s1;
          s3 = publish_checkpoint env m (ck_segments c) s2;
          s4 = fold (import_entry mirror) (enumerate 0 suffix) s3;
          s5 = counter_insert latest_snapshot_key snap
                 (counter_insert latest_commit_sequence_key sq s4)
      in materialize_rows_in env dir (materialize_iter materialize) s5)"

fun catalog_insert_all :: "table_registration list \<Rightarrow> 'r engine \<Rightarrow> ('r, unit) engine_result" where
  "catalog_insert_all [] e = (Inr (), e)"
| "catalog_insert_all (r # rs) e =
     bindS (reads (catalog_insert (eng_catalog e) r) e)
       (\<lambda>c e. catalog_insert_all rs (e\<lparr>eng_catalog := c\<rparr>))"

definition apply_import ::
  "'r engine_env \<Rightarrow> checkpoint \<Rightarrow> versioned_entry list \<Rightarrow> family_directory \<Rightarrow> 'r engine
   \<Rightarrow> ('r, import_receipt) engine_result" where
  "apply_import env c suffix dir e =
     (case eng_policy e of
        None \<Rightarrow> (Inl (versioning_not_enabled ''import''), e)
      | Some policy \<Rightarrow>
          let mirror = policy_recovery_topology policy = Mirror;
              m = ck_metadata c;
              families = fi_families (cm_family_inventory m);
              derived = store_schema_of_families env families in
          if cm_store_name m \<noteq> policy_store_name policy
          then (Inl (ImportStoreNameMismatch (cm_store_name m) (policy_store_name policy)), e)
          else if derived \<noteq> cm_store_schema_hash m
          then (Inl (CheckpointSchemaMismatch (cm_store_schema_hash m) derived), e)
          else
            bindS (reads (ensure_fresh_for_import e) e) (\<lambda>_ e.
            bindS (reads (canonical_fold env (checkpoint_rows c) suffix
                            (Some (cm_covered_entry_digest m))) e) (\<lambda>view e.
            let vdigest = view_digest env view in
            bindS (reads (into_rows view families) e) (\<lambda>materialize e.
            let (sq, snap) = (case last_entry suffix of
                  Some entry \<Rightarrow> (ve_commit_sequence entry, ve_snapshot entry)
                | None \<Rightarrow> (csr_last (cm_covered m), cm_covered_snapshot m)) in
            bindS (engine_write env
                     (\<lambda>s. bindR (lift_storage (land_import env dir mirror c suffix materialize sq snap s))
                            (\<lambda>s'. Inr ((), s'))) e) (\<lambda>_ e.
            bindS (catalog_insert_all (map registration_new families) e) (\<lambda>_ e.
            (Inr \<lparr>irc_covered = cm_covered m, irc_suffix_count = length suffix,
                  irc_view_digest = vdigest, irc_row_count = length (mr_rows materialize),
                  irc_commit_sequence = sq, irc_snapshot = snap\<rparr>, e)))))))"

definition import_commit ::
  "'r engine_env \<Rightarrow> import_session \<Rightarrow> family_directory \<Rightarrow> 'r engine
   \<Rightarrow> ('r, import_receipt) engine_result" where
  "import_commit env session dir e =
     (case isn_checkpoint session of
        None \<Rightarrow> (Inl ImportMissingCheckpoint, e)
      | Some c \<Rightarrow> apply_import env c (isn_suffix session) dir e)"

section \<open>Replay\<close>

record replay_receipt =
  rpr_applied :: nat
  rpr_skipped :: nat

definition replayed_record ::
  "'r engine_env \<Rightarrow> string \<Rightarrow> versioned_payload \<Rightarrow> 'r eresult" where
  "replayed_record env table payload =
     (case payload_bytes payload of
        None \<Rightarrow> Inl (ReplayTombstonePayload table)
      | Some bs \<Rightarrow> decode_payload env table bs)"

definition replay_operation ::
  "'r engine_env \<Rightarrow> string \<Rightarrow> family_identity \<Rightarrow> versioned_log_operation \<Rightarrow> 'r engine
   \<Rightarrow> ('r, unit) engine_result" where
  "replay_operation env table registered oper e =
     bindS (reads (ok_or (ReplayMissingKey (family registered)) (vop_key oper)) e) (\<lambda>key e.
     case vop_operation oper of
       Assert \<Rightarrow>
         bindS (reads (replayed_record env table (vop_payload oper)) e) (\<lambda>r e.
         bindS (assert_keyed env \<lparr>ka_table = table, ka_key = key, ka_record = r\<rparr> e)
           (\<lambda>_ e. (Inr (), e)))
     | Mutate \<Rightarrow>
         bindS (reads (replayed_record env table (vop_payload oper)) e) (\<lambda>r e.
         bindS (mutate_keyed env \<lparr>km_table = table, km_key = key, km_record = r\<rparr> e)
           (\<lambda>_ e. (Inr (), e)))
     | Retract \<Rightarrow>
         bindS (engine_retract env \<lparr>rt_table = table, rt_key = key\<rparr> e) (\<lambda>_ e. (Inr (), e))
     | other \<Rightarrow> (Inl (ReplayUnsupportedOperation (as_record_head env other)), e))"

fun replay_loop ::
  "'r engine_env \<Rightarrow> string \<Rightarrow> family_identity \<Rightarrow> versioned_log_operation list \<Rightarrow> nat \<Rightarrow> nat
   \<Rightarrow> 'r engine \<Rightarrow> ('r, replay_receipt) engine_result" where
  "replay_loop env table registered [] applied skipped e =
     (Inr \<lparr>rpr_applied = applied, rpr_skipped = skipped\<rparr>, e)"
| "replay_loop env table registered (oper # opers) applied skipped e =
     (if \<not> shares_family (vop_family oper) registered
      then replay_loop env table registered opers applied (skipped + 1) e
      else bindS (replay_operation env table registered oper e)
             (\<lambda>_ e. replay_loop env table registered opers (applied + 1) skipped e))"

definition replay_versioned ::
  "'r engine_env \<Rightarrow> string \<Rightarrow> versioned_entry list \<Rightarrow> 'r engine \<Rightarrow> ('r, replay_receipt) engine_result"
  where
  "replay_versioned env table entries e =
     bindS (reads (ensure_registered e table) e) (\<lambda>_ e.
     bindS (reads (registered_family e table) e) (\<lambda>registered e.
     replay_loop env table registered (all_operations entries) 0 0 e))"

section \<open>Subscribing\<close>

definition next_subscription_handle ::
  "'r store \<Rightarrow> query_plan \<Rightarrow> snapshot_identifier \<Rightarrow> subscription_handle" where
  "next_subscription_handle s plan snap =
     \<lparr>sh_id = unwrap_or subscription_first (counter_get s next_subscription_key),
      sh_table = plan_table plan, sh_snapshot = snap\<rparr>"

definition persist_subscription ::
  "subscription_handle \<Rightarrow> query_filter \<Rightarrow> 'r store \<Rightarrow> 'r store" where
  "persist_subscription handle f s =
     counter_insert next_subscription_key (subscription_next (sh_id handle))
       (s\<lparr>st_subscriptions :=
           tbl_insert (sh_id handle) (subscription_registration_new handle f) (st_subscriptions s)\<rparr>)"

definition engine_subscribe ::
  "'r engine_env \<Rightarrow> query_plan \<Rightarrow> 'r sink \<Rightarrow> 'r engine \<Rightarrow> ('r, 'r subscription_receipt) engine_result"
  where
  "engine_subscribe env plan snk e =
     bindS (reads (match_records env plan e) e) (\<lambda>snapshot e.
     let handle = next_subscription_handle (eng_storage e) plan
                    (marker_snapshot (qs_marker snapshot));
         initial = \<lparr>isn_handle = handle, isn_snapshot = snapshot\<rparr>;
         g = eng_subscriptions e;
         e1 = e\<lparr>eng_subscriptions :=
                  g\<lparr>reg_delivered := reg_delivered g @ [(handle, InitialEvent initial)]\<rparr>\<rparr>
     in case sink_deliver snk (InitialEvent initial) of
          Some err \<Rightarrow> (Inl (SubscriptionSink (sink_message err)), e1)
        | None \<Rightarrow>
            bindS (engine_put env (persist_subscription handle (plan_filter plan)) e1) (\<lambda>_ e.
            (Inr \<lparr>src_handle = handle, src_initial = initial\<rparr>,
             e\<lparr>eng_subscriptions :=
                 registry_add (active_subscription_new handle plan snk)
                   (eng_subscriptions e)\<rparr>)))"

definition subscription_registrations :: "'r store \<Rightarrow> subscription_registration list" where
  "subscription_registrations s = map snd (tbl_iter (st_subscriptions s))"

end
