(* ===== verification/Engine_Invariants.thy ===== *)
theory Engine_Invariants
  imports Engine_Lifecycle
begin

text \<open>
  The invariant of the engine's history, and that every commit keeps it: both logs are indexed by the
  sequence of their rows and counted by the persisted counters, and the latest checkpoint together with
  the log after it is a verified chain that ends in the stored chain head, so a rebuild can fold it.
\<close>

section \<open>Appending to an ordered table\<close>

lemma tbl_insert_last:
  "\<forall>x \<in> set (map fst t). x < k \<Longrightarrow> tbl_insert k v t = t @ [(k, v)]"
  by (induction k v t rule: tbl_insert.induct) auto

lemma tbl_from_append: "tbl_from k (t @ u) = tbl_from k t @ tbl_from k u"
  by (simp add: tbl_from_def)

lemma tbl_from_all: "\<forall>x \<in> set (map fst t). k \<le> x \<Longrightarrow> tbl_from k t = t"
  by (simp add: tbl_from_def filter_id_conv)

lemma tbl_from_none: "\<forall>x \<in> set (map fst t). x < k \<Longrightarrow> tbl_from k t = []"
  by (auto simp: tbl_from_def filter_empty_conv not_le)

section \<open>Log rows\<close>

text \<open>A log is indexed by its rows' sequences, none above \<open>limit\<close>, and has \<open>n\<close> rows.\<close>

definition log_indexed :: "('a \<Rightarrow> u64) \<Rightarrow> u64 \<Rightarrow> u64 \<Rightarrow> (u64, 'a) tbl \<Rightarrow> bool" where
  "log_indexed sq limit n t \<longleftrightarrow>
     tbl_ok t \<and> n = of_nat (length t) \<and> (\<forall>r \<in> set t. sq (snd r) = fst r \<and> fst r \<le> limit)"

lemma log_indexed_append:
  assumes "log_indexed sq limit n t" and "limit < sq x"
  shows "tbl_insert (sq x) x t = t @ [(sq x, x)]"
    and "log_indexed sq (sq x) (n + 1) (t @ [(sq x, x)])"
proof -
  have below: "\<forall>k \<in> set (map fst t). k < sq x"
    using assms by (auto simp: log_indexed_def)
  then show "tbl_insert (sq x) x t = t @ [(sq x, x)]"
    by (rule tbl_insert_last)
  show "log_indexed sq (sq x) (n + 1) (t @ [(sq x, x)])"
    using assms below
    by (auto simp: log_indexed_def tbl_ok_def sorted_wrt_append)
qed

definition logs_ok :: "'r store \<Rightarrow> bool" where
  "logs_ok s \<longleftrightarrow>
     log_indexed cle_commit_sequence (committed_commit_sequence s) (lc_commits (log_counts s))
       (st_commit_log s)
     \<and> log_indexed ve_commit_sequence (committed_commit_sequence s) (lc_versioned (log_counts s))
         (st_versioned_log s)"

section \<open>Recoverable stores\<close>

definition resume_head :: "checkpoint option \<Rightarrow> digest option" where
  "resume_head c = fst (snd (resume_point c))"

definition resume_after :: "checkpoint option \<Rightarrow> commit_sequence" where
  "resume_after c = snd (snd (resume_point c))"

definition log_suffix :: "'r store \<Rightarrow> checkpoint option \<Rightarrow> versioned_entry list" where
  "log_suffix s c = versioned_entries_from s (commit_sequence_next (resume_after c))"

definition recoverable :: "'r engine_env \<Rightarrow> 'r store \<Rightarrow> bool" where
  "recoverable env s \<longleftrightarrow>
     (\<exists>c. latest_checkpoint env s = Inr c \<and> resume_after c \<le> committed_commit_sequence s
        \<and> chain_verified env (resume_head c) (log_suffix s c)
        \<and> list_all op_applicable (all_operations (log_suffix s c))
        \<and> chain_head s = chain_end (resume_head c) (log_suffix s c))"

text \<open>The store of a versioned engine: its history is recoverable, its checkpoints are filed under
  their own sequences, and the metadata log is the projection of the versioned log.\<close>

definition checkpoints_keyed :: "'r store \<Rightarrow> bool" where
  "checkpoints_keyed s \<longleftrightarrow>
     tbl_ok (st_checkpoints s) \<and> (\<forall>r \<in> set (st_checkpoints s). cm_sequence (snd r) = fst r)"

definition logs_agree :: "'r store \<Rightarrow> bool" where
  "logs_agree s \<longleftrightarrow>
     st_commit_log s = map (\<lambda>(k, v). (k, entry_of_versioned v)) (st_versioned_log s)"

definition history_ok :: "'r engine_env \<Rightarrow> 'r store \<Rightarrow> bool" where
  "history_ok env s \<longleftrightarrow> logs_ok s \<and> recoverable env s \<and> checkpoints_keyed s \<and> logs_agree s"

lemma history_ok_empty: "history_ok env store_empty"
  by (simp add: history_ok_def logs_ok_def log_indexed_def recoverable_def latest_checkpoint_def
      resume_after_def resume_head_def resume_point_def log_suffix_def versioned_entries_from_def
      log_counts_def store_empty_def counter_get_def tbl_from_def all_operations_def chain_end_def
      chain_head_def commit_sequence_genesis_def checkpoints_keyed_def logs_agree_def)

lemma logs_agree_counts:
  "logs_ok s \<Longrightarrow> logs_agree s \<Longrightarrow> lc_commits (log_counts s) = lc_versioned (log_counts s)"
  by (simp add: logs_ok_def log_indexed_def logs_agree_def)

section \<open>Landing a commit\<close>

lemma counter_keys_differ:
  "distinct [latest_commit_sequence_key, latest_snapshot_key, next_subscription_key,
     latest_checkpoint_key, storage_layout_key, commit_log_count_key, versioned_log_count_key]"
  by simp

declare counter_keys [simp del]

lemmas counter_key_neqs [simp] =
  counter_keys_differ [simplified] counter_keys_differ [THEN distinct_rev [THEN iffD2], simplified]

lemma counter_insert_sel [simp, engine_simps]:
  "st_catalog (counter_insert k v s) = st_catalog s"
  "st_commit_log (counter_insert k v s) = st_commit_log s"
  "st_versioned_log (counter_insert k v s) = st_versioned_log s"
  "st_chain_head (counter_insert k v s) = st_chain_head s"
  "st_outbox (counter_insert k v s) = st_outbox s"
  "st_mirror_cursor (counter_insert k v s) = st_mirror_cursor s"
  "st_staging_slot (counter_insert k v s) = st_staging_slot s"
  "st_checkpoints (counter_insert k v s) = st_checkpoints s"
  "st_segments (counter_insert k v s) = st_segments s"
  "st_subscriptions (counter_insert k v s) = st_subscriptions s"
  "st_identified_counters (counter_insert k v s) = st_identified_counters s"
  "st_policy (counter_insert k v s) = st_policy s"
  "st_compaction_intent (counter_insert k v s) = st_compaction_intent s"
  "st_rows (counter_insert k v s) = st_rows s"
  "st_identified_rows (counter_insert k v s) = st_identified_rows s"
  by (simp_all add: counter_insert_def)

lemma counter_get_cong: "st_counters s = st_counters t \<Longrightarrow> counter_get s k = counter_get t k"
  by (simp add: counter_get_def)

lemma append_commit_sel [simp, engine_simps]:
  "st_catalog (append_commit en n s) = st_catalog s"
  "st_commit_log (append_commit en n s) = tbl_insert (cle_commit_sequence en) en (st_commit_log s)"
  "st_versioned_log (append_commit en n s) = st_versioned_log s"
  "st_chain_head (append_commit en n s) = st_chain_head s"
  "st_outbox (append_commit en n s) = st_outbox s"
  "st_mirror_cursor (append_commit en n s) = st_mirror_cursor s"
  "st_staging_slot (append_commit en n s) = st_staging_slot s"
  "st_checkpoints (append_commit en n s) = st_checkpoints s"
  "st_segments (append_commit en n s) = st_segments s"
  "st_identified_counters (append_commit en n s) = st_identified_counters s"
  "st_policy (append_commit en n s) = st_policy s"
  "st_compaction_intent (append_commit en n s) = st_compaction_intent s"
  "st_rows (append_commit en n s) = st_rows s"
  "st_identified_rows (append_commit en n s) = st_identified_rows s"
  "counter_get (append_commit en n s) k = (if k = commit_log_count_key then Some n else counter_get s k)"
  by (simp_all add: append_commit_def cong: if_cong) (simp add: counter_get_def)

lemma insert_versioned_entry_sel [simp, engine_simps]:
  "st_catalog (insert_versioned_entry policy v n s) = st_catalog s"
  "st_commit_log (insert_versioned_entry policy v n s) = st_commit_log s"
  "st_versioned_log (insert_versioned_entry policy v n s) =
     (case v of None \<Rightarrow> st_versioned_log s
      | Some w \<Rightarrow> tbl_insert (ve_commit_sequence w) w (st_versioned_log s))"
  "st_chain_head (insert_versioned_entry policy v n s) =
     (case v of None \<Rightarrow> st_chain_head s | Some w \<Rightarrow> Some (ve_entry_digest w))"
  "st_outbox (insert_versioned_entry policy v n s) =
     (case v of None \<Rightarrow> st_outbox s
      | Some w \<Rightarrow> if writes_mirror_outbox policy
          then tbl_insert (ve_commit_sequence w) (outbox_entry_of w) (st_outbox s) else st_outbox s)"
  "st_mirror_cursor (insert_versioned_entry policy v n s) = st_mirror_cursor s"
  "st_staging_slot (insert_versioned_entry policy v n s) = st_staging_slot s"
  "st_checkpoints (insert_versioned_entry policy v n s) = st_checkpoints s"
  "st_segments (insert_versioned_entry policy v n s) = st_segments s"
  "st_identified_counters (insert_versioned_entry policy v n s) = st_identified_counters s"
  "st_policy (insert_versioned_entry policy v n s) = st_policy s"
  "st_compaction_intent (insert_versioned_entry policy v n s) = st_compaction_intent s"
  "st_rows (insert_versioned_entry policy v n s) = st_rows s"
  "st_identified_rows (insert_versioned_entry policy v n s) = st_identified_rows s"
  "counter_get (insert_versioned_entry policy v n s) k =
     (if k = versioned_log_count_key \<and> v \<noteq> None then Some n else counter_get s k)"
  by (simp_all add: insert_versioned_entry_def append_versioned_def outbox_record_def Let_def
      split: option.splits) (simp add: counter_get_def counter_insert_def table_simps)

lemma land_commit_sel [simp, engine_simps]:
  "st_catalog (land_commit policy n en v sq snap s) = st_catalog s"
  "st_commit_log (land_commit policy n en v sq snap s) =
     tbl_insert (cle_commit_sequence en) en (st_commit_log s)"
  "st_versioned_log (land_commit policy n en v sq snap s) =
     (case v of None \<Rightarrow> st_versioned_log s
      | Some w \<Rightarrow> tbl_insert (ve_commit_sequence w) w (st_versioned_log s))"
  "st_chain_head (land_commit policy n en v sq snap s) =
     (case v of None \<Rightarrow> st_chain_head s | Some w \<Rightarrow> Some (ve_entry_digest w))"
  "st_outbox (land_commit policy n en v sq snap s) =
     (case v of None \<Rightarrow> st_outbox s
      | Some w \<Rightarrow> if writes_mirror_outbox policy
          then tbl_insert (ve_commit_sequence w) (outbox_entry_of w) (st_outbox s) else st_outbox s)"
  "st_mirror_cursor (land_commit policy n en v sq snap s) = st_mirror_cursor s"
  "st_staging_slot (land_commit policy n en v sq snap s) = st_staging_slot s"
  "st_checkpoints (land_commit policy n en v sq snap s) = st_checkpoints s"
  "st_segments (land_commit policy n en v sq snap s) = st_segments s"
  "st_identified_counters (land_commit policy n en v sq snap s) = st_identified_counters s"
  "st_policy (land_commit policy n en v sq snap s) = st_policy s"
  "st_compaction_intent (land_commit policy n en v sq snap s) = st_compaction_intent s"
  "st_rows (land_commit policy n en v sq snap s) = st_rows s"
  "st_identified_rows (land_commit policy n en v sq snap s) = st_identified_rows s"
  by (simp_all add: land_commit_def split: option.split)

lemma land_commit_counters [simp, engine_simps]:
  "committed_commit_sequence (land_commit policy n en v sq snap s) = sq"
  "committed_snapshot (land_commit policy n en v sq snap s) = snap"
  "counter_get (land_commit policy n en v sq snap s) latest_checkpoint_key =
     counter_get s latest_checkpoint_key"
  "log_counts (land_commit policy n en v sq snap s) =
     \<lparr>lc_commits = next_commit n,
      lc_versioned = (if v = None then lc_versioned (log_counts s) else next_versioned n)\<rparr>"
  by (simp_all add: land_commit_def committed_commit_sequence_def committed_snapshot_def
      log_counts_def)

lemma load_segment_cong:
  "st_segments s = st_segments t \<Longrightarrow> load_segment s = load_segment t"
  by (simp add: load_segment_def fun_eq_iff)

lemma latest_checkpoint_cong:
  "counter_get s latest_checkpoint_key = counter_get t latest_checkpoint_key \<Longrightarrow>
   st_checkpoints s = st_checkpoints t \<Longrightarrow> st_segments s = st_segments t \<Longrightarrow>
   latest_checkpoint env s = latest_checkpoint env t"
  by (simp add: latest_checkpoint_def load_segment_cong [of s t] cong: option.case_cong)

text \<open>A store that differs only in its record tables reads the same history.\<close>

lemma same_planes_sel:
  assumes "same_planes s t"
  shows "st_catalog t = st_catalog s" "st_counters t = st_counters s"
    "st_commit_log t = st_commit_log s" "st_versioned_log t = st_versioned_log s"
    "st_chain_head t = st_chain_head s" "st_outbox t = st_outbox s"
    "st_mirror_cursor t = st_mirror_cursor s" "st_staging_slot t = st_staging_slot s"
    "st_checkpoints t = st_checkpoints s" "st_segments t = st_segments s"
    "st_identified_counters t = st_identified_counters s" "st_policy t = st_policy s"
    "st_compaction_intent t = st_compaction_intent s"
  using assms by (cases s; cases t; simp add: same_planes_def)+

text \<open>What a versioned store appends: the successor of the chain head, correctly hashed.\<close>

definition appendable :: "'r engine_env \<Rightarrow> 'r store \<Rightarrow> versioned_entry \<Rightarrow> bool" where
  "appendable env s v \<longleftrightarrow>
     ve_previous_entry_digest v = chain_head s \<and> recomputed_digest env v = ve_entry_digest v
     \<and> list_all op_applicable (ne_list (ve_operations v))"

lemma log_suffix_append:
  assumes "log_indexed ve_commit_sequence limit n (st_versioned_log s)"
    and "limit < ve_commit_sequence v" and "resume_after c \<le> limit"
    and "st_versioned_log t = tbl_insert (ve_commit_sequence v) v (st_versioned_log s)"
  shows "log_suffix t c = log_suffix s c @ [v]"
proof -
  have "resume_after c < ve_commit_sequence v" using assms(2,3) by simp
  then have "commit_sequence_next (resume_after c) \<le> ve_commit_sequence v"
    by (simp add: commit_sequence_next_def inc_le)
  then show ?thesis
    using log_indexed_append(1) [OF assms(1,2)] assms(4)
    by (simp add: log_suffix_def versioned_entries_from_def tbl_from_def)
qed

lemma recoverable_append:
  assumes "recoverable env s" and logs: "logs_ok s" and v: "appendable env s v"
    and above: "committed_commit_sequence s < ve_commit_sequence v"
    and t: "st_versioned_log t = tbl_insert (ve_commit_sequence v) v (st_versioned_log s)"
      "st_chain_head t = Some (ve_entry_digest v)" "latest_checkpoint env t = latest_checkpoint env s"
      "committed_commit_sequence t = ve_commit_sequence v"
  shows "recoverable env t"
proof -
  from assms(1) obtain c where c: "latest_checkpoint env s = Inr c"
    "resume_after c \<le> committed_commit_sequence s"
    "chain_verified env (resume_head c) (log_suffix s c)"
    "list_all op_applicable (all_operations (log_suffix s c))"
    "chain_head s = chain_end (resume_head c) (log_suffix s c)"
    by (auto simp: recoverable_def)
  have "log_suffix t c = log_suffix s c @ [v]"
    using logs above c(2) t(1) by (intro log_suffix_append) (auto simp: logs_ok_def)
  moreover have "resume_after c \<le> committed_commit_sequence t"
    using c(2) above t(4) by simp
  ultimately show ?thesis
    unfolding recoverable_def using c v t
    by (auto simp: appendable_def chain_verified_snoc chain_end_snoc all_operations_append
        all_operations_def chain_head_def intro!: exI [of _ c])
qed

lemma logs_ok_land:
  assumes "logs_ok s" and above: "committed_commit_sequence s < sq"
    and "cle_commit_sequence en = sq" and "v = None \<or> ve_commit_sequence (the v) = sq"
  shows "logs_ok (land_commit policy (log_counts s) en v sq snap s)"
proof -
  have logs: "log_indexed cle_commit_sequence (committed_commit_sequence s) (lc_commits (log_counts s))
      (st_commit_log s)"
    "log_indexed ve_commit_sequence (committed_commit_sequence s) (lc_versioned (log_counts s))
      (st_versioned_log s)"
    using assms(1) by (auto simp: logs_ok_def)
  have mono: "log_indexed f sq n t" if "log_indexed f (committed_commit_sequence s) n t" for f n t
    using that above by (auto simp: log_indexed_def)
  show ?thesis
    using log_indexed_append [OF logs(1), of en] log_indexed_append [OF logs(2), of "the v"] assms(2-4)
      mono [OF logs(2)]
    by (auto simp: logs_ok_def next_commit_def next_versioned_def split: option.splits)
qed

end
