(* ===== verification/Commit_Laws.thy ===== *)
theory Commit_Laws
  imports Engine_Invariants
begin

text \<open>
  The contract of a commit: a write transaction of the engine changes record tables, catalog rows and
  identifier counters around one \<open>land_commit\<close>.  The locale \<open>commit_body\<close> states what such a body may
  touch; inside it every invariant of the history is shown to survive, and each write of the engine
  interprets it.
\<close>

section \<open>Stores with the same history\<close>

definition same_history :: "'r store \<Rightarrow> 'r store \<Rightarrow> bool" where
  "same_history s t \<longleftrightarrow>
     st_counters t = st_counters s \<and> st_commit_log t = st_commit_log s
     \<and> st_versioned_log t = st_versioned_log s \<and> st_chain_head t = st_chain_head s
     \<and> st_checkpoints t = st_checkpoints s \<and> st_segments t = st_segments s
     \<and> st_staging_slot t = st_staging_slot s \<and> st_outbox t = st_outbox s
     \<and> st_mirror_cursor t = st_mirror_cursor s"

lemma same_history_refl [simp]: "same_history s s"
  by (simp add: same_history_def)

lemma same_history_sym: "same_history s t \<Longrightarrow> same_history t s"
  by (simp add: same_history_def)

lemma same_history_trans: "same_history s t \<Longrightarrow> same_history t u \<Longrightarrow> same_history s u"
  by (simp add: same_history_def)

lemma same_planes_history: "same_planes s t \<Longrightarrow> same_history s t"
  by (simp add: same_history_def same_planes_sel)

lemma same_history_fold:
  "(\<And>x s. x \<in> set xs \<Longrightarrow> same_history s (f x s)) \<Longrightarrow> same_history s (fold f xs s)"
  by (induction xs arbitrary: s) (auto intro: same_history_trans)

lemma same_history_reads:
  assumes "same_history s t"
  shows "counter_get t = counter_get s" "log_counts t = log_counts s"
    "committed_commit_sequence t = committed_commit_sequence s"
    "committed_snapshot t = committed_snapshot s" "chain_head t = chain_head s"
    "log_suffix t c = log_suffix s c" "latest_checkpoint env t = latest_checkpoint env s"
    "staging_slot t = staging_slot s" "versioned_entries t = versioned_entries s"
proof -
  show get: "counter_get t = counter_get s"
    using assms by (simp add: same_history_def counter_get_def fun_eq_iff)
  from assms show "latest_checkpoint env t = latest_checkpoint env s"
    by (intro latest_checkpoint_cong) (simp_all add: get same_history_def)
qed (use assms in \<open>simp_all add: same_history_def log_counts_def counter_get_def
      committed_commit_sequence_def committed_snapshot_def chain_head_def log_suffix_def
      versioned_entries_from_def staging_slot_def versioned_entries_def\<close>)

lemma same_history_invariants:
  assumes "same_history s t"
  shows "logs_ok t = logs_ok s" and "recoverable env t = recoverable env s"
    and "history_ok env t = history_ok env s"
  using assms same_history_reads [OF assms]
  by (simp_all add: logs_ok_def recoverable_def history_ok_def same_history_def checkpoints_keyed_def
      logs_agree_def)

lemma same_history_updates [simp]:
  "same_history s (row_insert t k r s)" "same_history s (row_remove t k s)"
  "same_history s (identified_insert t i r s)" "same_history s (identified_remove t i s)"
  "same_history s (catalog_row_insert name reg s)"
  "same_history s (identified_counter_insert key i s)"
  "same_history s (put_intent intent s)"
  by (simp_all add: same_history_def row_insert_def row_remove_def identified_insert_def
      identified_remove_def catalog_row_insert_def identified_counter_insert_def put_intent_def)

lemma same_history_apply_write [simp]: "same_history s (apply_write env table w s)"
  by (cases w) simp_all

lemma same_history_atomic [simp]: "same_history s (atomic_materialize w s)"
  by (simp add: atomic_materialize_def)

text \<open>No row change touches an identifier counter.\<close>

lemma row_changes_counters [simp]:
  "st_identified_counters (row_insert t k r s) = st_identified_counters s"
  "st_identified_counters (row_remove t k s) = st_identified_counters s"
  "st_identified_counters (identified_insert t i r s) = st_identified_counters s"
  "st_identified_counters (identified_remove t i s) = st_identified_counters s"
  "st_identified_counters (catalog_row_insert name reg s) = st_identified_counters s"
  "st_identified_counters (put_intent intent s) = st_identified_counters s"
  by (simp_all add: row_insert_def row_remove_def identified_insert_def identified_remove_def
      catalog_row_insert_def put_intent_def)

lemma fold_counters:
  "(\<And>x s. st_identified_counters (f x s) = st_identified_counters s) \<Longrightarrow>
   st_identified_counters (fold f xs s) = st_identified_counters s"
  by (induction xs arbitrary: s) simp_all

lemma written_counters [simp]:
  "st_identified_counters (fold (apply_write env table) ws s) = st_identified_counters s"
  "st_identified_counters (fold atomic_materialize aws s) = st_identified_counters s"
  by (rule fold_counters, case_tac x; simp) (rule fold_counters, simp add: atomic_materialize_def)

section \<open>The contract\<close>

text \<open>The store a commit leaves: \<open>body\<close> and \<open>post\<close> around the inserts every write ends with.\<close>

definition landed ::
  "('r store \<Rightarrow> 'r store) \<Rightarrow> ('r store \<Rightarrow> 'r store) \<Rightarrow> versioning_policy option
   \<Rightarrow> commit_log_entry \<Rightarrow> versioned_entry option \<Rightarrow> commit_sequence \<Rightarrow> snapshot_identifier
   \<Rightarrow> 'r store \<Rightarrow> 'r store" where
  "landed body post policy en v sq snap s =
     post (land_commit policy (log_counts s) en v sq snap (body s))"

locale commit_body =
  fixes body :: "'r store \<Rightarrow> 'r store" and post :: "'r store \<Rightarrow> 'r store"
  assumes body_history: "same_history s (body s)"
    and post_history: "same_history s (post s)"
begin

lemma landed_history:
  "same_history (land_commit policy (log_counts s) en v sq snap (body s))
     (landed body post policy en v sq snap s)"
  unfolding landed_def by (rule post_history)

lemma landed_reads:
  "committed_commit_sequence (landed body post policy en v sq snap s) = sq"
  "committed_snapshot (landed body post policy en v sq snap s) = snap"
  "staging_slot (landed body post policy en v sq snap s) = staging_slot s"
  "chain_head (landed body post policy en v sq snap s) =
     (case v of None \<Rightarrow> chain_head s | Some w \<Rightarrow> Some (ve_entry_digest w))"
  using same_history_reads [OF landed_history [of policy s en v sq snap]]
    same_history_reads [OF body_history [of s]]
  by (simp_all add: staging_slot_def chain_head_def split: option.splits)

lemma landed_logs_ok:
  assumes "logs_ok s" and "committed_commit_sequence s < sq"
    and "cle_commit_sequence en = sq" and "v = None \<or> ve_commit_sequence (the v) = sq"
  shows "logs_ok (landed body post policy en v sq snap s)"
proof -
  note w = same_history_reads [OF body_history [of s]] same_history_invariants [OF body_history [of s]]
  from assms have "logs_ok (land_commit policy (log_counts (body s)) en v sq snap (body s))"
    by (intro logs_ok_land) (simp_all add: w)
  then show ?thesis
    using same_history_invariants(1) [OF landed_history [of policy s en v sq snap]] by (simp add: w)
qed

lemma landed_recoverable:
  assumes "recoverable env s" and "logs_ok s" and "appendable env s v"
    and "committed_commit_sequence s < ve_commit_sequence v" and sq: "ve_commit_sequence v = sq"
  shows "recoverable env (landed body post policy en (Some v) sq snap s)"
proof -
  note w = same_history_reads [OF body_history [of s]] same_history_invariants [OF body_history [of s]]
  have "recoverable env (land_commit policy (log_counts s) en (Some v) sq snap (body s))"
  proof (rule recoverable_append)
    show "recoverable env (body s)" "logs_ok (body s)" using assms by (simp_all add: w)
    show "appendable env (body s) v" using assms(3) by (simp add: appendable_def w)
    show "committed_commit_sequence (body s) < ve_commit_sequence v" using assms(4) by (simp add: w)
    show "latest_checkpoint env (land_commit policy (log_counts s) en (Some v) sq snap (body s)) =
        latest_checkpoint env (body s)"
      by (rule latest_checkpoint_cong) simp_all
  qed (simp_all add: sq)
  then show ?thesis
    using same_history_invariants(2) [OF landed_history [of policy s en "Some v" sq snap]] by simp
qed

lemma landed_history_ok:
  assumes ok: "history_ok env s" and v: "appendable env s v" and en: "en = entry_of_versioned v"
    and sq: "ve_commit_sequence v = sq" and above: "committed_commit_sequence s < sq"
  shows "history_ok env (landed body post policy en (Some v) sq snap s)"
proof -
  let ?t = "landed body post policy en (Some v) sq snap s"
  note t = landed_history [of policy s en "Some v" sq snap] and b = body_history [of s]
  have cle: "cle_commit_sequence en = sq"
    using en sq by (simp add: entry_of_versioned_def)
  have rows: "st_checkpoints ?t = st_checkpoints s"
    "st_commit_log ?t = tbl_insert (cle_commit_sequence en) en (st_commit_log s)"
    "st_versioned_log ?t = tbl_insert (ve_commit_sequence v) v (st_versioned_log s)"
    using t b by (simp_all add: same_history_def)
  have logs: "log_indexed cle_commit_sequence (committed_commit_sequence s) (lc_commits (log_counts s))
      (st_commit_log s)"
    "log_indexed ve_commit_sequence (committed_commit_sequence s) (lc_versioned (log_counts s))
      (st_versioned_log s)" and agree: "logs_agree s"
    using ok by (simp_all add: history_ok_def logs_ok_def)
  have "st_commit_log ?t = st_commit_log s @ [(sq, en)]"
    using log_indexed_append(1) [OF logs(1), of en] above cle by (simp add: rows)
  moreover have "st_versioned_log ?t = st_versioned_log s @ [(sq, v)]"
    using log_indexed_append(1) [OF logs(2), of v] above sq by (simp add: rows)
  ultimately have "logs_agree ?t"
    using agree by (simp add: logs_agree_def en)
  with assms cle rows show ?thesis
    by (simp add: history_ok_def checkpoints_keyed_def landed_logs_ok landed_recoverable)
qed

end

section \<open>The bodies of the engine's writes\<close>

interpretation insert_body: commit_body "row_insert table key r" "\<lambda>s. s"
  by unfold_locales simp_all

interpretation remove_body: commit_body "row_remove table key" "\<lambda>s. s"
  by unfold_locales simp_all

interpretation mint_body:
  commit_body "identified_insert table i r" "identified_counter_insert counter_key next_i"
  by unfold_locales simp_all

interpretation identified_insert_body: commit_body "identified_insert table i r" "\<lambda>s. s"
  by unfold_locales simp_all

interpretation identified_remove_body: commit_body "identified_remove table i" "\<lambda>s. s"
  by unfold_locales simp_all

interpretation commit_request_body: commit_body "fold (apply_write env table) ws" "\<lambda>s. s"
  by unfold_locales (auto intro: same_history_fold)

interpretation atomic_body: commit_body "fold atomic_materialize ws" "\<lambda>s. s"
  by unfold_locales (auto intro: same_history_fold)

interpretation evolution_body:
  commit_body "fold (\<lambda>(key, row). row_insert name key row) carried" "catalog_row_insert name reg"
  by unfold_locales (auto intro!: same_history_fold)

end
