(* ===== verification/Write_Laws.thy ===== *)
theory Write_Laws
  imports Commit_Laws
begin

text \<open>
  What a direct write of the engine does: it is refused and changes nothing, or exactly one commit lands,
  its rows and log entries are there, its deltas went out, and the maintenance of the history runs on the
  resulting engine.
\<close>

section \<open>The engine invariant\<close>

definition engine_ok :: "'r engine_env \<Rightarrow> 'r engine \<Rightarrow> bool" where
  "engine_ok env e \<longleftrightarrow>
     logs_ok (eng_storage e)
     \<and> (eng_policy e \<noteq> None \<longrightarrow> history_ok env (eng_storage e))
     \<and> (\<forall>ss. eng_staging e = Some ss \<longrightarrow>
          session_ok env ss \<and> list_all op_applicable (all_operations (ss_entries ss)))
     \<and> (\<forall>g. staging_slot (eng_storage e) = Some g \<longrightarrow>
          list_all op_applicable (all_operations (sg_entries g)))"

section \<open>One commit\<close>

definition commit_entry_of ::
  "'r engine \<Rightarrow> commit_log_operation non_empty \<Rightarrow> commit_log_entry" where
  "commit_entry_of e opers = commit_log_entry_new (next_commit_sequence e) (next_snapshot e) opers"

definition versioned_entry_of ::
  "'r engine_env \<Rightarrow> 'r engine \<Rightarrow> versioned_log_operation non_empty \<Rightarrow> versioned_entry option" where
  "versioned_entry_of env e vopers =
     versioned_entry_for env e (next_commit_sequence e) (next_snapshot e) vopers"

text \<open>\<open>e1\<close> is \<open>e\<close> after one commit with the given row changes and operations; deltas may have gone out.\<close>

definition commits ::
  "'r engine_env \<Rightarrow> ('r store \<Rightarrow> 'r store) \<Rightarrow> ('r store \<Rightarrow> 'r store)
   \<Rightarrow> commit_log_operation non_empty \<Rightarrow> versioned_log_operation non_empty
   \<Rightarrow> 'r engine \<Rightarrow> 'r engine \<Rightarrow> bool" where
  "commits env body post opers vopers e e1 \<longleftrightarrow>
     e1 = e\<lparr>eng_storage := landed body post (eng_policy e) (commit_entry_of e opers)
              (versioned_entry_of env e vopers) (next_commit_sequence e) (next_snapshot e)
              (eng_storage e),
            eng_subscriptions := eng_subscriptions e1\<rparr>"

lemma word_below_next: "x \<noteq> - 1 \<Longrightarrow> x < x + 1" for x :: u64
  by (metis add.commute add_eq_0_iff lessI unatSuc word_less_nat_alt)

lemma next_sequence_above:
  "committed_commit_sequence (eng_storage e) \<noteq> - 1 \<Longrightarrow>
   committed_commit_sequence (eng_storage e) < next_commit_sequence e"
  by (simp add: next_commit_sequence_def commit_sequence_next_def word_below_next)

lemma versioned_entry_of_Some:
  assumes "versioned_entry_of env e vopers = Some v"
  shows "ve_commit_sequence v = next_commit_sequence e" "ve_snapshot v = next_snapshot e"
    "ve_operations v = vopers" "recomputed_digest env v = ve_entry_digest v"
    "ve_previous_entry_digest v = chain_head (eng_storage e)" "eng_policy e \<noteq> None"
  using assms by (auto simp: versioned_entry_of_def versioned_entry_for_def split: option.splits)

lemma versioned_entry_of_None: "versioned_entry_of env e vopers = None \<longleftrightarrow> eng_policy e = None"
  by (auto simp: versioned_entry_of_def versioned_entry_for_def split: option.splits)

lemma commits_sel:
  assumes "commits env body post opers vopers e e1"
  shows "eng_storage e1 = landed body post (eng_policy e) (commit_entry_of e opers)
      (versioned_entry_of env e vopers) (next_commit_sequence e) (next_snapshot e) (eng_storage e)"
    and "eng_catalog e1 = eng_catalog e" and "eng_policy e1 = eng_policy e"
    and "eng_staging e1 = eng_staging e" and "eng_fault e1 = eng_fault e"
  using arg_cong [OF assms [unfolded commits_def], of eng_storage]
    arg_cong [OF assms [unfolded commits_def], of eng_catalog]
    arg_cong [OF assms [unfolded commits_def], of eng_policy]
    arg_cong [OF assms [unfolded commits_def], of eng_staging]
    arg_cong [OF assms [unfolded commits_def], of eng_fault] by simp_all

text \<open>Every commit keeps the invariant, as long as the sequence does not run out.\<close>

lemma commits_ok:
  assumes body: "commit_body body post" and commit: "commits env body post opers vopers e e1"
    and ok: "engine_ok env e" and room: "committed_commit_sequence (eng_storage e) \<noteq> - 1"
    and ops: "eng_policy e \<noteq> None \<longrightarrow> list_all op_applicable (ne_list vopers)
      \<and> map operation_of_versioned (ne_list vopers) = ne_list opers"
  shows "engine_ok env e1"
proof -
  let ?en = "commit_entry_of e opers" and ?v = "versioned_entry_of env e vopers"
  note above = next_sequence_above [OF room] and sel = commits_sel [OF commit]
  have seq: "cle_commit_sequence ?en = next_commit_sequence e"
    by (simp add: commit_entry_of_def commit_log_entry_new_def)
  have logs: "logs_ok (eng_storage e1)"
    using ok seq above versioned_entry_of_Some(1) [of env e vopers] unfolding sel
    by (intro commit_body.landed_logs_ok [OF body]) (cases ?v; simp add: engine_ok_def)+
  have history: "history_ok env (eng_storage e1)" if versioned: "eng_policy e1 \<noteq> None"
  proof -
    obtain v where v: "?v = Some v"
      using versioned sel(3) versioned_entry_of_None [of env e vopers] by auto
    have "appendable env (eng_storage e) v"
      using versioned_entry_of_Some [OF v] ops by (simp add: appendable_def)
    moreover have "?en = entry_of_versioned v"
      using versioned_entry_of_Some [OF v] ops
      by (cases vopers; cases opers)
        (simp add: commit_entry_of_def commit_log_entry_new_def entry_of_versioned_def)
    ultimately show ?thesis
      using ok versioned seq above versioned_entry_of_Some(1) [OF v] unfolding sel v
      by (intro commit_body.landed_history_ok [OF body]) (auto simp: engine_ok_def)
  qed
  have "staging_slot (eng_storage e1) = staging_slot (eng_storage e)"
    unfolding sel by (rule commit_body.landed_reads(3) [OF body])
  with logs history ok sel show ?thesis by (auto simp: engine_ok_def)
qed

section \<open>The outcome of a write\<close>

text \<open>A write is refused with the engine unchanged, or lands an engine satisfying \<open>L\<close> and goes on
  with \<open>F\<close> (the maintenance and the receipt).\<close>

definition write_outcome ::
  "'r engine \<Rightarrow> ('r engine \<Rightarrow> bool) \<Rightarrow> ('r engine \<Rightarrow> ('r, 'a) engine_result)
   \<Rightarrow> ('r, 'a) engine_result \<Rightarrow> bool" where
  "write_outcome e L F res \<longleftrightarrow> (\<exists>err. res = (Inl err, e)) \<or> (\<exists>e1. L e1 \<and> res = F e1)"

lemma outcome_refused [simp, intro]: "write_outcome e L F (Inl err, e)"
  by (simp add: write_outcome_def)

lemma outcome_landed: "L e1 \<Longrightarrow> write_outcome e L F (F e1)"
  by (auto simp: write_outcome_def)

lemma outcome_reads:
  "(\<And>x. r = Inr x \<Longrightarrow> write_outcome e L F (f x e)) \<Longrightarrow> write_outcome e L F (bindS (reads r e) f)"
  by (cases r) simp_all

lemma engine_put_cases:
  obtains (rolled_back) err where "engine_put env f e = (Inl err, e)"
  | (stored) "engine_put env f e = (Inr (), e\<lparr>eng_storage := f (eng_storage e)\<rparr>)"
  by (cases "engine_put env f e"; cases "fst (engine_put env f e)")
    (auto simp: engine_put_Inr dest: engine_put_Inl)

lemma outcome_put:
  "write_outcome e L F (k () (e\<lparr>eng_storage := f (eng_storage e)\<rparr>)) \<Longrightarrow>
   write_outcome e L F (bindS (engine_put env f e) k)"
  by (rule engine_put_cases [of env f e]) simp_all

lemma outcome_if:
  "(c \<Longrightarrow> write_outcome e L F x) \<Longrightarrow> (\<not> c \<Longrightarrow> write_outcome e L F y) \<Longrightarrow>
   write_outcome e L F (if c then x else y)"
  by simp

text \<open>The versioned operation a write logs; its family and bytes matter only on a versioned store.\<close>

definition logged_op ::
  "'r engine_env \<Rightarrow> 'r engine \<Rightarrow> string \<Rightarrow> sema_operation \<Rightarrow> record_key \<Rightarrow> 'r option
   \<Rightarrow> versioned_log_operation \<Rightarrow> bool" where
  "logged_op env e table oper key r vop \<longleftrightarrow>
     vop_operation vop = oper \<and> vop_key vop = Some key
     \<and> (case r of
          None \<Rightarrow> vop_payload vop = Tombstone
        | Some x \<Rightarrow> \<exists>bs. vop_payload vop = PayloadRecord bs
            \<and> (eng_policy e \<noteq> None \<longrightarrow> env_to_bytes env x = Inr bs))
     \<and> (eng_policy e \<noteq> None \<longrightarrow> registered_family e table = Inr (vop_family vop))"

lemma logged_op_applicable:
  "logged_op env e table oper key r vop \<Longrightarrow>
   (r = None \<longrightarrow> oper = Retract) \<Longrightarrow> (r \<noteq> None \<longrightarrow> oper \<in> {Assert, Mutate, Retract}) \<Longrightarrow>
   op_applicable vop"
  by (auto simp: logged_op_def op_applicable_def split: option.splits)

lemma versioned_record_payload_Inr:
  "versioned_record_payload env table r = Inr payload \<longleftrightarrow>
   (\<exists>bs. env_to_bytes env r = Inr bs \<and> payload = PayloadRecord bs)"
  by (auto simp: versioned_record_payload_def split: sum.splits)

lemma logged_record:
  assumes "versioned_record_entry env e (next_commit_sequence e) (next_snapshot e) oper table
      (Some key) r = Inr v"
  shows "\<exists>vop. v = versioned_entry_of env e (ne_single vop) \<and> logged_op env e table oper key (Some r) vop"
proof (cases "eng_policy e = None")
  case True
  with assms show ?thesis
    by (intro exI [of _ "\<lparr>vop_operation = oper, vop_family = undefined, vop_key = Some key,
          vop_payload = PayloadRecord []\<rparr>"])
      (simp add: versioned_record_entry_def versioned_entry_of_None [THEN iffD2] logged_op_def)
next
  case False
  with assms show ?thesis
    by (auto simp: versioned_record_entry_def bindR_eq_Inr versioned_entry_of_def logged_op_def
        versioned_record_payload_Inr)
qed

lemma logged_tombstone:
  assumes "versioned_tombstone_entry env e (next_commit_sequence e) (next_snapshot e) oper table
      (Some key) = Inr v"
  shows "\<exists>vop. v = versioned_entry_of env e (ne_single vop) \<and> logged_op env e table oper key None vop"
proof (cases "eng_policy e = None")
  case True
  with assms show ?thesis
    by (intro exI [of _ "\<lparr>vop_operation = oper, vop_family = undefined, vop_key = Some key,
          vop_payload = Tombstone\<rparr>"])
      (simp add: versioned_tombstone_entry_def versioned_entry_of_None [THEN iffD2] logged_op_def)
next
  case False
  with assms show ?thesis
    by (auto simp: versioned_tombstone_entry_def bindR_eq_Inr versioned_entry_of_def logged_op_def)
qed

section \<open>Single writes\<close>

definition single_log :: "sema_operation \<Rightarrow> string \<Rightarrow> record_key \<Rightarrow> commit_log_operation non_empty" where
  "single_log oper table key = ne_single (commit_log_operation_new oper table (Some key))"

text \<open>What one domain-keyed write lands: the row change, one logged operation, and its delta.\<close>

definition lands_keyed ::
  "'r engine_env \<Rightarrow> ('r store \<Rightarrow> 'r store) \<Rightarrow> sema_operation \<Rightarrow> delta_kind \<Rightarrow> string \<Rightarrow> record_key
   \<Rightarrow> 'r option \<Rightarrow> 'r \<Rightarrow> 'r engine \<Rightarrow> 'r engine \<Rightarrow> bool" where
  "lands_keyed env body oper kind table key payload delta e e1 \<longleftrightarrow>
     (\<exists>vop. logged_op env e table oper key payload vop
        \<and> commits env body (\<lambda>s. s) (single_log oper table key) (ne_single vop) e e1)
     \<and> eng_subscriptions e1 =
         deliver_delta kind table key (next_snapshot e) delta (eng_subscriptions e)"

lemma ensure_registered_Inr:
  "ensure_registered e t = Inr u \<longleftrightarrow> is_registered (eng_catalog e) t"
  by (simp add: ensure_registered_def ensure_eq_Inr)

lemma single_entry_of: "single_entry (next_commit_sequence e) (next_snapshot e) oper table key =
    commit_entry_of e (single_log oper table key)"
  by (simp add: single_entry_def commit_log_entry_single_def commit_entry_of_def single_log_def)

text \<open>The tail every direct write shares: one transaction, then the deltas.\<close>

lemma commit_tail:
  assumes "v = versioned_entry_of env e vopers" and "en = commit_entry_of e opers"
    and "\<And>t. t = e\<lparr>eng_storage := landed body post (eng_policy e) en v (next_commit_sequence e)
        (next_snapshot e) (eng_storage e)\<rparr> \<Longrightarrow> commits env body post opers vopers e (g t) \<Longrightarrow> L (g t)"
    and "\<And>t. g t = t\<lparr>eng_subscriptions := eng_subscriptions (g t)\<rparr>"
  shows "write_outcome e L F
    (bindS (engine_put env (\<lambda>s. post (land_commit (eng_policy e) (log_counts (eng_storage e)) en v
       (next_commit_sequence e) (next_snapshot e) (body s))) e) (\<lambda>u t. F (g t)))"
proof (rule outcome_put, rule outcome_landed)
  let ?t = "e\<lparr>eng_storage := landed body post (eng_policy e) en v (next_commit_sequence e)
        (next_snapshot e) (eng_storage e)\<rparr>"
  have "commits env body post opers vopers e (g ?t)"
    unfolding commits_def assms(1,2) [symmetric] by (rule trans [OF assms(4)]) simp
  then show "L (g (e\<lparr>eng_storage := post (land_commit (eng_policy e) (log_counts (eng_storage e)) en v
      (next_commit_sequence e) (next_snapshot e) (body (eng_storage e)))\<rparr>))"
    using assms(3) [of ?t] by (simp add: landed_def)
qed

lemma deliver_subscriptions:
  "deliver kind table key snap r t = t\<lparr>eng_subscriptions := eng_subscriptions
     (deliver kind table key snap r t)\<rparr>"
  by (simp add: deliver_def)

lemma keyed_tail:
  assumes "v = versioned_entry_of env e (ne_single vop) \<and> logged_op env e table oper key payload vop"
    and "\<And>e1. lands_keyed env body oper kind table key payload r e e1 \<Longrightarrow> L e1"
  shows "write_outcome e L F
    (bindS (engine_put env (\<lambda>s. land_commit (eng_policy e) (log_counts (eng_storage e))
       (single_entry (next_commit_sequence e) (next_snapshot e) oper table key) v
       (next_commit_sequence e) (next_snapshot e) (body s)) e)
      (\<lambda>u t. F (deliver kind table key (next_snapshot e) r t)))"
  by (rule commit_tail [where post = "\<lambda>s. s" and vopers = "ne_single vop"
        and opers = "single_log oper table key"])
    (use assms in \<open>auto simp: single_entry_of lands_keyed_def deliver_def intro!: assms(2)\<close>)

lemma assert_keyed_outcome:
  assumes "eng_staging e = None"
  shows "write_outcome e
    (\<lambda>e1. is_registered (eng_catalog e) (ka_table a) \<and> record_at e (ka_table a) (ka_key a) = None
      \<and> lands_keyed env (row_insert (ka_table a) (to_owned_string (ka_key a)) (ka_record a))
          Assert DeltaAssert (ka_table a) (ka_key a) (Some (ka_record a)) (ka_record a) e e1)
    (finish_write env (mutation_receipt_new Assert (ka_table a) (ka_key a) (next_commit_sequence e) (next_snapshot e)))
    (assert_keyed env a e)"
  unfolding assert_keyed_def Let_def
  apply (rule outcome_reads)
  apply (clarsimp simp: ensure_registered_Inr assms)
  apply (rule outcome_reads)
  apply (drule logged_record, erule exE)
  apply (erule keyed_tail)
  apply simp
  done

lemma mutate_keyed_outcome:
  assumes "eng_staging e = None"
  shows "write_outcome e
    (\<lambda>e1. is_registered (eng_catalog e) (km_table m) \<and> record_at e (km_table m) (km_key m) \<noteq> None
      \<and> lands_keyed env (row_insert (km_table m) (to_owned_string (km_key m)) (km_record m))
          Mutate DeltaMutate (km_table m) (km_key m) (Some (km_record m)) (km_record m) e e1)
    (finish_write env (mutation_receipt_new Mutate (km_table m) (km_key m) (next_commit_sequence e) (next_snapshot e)))
    (mutate_keyed env m e)"
  unfolding mutate_keyed_def Let_def
  apply (rule outcome_reads)
  apply (clarsimp simp: ensure_registered_Inr assms)
  apply (rule outcome_reads)
  apply (drule logged_record, erule exE)
  apply (erule keyed_tail)
  apply simp
  done

text \<open>A retraction re-reads the row inside its transaction; the write lock makes both reads agree.\<close>

lemma write_removed:
  assumes "body (eng_storage e) = Inr (True, f (eng_storage e))"
  shows "bindS (engine_write env body e) (\<lambda>removed t. if \<not> removed then A t else B t) =
    bindS (engine_put env f e) (\<lambda>u t. B t)"
  using assms
  by (simp add: engine_put_def engine_write_def store_write_def split: option.split)

lemma engine_retract_outcome:
  assumes "eng_staging e = None"
  shows "write_outcome e
    (\<lambda>e1. \<exists>r. is_registered (eng_catalog e) (rt_table rt)
      \<and> record_at e (rt_table rt) (rt_key rt) = Some r
      \<and> lands_keyed env (row_remove (rt_table rt) (to_owned_string (rt_key rt)))
          Retract DeltaRetract (rt_table rt) (rt_key rt) None r e e1)
    (finish_write env (mutation_receipt_new Retract (rt_table rt) (rt_key rt) (next_commit_sequence e) (next_snapshot e)))
    (engine_retract env rt e)"
  unfolding engine_retract_def Let_def
  apply (rule outcome_reads)
  apply (clarsimp simp: ensure_registered_Inr assms split: option.split)
  apply (rule outcome_reads)
  apply (drule logged_tombstone, erule exE)
  apply (subst write_removed [where f = "\<lambda>s. land_commit (eng_policy e) (log_counts (eng_storage e))
      (single_entry (next_commit_sequence e) (next_snapshot e) Retract (rt_table rt) (rt_key rt)) v
      (next_commit_sequence e) (next_snapshot e)
      (row_remove (rt_table rt) (to_owned_string (rt_key rt)) s)" for v])
   apply (simp add: record_at_def)
  apply (erule keyed_tail)
  apply simp
  done

section \<open>Identified writes\<close>

text \<open>They deliver no delta and run no maintenance.\<close>

definition lands_identified ::
  "'r engine_env \<Rightarrow> ('r store \<Rightarrow> 'r store) \<Rightarrow> ('r store \<Rightarrow> 'r store) \<Rightarrow> sema_operation \<Rightarrow> string
   \<Rightarrow> record_identifier \<Rightarrow> 'r option \<Rightarrow> 'r engine \<Rightarrow> 'r engine \<Rightarrow> bool" where
  "lands_identified env body post oper table i payload e e1 \<longleftrightarrow>
     (\<exists>vop. logged_op env e table oper (Identifier i) payload vop
        \<and> commits env body post (single_log oper table (Identifier i)) (ne_single vop) e e1)
     \<and> eng_subscriptions e1 = eng_subscriptions e"

lemma identified_tail:
  assumes "v = versioned_entry_of env e (ne_single vop)
      \<and> logged_op env e table oper (Identifier i) payload vop"
    and "\<And>e1. lands_identified env body post oper table i payload e e1 \<Longrightarrow> L e1"
  shows "write_outcome e L (\<lambda>e1. (Inr receipt, e1))
    (bindS (engine_put env (\<lambda>s. post (land_commit (eng_policy e) (log_counts (eng_storage e))
       (single_entry (next_commit_sequence e) (next_snapshot e) oper table (Identifier i)) v
       (next_commit_sequence e) (next_snapshot e) (body s))) e) (\<lambda>u t. (Inr receipt, t)))"
  by (rule commit_tail [where post = post and vopers = "ne_single vop" and g = "\<lambda>t. t"
        and opers = "single_log oper table (Identifier i)"])
    (use assms in \<open>auto simp: single_entry_of lands_identified_def intro!: assms(2)\<close>)

lemma assert_identified_outcome:
  assumes "eng_staging e = None"
  shows "let i = next_record_identifier (eng_storage e) (ia_table a) in write_outcome e
    (\<lambda>e1. is_registered (eng_catalog e) (ia_table a)
      \<and> lands_identified env (identified_insert (ia_table a) i (ia_record a))
          (identified_counter_insert (identified_counter_key (ia_table a)) (record_identifier_next i))
          Assert (ia_table a) i (Some (ia_record a)) e e1)
    (\<lambda>e1. (Inr (identified_mutation_receipt_new Assert (ia_table a) i (next_commit_sequence e) (next_snapshot e)), e1))
    (assert_identified env a e)"
  unfolding assert_identified_def Let_def
  apply (rule outcome_reads)
  apply (clarsimp simp: ensure_registered_Inr assms)
  apply (rule outcome_reads)
  apply (drule logged_record, erule exE)
  apply (erule identified_tail)
  apply simp
  done

lemma mutate_identified_outcome:
  assumes "eng_staging e = None"
  shows "write_outcome e
    (\<lambda>e1. is_registered (eng_catalog e) (im_table m)
      \<and> identified_record_at e (im_table m) (im_identifier m) \<noteq> None
      \<and> lands_identified env (identified_insert (im_table m) (im_identifier m) (im_record m))
          (\<lambda>s. s) Mutate (im_table m) (im_identifier m) (Some (im_record m)) e e1)
    (\<lambda>e1. (Inr (identified_mutation_receipt_new Mutate (im_table m) (im_identifier m) (next_commit_sequence e) (next_snapshot e)), e1))
    (mutate_identified env m e)"
  unfolding mutate_identified_def Let_def
  apply (rule outcome_reads)
  apply (clarsimp simp: ensure_registered_Inr assms)
  apply (rule outcome_reads)
  apply (drule logged_record, erule exE)
  apply (erule identified_tail)
  apply simp
  done

lemma retract_identified_outcome:
  assumes "eng_staging e = None"
  shows "write_outcome e
    (\<lambda>e1. is_registered (eng_catalog e) (irt_table rt)
      \<and> identified_record_at e (irt_table rt) (irt_identifier rt) \<noteq> None
      \<and> lands_identified env (identified_remove (irt_table rt) (irt_identifier rt))
          (\<lambda>s. s) Retract (irt_table rt) (irt_identifier rt) None e e1)
    (\<lambda>e1. (Inr (identified_mutation_receipt_new Retract (irt_table rt) (irt_identifier rt) (next_commit_sequence e) (next_snapshot e)), e1))
    (retract_identified env rt e)"
  unfolding retract_identified_def Let_def
  apply (rule outcome_reads)
  apply (clarsimp simp: ensure_registered_Inr assms split: option.split)
  apply (rule outcome_reads)
  apply (drule logged_tombstone, erule exE)
  apply (subst write_removed [where f = "\<lambda>s. land_commit (eng_policy e) (log_counts (eng_storage e))
      (single_entry (next_commit_sequence e) (next_snapshot e) Retract (irt_table rt)
        (Identifier (irt_identifier rt))) v
      (next_commit_sequence e) (next_snapshot e)
      (identified_remove (irt_table rt) (irt_identifier rt) s)" for v])
   apply (simp add: identified_record_at_def)
  apply (erule identified_tail)
  apply simp
  done

section \<open>Multi-operation commits\<close>

fun write_key :: "'r engine_env \<Rightarrow> 'r write_operation \<Rightarrow> record_key" where
  "write_key env (WriteAssert r) = env_record_key env r"
| "write_key env (WriteMutate r) = env_record_key env r"
| "write_key env (WriteRetract key) = key"

fun write_record :: "'r write_operation \<Rightarrow> 'r option" where
  "write_record (WriteAssert r) = Some r"
| "write_record (WriteMutate r) = Some r"
| "write_record (WriteRetract key) = None"

text \<open>An operation of a commit is judged against the state before the commit.\<close>

definition write_allowed :: "'r engine_env \<Rightarrow> 'r engine \<Rightarrow> string \<Rightarrow> 'r write_operation \<Rightarrow> bool" where
  "write_allowed env e table w \<longleftrightarrow>
     (write_operation_class w = Assert \<longleftrightarrow> record_at e table (write_key env w) = None)"

definition write_effect ::
  "'r engine_env \<Rightarrow> 'r engine \<Rightarrow> string \<Rightarrow> 'r write_operation \<Rightarrow> 'r committed_effect" where
  "write_effect env e table w =
     \<lparr>ce_kind = (case w of WriteAssert r \<Rightarrow> DeltaAssert | WriteMutate r \<Rightarrow> DeltaMutate
                 | WriteRetract key \<Rightarrow> DeltaRetract),
      ce_key = write_key env w,
      ce_record = (case write_record w of Some r \<Rightarrow> r
                   | None \<Rightarrow> the (record_at e table (write_key env w)))\<rparr>"

definition write_logged ::
  "'r engine_env \<Rightarrow> string \<Rightarrow> family_identity \<Rightarrow> 'r write_operation \<Rightarrow> versioned_log_operation \<Rightarrow> bool"
  where
  "write_logged env table fam w vop \<longleftrightarrow>
     vop_operation vop = write_operation_class w \<and> vop_family vop = fam
     \<and> vop_key vop = Some (write_key env w)
     \<and> (case write_record w of
          None \<Rightarrow> vop_payload vop = Tombstone
        | Some r \<Rightarrow> \<exists>bs. env_to_bytes env r = Inr bs \<and> vop_payload vop = PayloadRecord bs)"

definition write_log :: "'r engine_env \<Rightarrow> string \<Rightarrow> 'r write_operation \<Rightarrow> commit_log_operation" where
  "write_log env table w =
     commit_log_operation_new (write_operation_class w) table (Some (write_key env w))"

lemma planned_operation_Inr:
  "planned_operation env table fam oper key r = Inr vops \<longleftrightarrow>
   (case fam of None \<Rightarrow> vops = []
    | Some f \<Rightarrow> \<exists>bs. env_to_bytes env r = Inr bs
        \<and> vops = [\<lparr>vop_operation = oper, vop_family = f, vop_key = Some key,
                    vop_payload = PayloadRecord bs\<rparr>])"
  by (auto simp: planned_operation_def bindR_eq_Inr versioned_record_payload_Inr split: option.splits)

definition step_logged ::
  "'r engine_env \<Rightarrow> string \<Rightarrow> family_identity option \<Rightarrow> 'r write_operation
   \<Rightarrow> versioned_log_operation list \<Rightarrow> bool" where
  "step_logged env table fam w vops \<longleftrightarrow>
     (case fam of None \<Rightarrow> vops = [] | Some f \<Rightarrow> \<exists>vop. vops = [vop] \<and> write_logged env table f w vop)"

definition commit_step_result ::
  "'r engine_env \<Rightarrow> 'r engine \<Rightarrow> string \<Rightarrow> 'r write_operation \<Rightarrow> versioned_log_operation list
   \<Rightarrow> 'r commit_plan \<Rightarrow> 'r commit_plan" where
  "commit_step_result env e table w vops cp =
     \<lparr>cp_effect_keys = write_key env w # cp_effect_keys cp,
      cp_effects = cp_effects cp @ [write_effect env e table w],
      cp_log_operations = cp_log_operations cp @ [write_log env table w],
      cp_versioned_operations = cp_versioned_operations cp @ vops\<rparr>"

lemmas commit_step_defs = write_allowed_def write_effect_def write_log_def write_logged_def
  step_logged_def commit_step_result_def commit_plan_push_def

lemma commit_step_Inr:
  assumes "commit_step env e table fam cp w = Inr cp'"
  obtains vops where "write_key env w \<notin> set (cp_effect_keys cp)" and "write_allowed env e table w"
    and "step_logged env table fam w vops" and "cp' = commit_step_result env e table w vops cp"
proof (cases w)
  case (WriteAssert r)
  with assms obtain vops where "env_record_key env r \<notin> set (cp_effect_keys cp)"
    "record_at e table (env_record_key env r) = None"
    "planned_operation env table fam Assert (env_record_key env r) r = Inr vops"
    "cp' = commit_plan_push Assert DeltaAssert table (env_record_key env r) r vops cp"
    by (auto simp: Let_def bindR_eq_Inr split: if_splits)
  with WriteAssert show thesis
    by (intro that [of vops])
      (auto simp: commit_step_defs planned_operation_Inr split: option.splits)
next
  case (WriteMutate r)
  with assms obtain vops where "env_record_key env r \<notin> set (cp_effect_keys cp)"
    "record_at e table (env_record_key env r) \<noteq> None"
    "planned_operation env table fam Mutate (env_record_key env r) r = Inr vops"
    "cp' = commit_plan_push Mutate DeltaMutate table (env_record_key env r) r vops cp"
    by (auto simp: Let_def bindR_eq_Inr split: if_splits)
  with WriteMutate show thesis
    by (intro that [of vops])
      (auto simp: commit_step_defs planned_operation_Inr split: option.splits)
next
  case (WriteRetract key)
  with assms show thesis
    by (intro that [of "case fam of None \<Rightarrow> []
        | Some f \<Rightarrow> [\<lparr>vop_operation = Retract, vop_family = f, vop_key = Some key,
                       vop_payload = Tombstone\<rparr>]"])
      (auto simp: commit_step_defs split: option.splits if_splits)
qed

lemma commit_plan_Inr:
  assumes "foldR (commit_step env e table fam) cp ws = Inr cp'"
  shows "distinct (map (write_key env) ws) \<and> set (map (write_key env) ws) \<inter> set (cp_effect_keys cp) = {}
    \<and> list_all (write_allowed env e table) ws
    \<and> cp_effects cp' = cp_effects cp @ map (write_effect env e table) ws
    \<and> cp_log_operations cp' = cp_log_operations cp @ map (write_log env table) ws
    \<and> (fam = None \<longrightarrow> cp_versioned_operations cp' = cp_versioned_operations cp)
    \<and> (\<forall>f. fam = Some f \<longrightarrow> (\<exists>vops. list_all2 (write_logged env table f) ws vops
          \<and> cp_versioned_operations cp' = cp_versioned_operations cp @ vops))"
  using assms
proof (induction ws arbitrary: cp)
  case (Cons w ws)
  then obtain cp1 where step: "commit_step env e table fam cp w = Inr cp1"
    and rest: "foldR (commit_step env e table fam) cp1 ws = Inr cp'"
    by (auto simp: bindR_eq_Inr)
  from step obtain sops where s: "write_key env w \<notin> set (cp_effect_keys cp)"
    "write_allowed env e table w" "step_logged env table fam w sops"
    "cp1 = commit_step_result env e table w sops cp" by (rule commit_step_Inr)
  note r = Cons.IH [OF rest]
  have "\<exists>vops. list_all2 (write_logged env table f) (w # ws) vops
      \<and> cp_versioned_operations cp' = cp_versioned_operations cp @ vops" if "fam = Some f" for f
  proof -
    from s(3,4) that obtain vop where "write_logged env table f w vop"
      "cp_versioned_operations cp1 = cp_versioned_operations cp @ [vop]"
      by (auto simp: step_logged_def commit_step_result_def)
    moreover from r that obtain vops where "list_all2 (write_logged env table f) ws vops"
      "cp_versioned_operations cp' = cp_versioned_operations cp1 @ vops" by blast
    ultimately show ?thesis by (intro exI [of _ "vop # vops"]) simp
  qed
  with s r show ?case
    by (auto simp: commit_step_result_def step_logged_def split: option.splits)
qed simp

text \<open>What a commit lands.\<close>

definition lands_commit ::
  "'r engine_env \<Rightarrow> string \<Rightarrow> 'r write_operation list \<Rightarrow> 'r engine \<Rightarrow> 'r engine \<Rightarrow> bool" where
  "lands_commit env table ws e e1 \<longleftrightarrow>
     (\<exists>opers vopers. ne_list opers = map (write_log env table) ws
        \<and> (eng_policy e \<noteq> None \<longrightarrow> (\<exists>fam. registered_family e table = Inr fam
              \<and> list_all2 (write_logged env table fam) ws (ne_list vopers)))
        \<and> commits env (fold (apply_write env table) ws) (\<lambda>s. s) opers vopers e e1)
     \<and> eng_subscriptions e1 =
         fold (\<lambda>ef. deliver_delta (ce_kind ef) table (ce_key ef) (next_snapshot e) (ce_record ef))
           (map (write_effect env e table) ws) (eng_subscriptions e)"

lemma fold_deliver:
  "fold (\<lambda>ef. deliver (kind ef) (table ef) (key ef) snap (r ef)) efs e =
   e\<lparr>eng_subscriptions :=
       fold (\<lambda>ef. deliver_delta (kind ef) (table ef) (key ef) snap (r ef)) efs (eng_subscriptions e)\<rparr>"
  by (induction efs arbitrary: e) (simp_all add: deliver_def)

lemma engine_commit_outcome:
  assumes "eng_staging e = None"
  shows "write_outcome e
    (\<lambda>e1. is_registered (eng_catalog e) (crq_table q) \<and> crq_operations q \<noteq> []
      \<and> distinct (map (write_key env) (crq_operations q))
      \<and> list_all (write_allowed env e (crq_table q)) (crq_operations q)
      \<and> lands_commit env (crq_table q) (crq_operations q) e e1)
    (finish_write env \<lparr>cmr_table = crq_table q, cmr_commit_sequence = next_commit_sequence e,
       cmr_snapshot = next_snapshot e, cmr_operation_count = request_operation_count q\<rparr>)
    (engine_commit env q e)"
  unfolding engine_commit_def Let_def
  apply (rule outcome_reads)
  apply (simp only: ensure_registered_Inr assms option.case)
  apply (rule outcome_if, simp)
  apply (rule outcome_reads)+
  subgoal premises prems for u fam cp opers v
  proof -
    note plan = commit_plan_Inr [OF prems(4)]
    have opers: "ne_list opers = map (write_log env (crq_table q)) (crq_operations q)"
      using prems(5) plan by (simp add: ok_or_eq_Inr commit_plan_empty_def)
    have "\<exists>vopers. v = versioned_entry_of env e vopers
      \<and> (eng_policy e \<noteq> None \<longrightarrow> (\<exists>fam. registered_family e (crq_table q) = Inr fam
          \<and> list_all2 (write_logged env (crq_table q) fam) (crq_operations q) (ne_list vopers)))"
    proof (cases "eng_policy e = None")
      case True
      with prems(6) versioned_entry_of_None [of env e] show ?thesis by auto
    next
      case False
      with prems(3) obtain f where f: "fam = Some f" "registered_family e (crq_table q) = Inr f"
        by (auto simp: bindR_eq_Inr)
      from False prems(6) obtain vs where vs: "cp_versioned_operations cp = ne_list vs"
        "v = versioned_entry_of env e vs"
        by (auto simp: bindR_eq_Inr ok_or_eq_Inr versioned_entry_of_def)
      with plan f show ?thesis by (auto simp: commit_plan_empty_def)
    qed
    then obtain vopers where v: "v = versioned_entry_of env e vopers"
      "eng_policy e \<noteq> None \<longrightarrow> (\<exists>fam. registered_family e (crq_table q) = Inr fam
          \<and> list_all2 (write_logged env (crq_table q) fam) (crq_operations q) (ne_list vopers))"
      by blast
    let ?g = "fold (\<lambda>ef. deliver (ce_kind ef) (crq_table q) (ce_key ef) (next_snapshot e)
        (ce_record ef)) (cp_effects cp)"
    show ?thesis
      by (rule commit_tail [where post = "\<lambda>s. s" and vopers = vopers and opers = opers and g = ?g])
        (use plan v opers prems(1,2) in \<open>auto simp: lands_commit_def fold_deliver commit_plan_empty_def
          commit_entry_of_def\<close>)
  qed
  done

end
