(* ===== verification/Group_Write_Laws.thy ===== *)
theory Group_Write_Laws
  imports Write_Laws
begin

text \<open>
  The outcome of the heterogeneous atomic commit and of an in-place family evolution, in the same form
  as the other direct writes.
\<close>

section \<open>Atomic commits\<close>

definition aw_coordinate :: "'r atomic_write \<Rightarrow> string \<times> record_key" where
  "aw_coordinate w = (aw_table w, aw_key w)"

definition aw_allowed :: "'r engine \<Rightarrow> 'r atomic_write \<Rightarrow> bool" where
  "aw_allowed e w \<longleftrightarrow> is_registered (eng_catalog e) (aw_table w)
     \<and> (aw_kind w = AtomicAssert \<longleftrightarrow> record_at e (aw_table w) (aw_key w) = None)"

definition aw_log :: "'r atomic_write \<Rightarrow> commit_log_operation" where
  "aw_log w = commit_log_operation_new (atomic_operation (aw_kind w)) (aw_table w) (Some (aw_key w))"

definition aw_logged ::
  "'r engine_env \<Rightarrow> 'r engine \<Rightarrow> 'r atomic_write \<Rightarrow> versioned_log_operation \<Rightarrow> bool" where
  "aw_logged env e w vop \<longleftrightarrow>
     vop_operation vop = atomic_operation (aw_kind w) \<and> vop_key vop = Some (aw_key w)
     \<and> registered_family e (aw_table w) = Inr (vop_family vop)
     \<and> (if aw_kind w = AtomicRetract then vop_payload vop = Tombstone
        else \<exists>bs. env_to_bytes env (the (aw_record w)) = Inr bs \<and> vop_payload vop = PayloadRecord bs)"

definition aw_delta ::
  "'r engine \<Rightarrow> 'r atomic_write \<Rightarrow> 'r registry \<Rightarrow> 'r registry" where
  "aw_delta e w =
     deliver_delta (atomic_delta (aw_kind w)) (aw_table w) (aw_key w) (next_snapshot e)
       (if aw_kind w = AtomicRetract then the (record_at e (aw_table w) (aw_key w))
        else the (aw_record w))"

definition prepared_delta :: "snapshot_identifier \<Rightarrow> 'r prepared_write \<Rightarrow> 'r registry \<Rightarrow> 'r registry" where
  "prepared_delta snap p = deliver_delta (pw_kind p) (pw_table p) (pw_key p) snap (pw_record p)"

lemma atomic_prepare_Inr:
  assumes "atomic_prepare env e w = Inr p"
  shows "aw_allowed e w" and "pw_operation p = aw_log w"
    and "prepared_delta (next_snapshot e) p = aw_delta e w"
    and "eng_policy e = None \<Longrightarrow> pw_versioned p = None"
    and "eng_policy e \<noteq> None \<Longrightarrow> \<exists>vop. pw_versioned p = Some vop \<and> aw_logged env e w vop"
  using assms
  by (cases "aw_kind w"; auto simp: atomic_prepare_def Let_def bindR_eq_Inr ensure_registered_Inr
      aw_allowed_def aw_log_def prepared_delta_def aw_delta_def aw_logged_def
      versioned_record_payload_Inr split: option.splits if_splits)+

lemma atomic_step_Inr:
  "atomic_step env e (seen, ps) w = Inr t \<longleftrightarrow>
   aw_coordinate w \<notin> set seen
   \<and> (\<exists>p. atomic_prepare env e w = Inr p \<and> t = (aw_coordinate w # seen, ps @ [p]))"
  by (auto simp: atomic_step_def aw_coordinate_def bindR_eq_Inr)

lemma atomic_steps_Inr:
  assumes "foldR (atomic_step env e) (seen, ps) ws = Inr (seen', ps')"
  shows "distinct (map aw_coordinate ws) \<and> set (map aw_coordinate ws) \<inter> set seen = {}
    \<and> list_all (aw_allowed e) ws
    \<and> (\<exists>qs. ps' = ps @ qs \<and> length qs = length ws \<and> map pw_operation qs = map aw_log ws
        \<and> map (prepared_delta (next_snapshot e)) qs = map (aw_delta e) ws
        \<and> (eng_policy e \<noteq> None \<longrightarrow>
             list_all2 (aw_logged env e) ws (List.map_filter pw_versioned qs)))"
  using assms
proof (induction ws arbitrary: seen ps)
  case (Cons w ws)
  from Cons.prems obtain p where fresh: "aw_coordinate w \<notin> set seen"
    and p: "atomic_prepare env e w = Inr p"
    and rest: "foldR (atomic_step env e) (aw_coordinate w # seen, ps @ [p]) ws = Inr (seen', ps')"
    by (auto simp: bindR_eq_Inr atomic_step_Inr)
  note one = atomic_prepare_Inr [OF p] and tail = Cons.IH [OF rest]
  from tail obtain qs where qs: "ps' = (ps @ [p]) @ qs" "length qs = length ws"
    "map pw_operation qs = map aw_log ws"
    "map (prepared_delta (next_snapshot e)) qs = map (aw_delta e) ws"
    "eng_policy e \<noteq> None \<longrightarrow> list_all2 (aw_logged env e) ws (List.map_filter pw_versioned qs)"
    by blast
  have "eng_policy e \<noteq> None \<longrightarrow>
      list_all2 (aw_logged env e) (w # ws) (List.map_filter pw_versioned (p # qs))"
    using one(5) qs(5) by auto
  with one qs have "\<exists>qs. ps' = ps @ qs \<and> length qs = length (w # ws)
      \<and> map pw_operation qs = map aw_log (w # ws)
      \<and> map (prepared_delta (next_snapshot e)) qs = map (aw_delta e) (w # ws)
      \<and> (eng_policy e \<noteq> None \<longrightarrow>
           list_all2 (aw_logged env e) (w # ws) (List.map_filter pw_versioned qs))"
    by (intro exI [of _ "p # qs"]) simp
  with fresh one(1) tail show ?case by auto
qed simp

definition lands_atomic ::
  "'r engine_env \<Rightarrow> 'r atomic_write list \<Rightarrow> 'r engine \<Rightarrow> 'r engine \<Rightarrow> bool" where
  "lands_atomic env ws e e1 \<longleftrightarrow>
     (\<exists>opers vopers. ne_list opers = map aw_log ws
        \<and> (eng_policy e \<noteq> None \<longrightarrow> list_all2 (aw_logged env e) ws (ne_list vopers))
        \<and> commits env (fold atomic_materialize ws) (\<lambda>s. s) opers vopers e e1)
     \<and> eng_subscriptions e1 = fold (aw_delta e) ws (eng_subscriptions e)"

lemma deliver_prepared:
  "fold (\<lambda>p. deliver (pw_kind p) (pw_table p) (pw_key p) snap (pw_record p)) ps e =
   e\<lparr>eng_subscriptions := fold (prepared_delta snap) ps (eng_subscriptions e)\<rparr>"
  by (induction ps arbitrary: e) (simp_all add: deliver_def prepared_delta_def)

lemma fold_same: "map f xs = map g ys \<Longrightarrow> fold f xs s = fold g ys s"
  using fold_map [of id f xs] fold_map [of id g ys] by (metis fold_map comp_def id_comp map_map)

lemma commit_atomic_outcome:
  "write_outcome e
    (\<lambda>e1. ws \<noteq> [] \<and> distinct (map aw_coordinate ws) \<and> list_all (aw_allowed e) ws
      \<and> lands_atomic env ws e e1)
    (finish_write env \<lparr>acr_commit_sequence = next_commit_sequence e,
       acr_snapshot = next_snapshot e, acr_operation_count = length ws\<rparr>)
    (commit_atomic env ws e)"
  unfolding commit_atomic_def Let_def
  apply (rule outcome_if, simp)
  apply (rule outcome_reads)
  subgoal premises prems for acc
  proof (cases acc)
    case (Pair seen ps)
    have steps: "distinct (map aw_coordinate ws)" "list_all (aw_allowed e) ws"
      "length ps = length ws" "map pw_operation ps = map aw_log ws"
      "map (prepared_delta (next_snapshot e)) ps = map (aw_delta e) ws"
      "eng_policy e \<noteq> None \<Longrightarrow> list_all2 (aw_logged env e) ws (List.map_filter pw_versioned ps)"
      using atomic_steps_Inr [of env e "[]" "[]" ws seen ps] prems(2) Pair by auto
    show ?thesis
      unfolding Pair prod.case atomic_announce_def
    proof (rule outcome_reads, rule outcome_reads)
      fix opers v
      assume o: "ok_or EmptyAtomicCommit (ne_try_from_vec (map pw_operation ps)) = Inr opers"
        and v: "(if eng_policy e = None then Inr None
           else bindR (ok_or EmptyAtomicCommit (ne_try_from_vec (List.map_filter pw_versioned ps)))
             (\<lambda>vs. Inr (versioned_entry_for env e (next_commit_sequence e) (next_snapshot e) vs)))
           = Inr v"
      have opers: "ne_list opers = map aw_log ws"
        using o steps by (simp add: ok_or_eq_Inr)
      have "\<exists>vopers. v = versioned_entry_of env e vopers
        \<and> (eng_policy e \<noteq> None \<longrightarrow> list_all2 (aw_logged env e) ws (ne_list vopers))"
      proof (cases "eng_policy e = None")
        case True
        with v versioned_entry_of_None [of env e] show ?thesis by auto
      next
        case False
        with v obtain vs where "List.map_filter pw_versioned ps = ne_list vs"
          "v = versioned_entry_of env e vs"
          by (auto simp: bindR_eq_Inr ok_or_eq_Inr versioned_entry_of_def)
        with steps(6) False show ?thesis by auto
      qed
      then obtain vopers where vopers: "v = versioned_entry_of env e vopers"
        "eng_policy e \<noteq> None \<longrightarrow> list_all2 (aw_logged env e) ws (ne_list vopers)" by blast
      let ?g = "fold (\<lambda>p. deliver (pw_kind p) (pw_table p) (pw_key p) (next_snapshot e)
          (pw_record p)) ps"
      show "write_outcome e
        (\<lambda>e1. ws \<noteq> [] \<and> distinct (map aw_coordinate ws) \<and> list_all (aw_allowed e) ws
          \<and> lands_atomic env ws e e1)
        (finish_write env \<lparr>acr_commit_sequence = next_commit_sequence e,
           acr_snapshot = next_snapshot e, acr_operation_count = length ws\<rparr>)
        (bindS (engine_put env
            (\<lambda>s. land_commit (eng_policy e) (log_counts (eng_storage e))
               (commit_log_entry_new (next_commit_sequence e) (next_snapshot e) opers) v
               (next_commit_sequence e) (next_snapshot e) (fold atomic_materialize ws s)) e)
          (\<lambda>u e'. finish_write env \<lparr>acr_commit_sequence = next_commit_sequence e,
             acr_snapshot = next_snapshot e, acr_operation_count = length ps\<rparr> (?g e')))"
        unfolding steps(3)
        by (rule commit_tail [where post = "\<lambda>s. s" and vopers = vopers and opers = opers and g = ?g])
          (use steps vopers opers prems(1) fold_same [OF steps(5)] in \<open>auto simp: lands_atomic_def
            deliver_prepared commit_entry_of_def\<close>)
    qed
  qed
  done

end
