(* ===== verification/Write_Properties.thy ===== *)
theory Write_Properties
  imports Group_Write_Laws
begin

text \<open>
  The properties of the direct writes: which state each of them leaves, on every branch.
\<close>

section \<open>What a commit appends\<close>

text \<open>One row in the metadata log; on a versioned store one hashed successor of the chain head, and
  its outbox row on a mirrored one; the two counters one step on, the checkpoint as it was.\<close>

definition appends_commit ::
  "'r engine_env \<Rightarrow> commit_log_operation list \<Rightarrow> (versioned_log_operation list \<Rightarrow> bool)
   \<Rightarrow> 'r engine \<Rightarrow> 'r engine \<Rightarrow> bool" where
  "appends_commit env opers P e e1 \<longleftrightarrow>
     committed_commit_sequence (eng_storage e1) = committed_commit_sequence (eng_storage e) + 1
     \<and> committed_snapshot (eng_storage e1) = committed_snapshot (eng_storage e) + 1
     \<and> latest_checkpoint env (eng_storage e1) = latest_checkpoint env (eng_storage e)
     \<and> (\<exists>en. commit_entries (eng_storage e1) = commit_entries (eng_storage e) @ [en]
          \<and> cle_commit_sequence en = next_commit_sequence e \<and> cle_snapshot en = next_snapshot e
          \<and> ne_list (cle_operations en) = opers)
     \<and> (case eng_policy e of
          None \<Rightarrow> versioned_entries (eng_storage e1) = versioned_entries (eng_storage e)
            \<and> chain_head (eng_storage e1) = chain_head (eng_storage e)
            \<and> st_outbox (eng_storage e1) = st_outbox (eng_storage e)
        | Some policy \<Rightarrow> \<exists>v. versioned_entries (eng_storage e1) = versioned_entries (eng_storage e) @ [v]
            \<and> chain_head (eng_storage e1) = Some (ve_entry_digest v)
            \<and> ve_previous_entry_digest v = chain_head (eng_storage e)
            \<and> recomputed_digest env v = ve_entry_digest v
            \<and> ve_commit_sequence v = next_commit_sequence e \<and> ve_snapshot v = next_snapshot e
            \<and> ve_store_name v = policy_store_name policy
            \<and> ve_schema_hash v = store_schema_hash env e
            \<and> P (ne_list (ve_operations v))
            \<and> st_outbox (eng_storage e1) =
                (if policy_recovery_topology policy = Mirror
                 then tbl_insert (next_commit_sequence e) (outbox_entry_of v) (st_outbox (eng_storage e))
                 else st_outbox (eng_storage e)))"

lemma latest_checkpoint_land:
  "latest_checkpoint env (land_commit policy n en v sq snap s) = latest_checkpoint env s"
  by (rule latest_checkpoint_cong) simp_all

lemma commits_appends:
  assumes body: "commit_body body post" and commit: "commits env body post opers vopers e e1"
    and logs: "logs_ok (eng_storage e)" and room: "committed_commit_sequence (eng_storage e) \<noteq> - 1"
    and P: "eng_policy e \<noteq> None \<longrightarrow> P (ne_list vopers)"
  shows "appends_commit env (ne_list opers) P e e1"
proof -
  let ?s = "eng_storage e" and ?s1 = "eng_storage e1" and ?v = "versioned_entry_of env e vopers"
  have body_history: "same_history ?s (body ?s)"
    by (rule commit_body.body_history [OF body])
  have s1: "same_history (land_commit (eng_policy e) (log_counts ?s) (commit_entry_of e opers) ?v
      (next_commit_sequence e) (next_snapshot e) (body ?s)) ?s1"
    unfolding commits_sel(1) [OF commit] by (rule commit_body.landed_history [OF body])
  note above = next_sequence_above [OF room]
  have en: "cle_commit_sequence (commit_entry_of e opers) = next_commit_sequence e"
    "cle_snapshot (commit_entry_of e opers) = next_snapshot e"
    "cle_operations (commit_entry_of e opers) = opers"
    by (simp_all add: commit_entry_of_def commit_log_entry_new_def)
  have log: "st_commit_log ?s1 = st_commit_log ?s @ [(next_commit_sequence e, commit_entry_of e opers)]"
    using s1 body_history log_indexed_append(1) [of cle_commit_sequence _ _ "st_commit_log ?s"
        "commit_entry_of e opers"] logs above
    by (auto simp: same_history_def logs_ok_def en)
  have vlog: "st_versioned_log ?s1 = (case ?v of None \<Rightarrow> st_versioned_log ?s
      | Some v \<Rightarrow> st_versioned_log ?s @ [(next_commit_sequence e, v)])"
    using s1 body_history log_indexed_append(1) [of ve_commit_sequence _ _ "st_versioned_log ?s" "the ?v"]
      logs above versioned_entry_of_Some(1) [of env e vopers]
    by (auto simp: same_history_def logs_ok_def split: option.splits)
  have rest: "committed_commit_sequence ?s1 = next_commit_sequence e" "committed_snapshot ?s1 = next_snapshot e"
    "chain_head ?s1 = (case ?v of None \<Rightarrow> chain_head ?s | Some w \<Rightarrow> Some (ve_entry_digest w))"
    "st_outbox ?s1 = (case ?v of None \<Rightarrow> st_outbox ?s
      | Some w \<Rightarrow> if writes_mirror_outbox (eng_policy e)
          then tbl_insert (ve_commit_sequence w) (outbox_entry_of w) (st_outbox ?s) else st_outbox ?s)"
    "latest_checkpoint env ?s1 = latest_checkpoint env ?s"
    using same_history_reads [OF s1] s1 body_history same_history_reads(7) [OF body_history]
    by (simp_all add: same_history_def chain_head_def latest_checkpoint_land split: option.splits)
  show ?thesis
  proof (cases "eng_policy e")
    case None
    then have "?v = None" by (simp add: versioned_entry_of_None)
    with None log vlog rest en show ?thesis
      by (auto simp: appends_commit_def commit_entries_def versioned_entries_def tbl_iter_def
          next_commit_sequence_def next_snapshot_def commit_sequence_next_def snapshot_next_def)
  next
    case (Some policy)
    then obtain v where v: "?v = Some v"
      "v = versioned_entry_new env (policy_store_name policy) (store_schema_hash env e)
         (next_commit_sequence e) (next_snapshot e) (chain_head ?s) vopers"
      by (simp add: versioned_entry_of_def versioned_entry_for_def)
    note facts = versioned_entry_of_Some [OF v(1)]
    have "ve_store_name v = policy_store_name policy" "ve_schema_hash v = store_schema_hash env e"
      by (simp_all add: v(2))
    with Some v(1) facts log vlog rest en P show ?thesis
      by (auto simp: appends_commit_def commit_entries_def versioned_entries_def tbl_iter_def
          writes_mirror_outbox_def next_commit_sequence_def next_snapshot_def commit_sequence_next_def
          snapshot_next_def)
  qed
qed

lemma write_logged_applicable: "write_logged env table fam w vop \<Longrightarrow> op_applicable vop"
  by (cases w) (auto simp: write_logged_def op_applicable_def)

lemma aw_logged_applicable: "aw_logged env e w vop \<Longrightarrow> op_applicable vop"
  by (cases "aw_kind w") (auto simp: aw_logged_def op_applicable_def)

lemma list_all2_applicable:
  "list_all2 P ws vops \<Longrightarrow> (\<And>w v. P w v \<Longrightarrow> op_applicable v) \<Longrightarrow> list_all op_applicable vops"
  by (auto simp: list_all2_conv_all_nth list_all_length)

section \<open>Any direct write\<close>

datatype 'r direct_write =
    DirectAssert "'r keyed_assertion"
  | DirectMutate "'r keyed_mutation"
  | DirectRetract retraction
  | DirectAssertIdentified "'r identified_assertion"
  | DirectMutateIdentified "'r identified_mutation"
  | DirectRetractIdentified identified_retraction
  | DirectCommit "'r commit_request"
  | DirectAtomic "'r atomic_write list"

definition forget :: "('r, 'a) engine_result \<Rightarrow> ('r, unit) engine_result" where
  "forget res = bindS res (\<lambda>_ e. (Inr (), e))"

fun run_write :: "'r engine_env \<Rightarrow> 'r direct_write \<Rightarrow> 'r engine \<Rightarrow> ('r, unit) engine_result" where
  "run_write env (DirectAssert a) e = forget (assert_keyed env a e)"
| "run_write env (DirectMutate m) e = forget (mutate_keyed env m e)"
| "run_write env (DirectRetract rt) e = forget (engine_retract env rt e)"
| "run_write env (DirectAssertIdentified a) e = forget (assert_identified env a e)"
| "run_write env (DirectMutateIdentified m) e = forget (mutate_identified env m e)"
| "run_write env (DirectRetractIdentified rt) e = forget (retract_identified env rt e)"
| "run_write env (DirectCommit q) e = forget (engine_commit env q e)"
| "run_write env (DirectAtomic ws) e = forget (commit_atomic env ws e)"

text \<open>One landed commit that keeps the engine invariant.\<close>

definition lands_one :: "'r engine_env \<Rightarrow> 'r engine \<Rightarrow> 'r engine \<Rightarrow> bool" where
  "lands_one env e e1 \<longleftrightarrow>
     (\<exists>opers. opers \<noteq> [] \<and> appends_commit env opers (\<lambda>vops. map operation_of_versioned vops = opers) e e1)
     \<and> engine_ok env e1 \<and> eng_catalog e1 = eng_catalog e \<and> eng_policy e1 = eng_policy e
     \<and> eng_staging e1 = eng_staging e \<and> staging_slot (eng_storage e1) = staging_slot (eng_storage e)"

lemma forget_simps [simp]: "forget (Inl err, e) = (Inl err, e)" "forget (Inr x, e) = (Inr (), e)"
  by (simp_all add: forget_def)

lemma forget_finish: "forget (finish_write env receipt e1) = maintain_versioned_history env e1"
proof (cases "maintain_versioned_history env e1")
  case (Pair r e2)
  then show ?thesis by (cases r) (simp_all add: finish_write_def)
qed

lemma registered_table_name:
  "registered_family e table = Inr fam \<Longrightarrow> family_table_name fam = table"
  by (auto simp: registered_family_def ok_or_eq_Inr catalog_family_identity_def
      registration_table_name_def dest!: registration_for_table_name)

lemma lands_oneI:
  assumes body: "commit_body body post" and commit: "commits env body post opers vopers e e1"
    and ok: "engine_ok env e" and room: "committed_commit_sequence (eng_storage e) \<noteq> - 1"
    and ops: "eng_policy e \<noteq> None \<longrightarrow> list_all op_applicable (ne_list vopers)
      \<and> map operation_of_versioned (ne_list vopers) = ne_list opers"
  shows "lands_one env e e1"
  unfolding lands_one_def
proof (intro conjI exI)
  show "appends_commit env (ne_list opers) (\<lambda>vops. map operation_of_versioned vops = ne_list opers) e e1"
    using ops ok by (intro commits_appends [OF body commit]) (auto simp: engine_ok_def room)
  show "engine_ok env e1"
    using ops by (intro commits_ok [OF body commit ok room]) simp
qed (simp_all add: commits_sel [OF commit] commit_body.landed_reads [OF body])

lemma logged_op_log:
  "logged_op env e table oper key payload vop \<Longrightarrow> eng_policy e \<noteq> None \<Longrightarrow>
   operation_of_versioned vop = commit_log_operation_new oper table (Some key)"
  by (auto simp: logged_op_def operation_of_versioned_def commit_log_operation_new_def
      registered_table_name)

lemma lands_keyed_one:
  assumes "lands_keyed env body oper kind table key payload delta e e1"
    and "commit_body body (\<lambda>s. s)" and "engine_ok env e"
    and "committed_commit_sequence (eng_storage e) \<noteq> - 1"
    and "if payload = None then oper = Retract else oper \<in> {Assert, Mutate}"
  shows "lands_one env e e1"
proof -
  from assms(1) obtain vop where vop: "logged_op env e table oper key payload vop"
    and commit: "commits env body (\<lambda>s. s) (single_log oper table key) (ne_single vop) e e1"
    by (auto simp: lands_keyed_def)
  show ?thesis
    by (rule lands_oneI [OF assms(2) commit assms(3,4)])
      (use assms(5) logged_op_applicable [OF vop] logged_op_log [OF vop] in
        \<open>auto simp: single_log_def split: if_splits\<close>)
qed

lemma lands_identified_one:
  assumes "lands_identified env body post oper table i payload e e1"
    and "commit_body body post" and "engine_ok env e"
    and "committed_commit_sequence (eng_storage e) \<noteq> - 1"
    and "if payload = None then oper = Retract else oper \<in> {Assert, Mutate}"
  shows "lands_one env e e1"
proof -
  from assms(1) obtain vop where vop: "logged_op env e table oper (Identifier i) payload vop"
    and commit: "commits env body post (single_log oper table (Identifier i)) (ne_single vop) e e1"
    by (auto simp: lands_identified_def)
  show ?thesis
    by (rule lands_oneI [OF assms(2) commit assms(3,4)])
      (use assms(5) logged_op_applicable [OF vop] logged_op_log [OF vop] in
        \<open>auto simp: single_log_def split: if_splits\<close>)
qed

lemma list_all2_map_eq:
  "list_all2 P xs ys \<Longrightarrow> (\<And>x y. P x y \<Longrightarrow> f x = g y) \<Longrightarrow> map g ys = map f xs"
  by (induction rule: list_all2_induct) auto

lemma lands_commit_one:
  assumes "lands_commit env table ws e e1" and "engine_ok env e"
    and "committed_commit_sequence (eng_storage e) \<noteq> - 1"
  shows "lands_one env e e1"
proof -
  from assms(1) obtain opers vopers where o: "ne_list opers = map (write_log env table) ws"
    and v: "eng_policy e \<noteq> None \<longrightarrow> (\<exists>fam. registered_family e table = Inr fam
              \<and> list_all2 (write_logged env table fam) ws (ne_list vopers))"
    and commit: "commits env (fold (apply_write env table) ws) (\<lambda>s. s) opers vopers e e1"
    by (auto simp: lands_commit_def)
  have "map operation_of_versioned (ne_list vopers) = map (write_log env table) ws"
    if "eng_policy e \<noteq> None"
  proof -
    from v that obtain fam where fam: "registered_family e table = Inr fam"
      "list_all2 (write_logged env table fam) ws (ne_list vopers)" by blast
    from fam(2) show ?thesis
      by (rule list_all2_map_eq) (simp add: write_logged_def write_log_def operation_of_versioned_def
          commit_log_operation_new_def registered_table_name [OF fam(1)])
  qed
  with v show ?thesis
    by (intro lands_oneI [OF commit_request_body.commit_body_axioms commit assms(2,3)])
      (auto simp: o dest: list_all2_applicable [OF _ write_logged_applicable])
qed

lemma lands_atomic_one:
  assumes "lands_atomic env ws e e1" and "engine_ok env e"
    and "committed_commit_sequence (eng_storage e) \<noteq> - 1"
  shows "lands_one env e e1"
proof -
  from assms(1) obtain opers vopers where o: "ne_list opers = map aw_log ws"
    and v: "eng_policy e \<noteq> None \<longrightarrow> list_all2 (aw_logged env e) ws (ne_list vopers)"
    and commit: "commits env (fold atomic_materialize ws) (\<lambda>s. s) opers vopers e e1"
    by (auto simp: lands_atomic_def)
  have "map operation_of_versioned (ne_list vopers) = map aw_log ws" if "eng_policy e \<noteq> None"
    using v [rule_format, OF that]
    by (rule list_all2_map_eq) (auto simp: aw_logged_def aw_log_def operation_of_versioned_def
        commit_log_operation_new_def registered_table_name)
  with v show ?thesis
    by (intro lands_oneI [OF atomic_body.commit_body_axioms commit assms(2,3)])
      (auto simp: o dest: list_all2_applicable [OF _ aw_logged_applicable])
qed

text \<open>What is left of a write's outcome when its receipt is forgotten.\<close>

definition settles :: "'r engine_env \<Rightarrow> 'r engine \<Rightarrow> ('r, unit) engine_result \<Rightarrow> bool" where
  "settles env e res \<longleftrightarrow>
     (\<exists>err. res = (Inl err, e))
     \<or> (\<exists>e1. lands_one env e e1 \<and> (res = (Inr (), e1) \<or> res = maintain_versioned_history env e1))"

lemma settles_finish:
  "write_outcome e L (finish_write env receipt) res \<Longrightarrow> (\<And>e1. L e1 \<Longrightarrow> lands_one env e e1) \<Longrightarrow>
   settles env e (forget res)"
  unfolding write_outcome_def settles_def
  by (elim disjE exE conjE; simp add: forget_finish; blast)

lemma settles_return:
  "write_outcome e L (\<lambda>e1. (Inr receipt, e1)) res \<Longrightarrow> (\<And>e1. L e1 \<Longrightarrow> lands_one env e e1) \<Longrightarrow>
   settles env e (forget res)"
  unfolding write_outcome_def settles_def by (elim disjE exE conjE; simp; blast)

lemma run_write_settles:
  assumes staging: "eng_staging e = None" and ok: "engine_ok env e"
    and room: "committed_commit_sequence (eng_storage e) \<noteq> - 1"
  shows "settles env e (run_write env w e)"
proof (cases w)
  case (DirectAssert a)
  show ?thesis
    unfolding DirectAssert run_write.simps
    by (rule settles_finish [OF assert_keyed_outcome [OF staging]])
      (auto intro: lands_keyed_one [OF _ insert_body.commit_body_axioms ok room])
next
  case (DirectMutate m)
  show ?thesis
    unfolding DirectMutate run_write.simps
    by (rule settles_finish [OF mutate_keyed_outcome [OF staging]])
      (auto intro: lands_keyed_one [OF _ insert_body.commit_body_axioms ok room])
next
  case (DirectRetract rt)
  show ?thesis
    unfolding DirectRetract run_write.simps
    by (rule settles_finish [OF engine_retract_outcome [OF staging]])
      (auto intro: lands_keyed_one [OF _ remove_body.commit_body_axioms ok room])
next
  case (DirectAssertIdentified a)
  show ?thesis
    unfolding DirectAssertIdentified run_write.simps
    by (rule settles_return [OF assert_identified_outcome [OF staging, unfolded Let_def]])
      (auto intro: lands_identified_one [OF _ mint_body.commit_body_axioms ok room])
next
  case (DirectMutateIdentified m)
  show ?thesis
    unfolding DirectMutateIdentified run_write.simps
    by (rule settles_return [OF mutate_identified_outcome [OF staging]])
      (auto intro: lands_identified_one [OF _ identified_insert_body.commit_body_axioms ok room])
next
  case (DirectRetractIdentified rt)
  show ?thesis
    unfolding DirectRetractIdentified run_write.simps
    by (rule settles_return [OF retract_identified_outcome [OF staging]])
      (auto intro: lands_identified_one [OF _ identified_remove_body.commit_body_axioms ok room])
next
  case (DirectCommit q)
  show ?thesis
    unfolding DirectCommit run_write.simps
    by (rule settles_finish [OF engine_commit_outcome [OF staging]])
      (auto intro: lands_commit_one [OF _ ok room])
next
  case (DirectAtomic ws)
  show ?thesis
    unfolding DirectAtomic run_write.simps
    by (rule settles_finish [OF commit_atomic_outcome])
      (auto intro: lands_atomic_one [OF _ ok room])
qed

end
