(* ===== verification/History_Laws.thy ===== *)
theory History_Laws
  imports Write_Laws
begin

text \<open>
  Checkpoints and history compaction keep the history recoverable: a checkpoint that was taken loads and
  verifies and covers the whole log, and pruning removes exactly the covered prefix.
\<close>

section \<open>Tables of content-addressed segments\<close>

text \<open>Segments can be told apart by their digests.\<close>

definition addressable :: "'p primitives_scheme \<Rightarrow> checkpoint_segment list \<Rightarrow> bool" where
  "addressable p segs \<longleftrightarrow> inj_on (segment_digest p) (set segs)"

lemma get_insert_content:
  "inj_on d (set xs) \<Longrightarrow> x \<in> set xs \<Longrightarrow>
   tbl_get (fold (\<lambda>x. tbl_insert (d x) x) xs t) (d x) = Some x"
proof (induction xs rule: rev_induct)
  case (snoc y xs)
  then show ?case
    by (cases "d x = d y") (auto simp: table_simps inj_on_def)
qed simp

lemma mapR_load:
  assumes "\<And>seg. seg \<in> set segs \<Longrightarrow> tbl_get (st_segments s) (segment_digest p seg) = Some seg"
  shows "mapR (load_segment s) (map (segment_reference_of p) segs) = Inr segs"
  using assms
  by (induction segs) (simp_all add: load_segment_def segment_reference_of_def)

section \<open>Taking a checkpoint\<close>

lemma publish_checkpoint_sel [simp, engine_simps]:
  "st_commit_log (publish_checkpoint env m segs s) = st_commit_log s"
  "st_versioned_log (publish_checkpoint env m segs s) = st_versioned_log s"
  "st_chain_head (publish_checkpoint env m segs s) = st_chain_head s"
  "st_outbox (publish_checkpoint env m segs s) = st_outbox s"
  "st_mirror_cursor (publish_checkpoint env m segs s) = st_mirror_cursor s"
  "st_staging_slot (publish_checkpoint env m segs s) = st_staging_slot s"
  "st_rows (publish_checkpoint env m segs s) = st_rows s"
  "st_identified_rows (publish_checkpoint env m segs s) = st_identified_rows s"
  "st_compaction_intent (publish_checkpoint env m segs s) = st_compaction_intent s"
  "st_checkpoints (publish_checkpoint env m segs s) = tbl_insert (cm_sequence m) m (st_checkpoints s)"
  "counter_get (publish_checkpoint env m segs s) k =
     (if k = latest_checkpoint_key then Some (cm_sequence m) else counter_get s k)"
  by (simp_all add: publish_checkpoint_def cong: if_cong) (simp add: counter_get_def)

lemma publish_checkpoint_reads [simp]:
  "committed_commit_sequence (publish_checkpoint env m segs s) = committed_commit_sequence s"
  "committed_snapshot (publish_checkpoint env m segs s) = committed_snapshot s"
  "log_counts (publish_checkpoint env m segs s) = log_counts s"
  "chain_head (publish_checkpoint env m segs s) = chain_head s"
  "logs_ok (publish_checkpoint env m segs s) = logs_ok s"
  "logs_agree (publish_checkpoint env m segs s) = logs_agree s"
  "staging_slot (publish_checkpoint env m segs s) = staging_slot s"
  "versioned_entries (publish_checkpoint env m segs s) = versioned_entries s"
  by (simp_all add: committed_commit_sequence_def committed_snapshot_def log_counts_def chain_head_def
      logs_ok_def logs_agree_def staging_slot_def versioned_entries_def)

lemma latest_after_publish:
  assumes "addressable env segs" and "cm_segments m = map (segment_reference_of env) segs"
    and "verify env \<lparr>ck_metadata = m, ck_segments = segs\<rparr> = Inr ()"
  shows "latest_checkpoint env (publish_checkpoint env m segs s) =
    Inr (Some \<lparr>ck_metadata = m, ck_segments = segs\<rparr>)"
proof -
  have "mapR (load_segment (publish_checkpoint env m segs s)) (map (segment_reference_of env) segs) =
      Inr segs"
    using assms(1)
    by (intro mapR_load) (simp add: publish_checkpoint_def get_insert_content addressable_def)
  then show ?thesis
    using assms(2,3) by (simp add: latest_checkpoint_def table_simps)
qed

text \<open>What the plan of a checkpoint contains.\<close>

lemma checkpoint_plan_Inr:
  assumes "checkpoint_plan env e policy previous = Inr (m, segs, n)"
  defines "entries \<equiv> log_suffix (eng_storage e) previous"
  shows "entries \<noteq> []" and "cm_covered_entry_digest m = ve_entry_digest (last entries)"
    and "csr_last (cm_covered m) = ve_commit_sequence (last entries)"
    and "cm_segments m = map (segment_reference_of env) segs"
    and "verify env \<lparr>ck_metadata = m, ck_segments = segs\<rparr> = Inr ()"
    and "computed_digest env m = cm_checkpoint_digest m"
    and "\<exists>view. canonical_fold env (fst (resume_point previous)) entries (resume_head previous) = Inr view
      \<and> cm_view_digest m = view_digest env view
      \<and> (\<exists>mr. into_rows view (family_inventory (eng_catalog e)) = Inr mr \<and> segs = chunk (mr_rows mr)
            \<and> n = length (mr_rows mr))"
proof -
  obtain rows head after where r: "resume_point previous = (rows, head, after)"
    by (cases "resume_point previous")
  have entries: "versioned_entries_from (eng_storage e) (commit_sequence_next after) = entries"
    by (simp add: entries_def log_suffix_def resume_after_def r)
  from assms(1) show ne: "entries \<noteq> []"
    by (auto simp: checkpoint_plan_def r entries Let_def split: list.splits)
  then obtain first rest where fr: "entries = first # rest" by (cases entries) auto
  from assms(1) obtain view mr where view: "canonical_fold env rows entries head = Inr view"
    and mr: "into_rows view (family_inventory (eng_catalog e)) = Inr mr"
    and segs: "segs = chunk (mr_rows mr)" "n = length (mr_rows mr)"
    and m: "\<exists>sq prev fams first_sq. m = checkpoint_metadata_new env sq (policy_store_name policy)
        (store_schema_hash env e) fams
        \<lparr>csr_first = first_sq, csr_last = ve_commit_sequence (last entries)\<rparr>
        (ve_snapshot (last entries)) (ve_entry_digest (last entries)) (view_digest env view) prev
        (map (segment_reference_of env) segs)"
    by (fastforce simp: checkpoint_plan_def r entries Let_def bindR_eq_Inr fr)
  from m show "cm_covered_entry_digest m = ve_entry_digest (last entries)"
    and "csr_last (cm_covered m) = ve_commit_sequence (last entries)"
    and "cm_segments m = map (segment_reference_of env) segs"
    and "computed_digest env m = cm_checkpoint_digest m" by auto
  from m refold_view_digest [OF view mr] show "verify env \<lparr>ck_metadata = m, ck_segments = segs\<rparr> = Inr ()"
    by (auto simp: verify_Inr checkpoint_rows_def segment_reference_of_def segs(1))
  from view mr segs m show "\<exists>view. canonical_fold env (fst (resume_point previous)) entries
      (resume_head previous) = Inr view \<and> cm_view_digest m = view_digest env view
      \<and> (\<exists>mr. into_rows view (family_inventory (eng_catalog e)) = Inr mr \<and> segs = chunk (mr_rows mr)
            \<and> n = length (mr_rows mr))"
    by (auto simp: r resume_head_def)
qed

text \<open>The last entry of a non-empty suffix is the last of the log, so nothing lies after it.\<close>

lemma sorted_wrt_last: "sorted_wrt R xs \<Longrightarrow> xs \<noteq> [] \<Longrightarrow> x \<in> set xs \<Longrightarrow> x = last xs \<or> R x (last xs)"
  by (induction xs rule: rev_induct) (auto simp: sorted_wrt_append)

lemma word_below_top: "x \<le> y \<Longrightarrow> y \<noteq> - 1 \<Longrightarrow> x \<noteq> - 1" for x y :: u64
  by (metis antisym word_order.extremum)

lemma nothing_after_last:
  assumes logs: "log_indexed ve_commit_sequence limit n (st_versioned_log s)" and room: "limit \<noteq> - 1"
    and ne: "log_suffix s c \<noteq> []"
  shows "versioned_entries_from s (commit_sequence_next (ve_commit_sequence (last (log_suffix s c)))) = []"
    and "ve_commit_sequence (last (log_suffix s c)) \<le> limit"
proof -
  let ?t = "st_versioned_log s" and ?k = "commit_sequence_next (resume_after c)"
  let ?f = "filter (\<lambda>r. ?k \<le> fst r) ?t"
  have f: "?f \<noteq> []" using ne by (simp add: log_suffix_def versioned_entries_from_def tbl_from_def)
  have lst: "last (log_suffix s c) = snd (last ?f)"
    using f by (simp add: log_suffix_def versioned_entries_from_def tbl_from_def last_map)
  have mem: "last ?f \<in> set ?t" using last_in_set [OF f] by simp
  have idx: "ve_commit_sequence (snd r) = fst r" "fst r \<le> limit" if "r \<in> set ?t" for r
    using logs that by (auto simp: log_indexed_def)
  show "ve_commit_sequence (last (log_suffix s c)) \<le> limit"
    using idx [OF mem] by (simp add: lst)
  then have step: "ve_commit_sequence (last (log_suffix s c)) <
      commit_sequence_next (ve_commit_sequence (last (log_suffix s c)))"
    using room word_below_top by (auto simp: commit_sequence_next_def intro!: word_below_next)
  have sorted: "sorted_wrt (\<lambda>x y. fst x < fst y) ?t"
    using logs by (simp add: log_indexed_def tbl_ok_def sorted_wrt_map)
  have below: "fst r \<le> fst (last ?f)" if "r \<in> set ?t" for r
  proof (cases "?k \<le> fst r")
    case True
    then have "r \<in> set ?f" using that by simp
    then have "r = last ?f \<or> fst r < fst (last ?f)"
      using sorted_wrt_filter [OF sorted, of "\<lambda>r. ?k \<le> fst r"] f
      by (auto dest: sorted_wrt_last)
    then show ?thesis by auto
  next
    case False
    moreover have "?k \<le> fst (last ?f)" using last_in_set [OF f] by simp
    ultimately show ?thesis by simp
  qed
  show "versioned_entries_from s (commit_sequence_next (ve_commit_sequence (last (log_suffix s c)))) = []"
    using below idx [OF mem] step
    by (auto simp: versioned_entries_from_def tbl_from_def filter_empty_conv lst not_le
        intro: le_less_trans)
qed

lemma publish_keeps_history:
  assumes ok: "history_ok env (eng_storage e)" and prev: "latest_checkpoint env (eng_storage e) = Inr previous"
    and plan: "checkpoint_plan env e policy previous = Inr (m, segs, n)"
    and addr: "addressable env segs" and room: "committed_commit_sequence (eng_storage e) \<noteq> - 1"
  shows "history_ok env (publish_checkpoint env m segs (eng_storage e))"
    and "latest_checkpoint env (publish_checkpoint env m segs (eng_storage e)) =
      Inr (Some \<lparr>ck_metadata = m, ck_segments = segs\<rparr>)"
    and "log_suffix (publish_checkpoint env m segs (eng_storage e))
      (Some \<lparr>ck_metadata = m, ck_segments = segs\<rparr>) = []"
proof -
  let ?s = "eng_storage e" and ?c = "Some \<lparr>ck_metadata = m, ck_segments = segs\<rparr>"
  let ?t = "publish_checkpoint env m segs ?s"
  note p = checkpoint_plan_Inr [OF plan]
  have logs: "log_indexed ve_commit_sequence (committed_commit_sequence ?s) (lc_versioned (log_counts ?s))
      (st_versioned_log ?s)"
    using ok by (simp add: history_ok_def logs_ok_def)
  note last = nothing_after_last [OF logs room p(1)]
  show latest: "latest_checkpoint env ?t = Inr ?c"
    by (rule latest_after_publish [OF addr p(4,5)])
  have after: "resume_after ?c = ve_commit_sequence (last (log_suffix ?s previous))"
    "resume_head ?c = Some (ve_entry_digest (last (log_suffix ?s previous)))"
    by (simp_all add: resume_after_def resume_head_def resume_point_def p(2,3))
  show suffix: "log_suffix ?t ?c = []"
    using last(1) by (simp add: log_suffix_def after versioned_entries_from_def)
  from ok obtain d where d: "latest_checkpoint env ?s = Inr d"
    "chain_head ?s = chain_end (resume_head d) (log_suffix ?s d)"
    by (auto simp: history_ok_def recoverable_def)
  have head: "chain_head ?s = resume_head ?c"
    using d prev p(1) by (simp add: chain_end_def after)
  have "recoverable env ?t"
    unfolding recoverable_def
    using latest suffix head last(2)
    by (intro exI [of _ ?c]) (simp add: after chain_end_def all_operations_def)
  moreover have "checkpoints_keyed ?t"
  proof -
    have "tbl_ok (st_checkpoints ?s)" "\<And>k x. tbl_get (st_checkpoints ?s) k = Some x \<Longrightarrow> cm_sequence x = k"
      using ok by (auto simp: history_ok_def checkpoints_keyed_def tbl_get_Some_iff)
    moreover from this have "\<And>k x. tbl_get (st_checkpoints ?t) k = Some x \<Longrightarrow> cm_sequence x = k"
      by (auto simp: table_simps split: if_splits)
    ultimately show ?thesis
      by (auto simp: checkpoints_keyed_def tbl_ok_insert simp flip: tbl_get_Some_iff)
  qed
  ultimately show "history_ok env ?t"
    using ok by (simp add: history_ok_def)
qed

section \<open>Pruning\<close>

lemma fold_tbl_remove: "fold tbl_remove ks (t :: ('k::linorder, 'v) tbl) = filter (\<lambda>r. fst r \<notin> set ks) t"
  by (induction ks arbitrary: t) (auto simp: tbl_remove_def intro!: filter_cong)

lemma remove_keys_where:
  "fold tbl_remove (filter P (map fst (tbl_iter t))) (t :: ('k::linorder, 'v) tbl) =
   filter (\<lambda>r. \<not> P (fst r)) t"
  unfolding fold_tbl_remove tbl_iter_def by (rule filter_cong [OF refl]) force

lemma log_indexed_length:
  assumes "log_indexed sq limit n t" and "limit \<noteq> - 1"
  shows "length t < 2 ^ 64"
proof -
  have d: "distinct (map fst t)" using assms(1) by (simp add: log_indexed_def tbl_ok_distinct)
  have "length t = card (set (map fst t))"
    using distinct_card [OF d] by simp
  also have "\<dots> = card (unat ` set (map fst t))"
    by (rule card_image [symmetric]) (auto intro: inj_onI simp: word_unat_eq_iff)
  also have "\<dots> \<le> card {0..unat limit}"
    using assms(1) by (intro card_mono) (auto simp: log_indexed_def word_le_nat_alt)
  also have "\<dots> = unat limit + 1" by simp
  also have "\<dots> < 2 ^ 64"
  proof -
    have "limit < - 1" using assms(2) by (simp add: word_order.not_eq_extremum)
    then have "unat limit < unat (- 1 :: u64)" by (simp add: word_less_nat_alt)
    then show ?thesis by (simp add: unsigned_minus_1_eq_mask mask_eq_exp_minus_1)
  qed
  finally show ?thesis .
qed

lemma saturating_sub_of_nat:
  assumes "b \<le> a" and "a < 2 ^ 64"
  shows "saturating_sub (of_nat a) (of_nat b) = of_nat (a - b)"
proof -
  have "(of_nat b :: u64) \<le> of_nat a"
    using assms by (simp add: word_le_nat_alt unat_of_nat take_bit_nat_eq_self)
  with assms(1) show ?thesis by (simp add: saturating_sub_def of_nat_diff)
qed

text \<open>What remains of a log after its prefix is removed, and how many rows that was.\<close>

lemma log_indexed_prune:
  fixes t :: "(u64, 'a) tbl" and through :: u64
  assumes "log_indexed sq limit n t" and "limit \<noteq> - 1"
  defines "keys \<equiv> filter (\<lambda>k. k \<le> through) (map fst (tbl_iter t))"
  shows "fold tbl_remove keys t = filter (\<lambda>r. through < fst r) t"
    and "saturating_sub n (of_nat (length keys)) = of_nat (length (filter (\<lambda>r. through < fst r) t))"
    and "log_indexed sq limit (saturating_sub n (of_nat (length keys))) (filter (\<lambda>r. through < fst r) t)"
proof -
  show *: "fold tbl_remove keys t = filter (\<lambda>r. through < fst r) t"
    unfolding keys_def remove_keys_where by (simp add: not_le)
  have "length keys = length (filter (\<lambda>r. fst r \<le> through) t)"
    by (simp add: keys_def tbl_iter_def filter_map comp_def)
  moreover have "length (filter (\<lambda>r. fst r \<le> through) t) + length (filter (\<lambda>r. through < fst r) t) = length t"
    using sum_length_filter_compl [of "\<lambda>r. fst r \<le> through" t] by (simp add: not_le)
  moreover have "n = of_nat (length t)" using assms(1) by (simp add: log_indexed_def)
  ultimately show count: "saturating_sub n (of_nat (length keys)) =
      of_nat (length (filter (\<lambda>r. through < fst r) t))"
    using saturating_sub_of_nat [of "length keys" "length t"] log_indexed_length [OF assms(1,2)]
    by (metis add_diff_cancel_left' le_add1)
  show "log_indexed sq limit (saturating_sub n (of_nat (length keys))) (filter (\<lambda>r. through < fst r) t)"
    unfolding count using assms(1)
    by (auto simp: log_indexed_def tbl_ok_def sorted_wrt_filter sorted_wrt_map)
qed

lemma compact_through_sel [simp, engine_simps]:
  "st_outbox (compact_through ck vk n s) = st_outbox s"
  "st_chain_head (compact_through ck vk n s) = st_chain_head s"
  "st_mirror_cursor (compact_through ck vk n s) = st_mirror_cursor s"
  "st_staging_slot (compact_through ck vk n s) = st_staging_slot s"
  "st_checkpoints (compact_through ck vk n s) = st_checkpoints s"
  "st_segments (compact_through ck vk n s) = st_segments s"
  "st_rows (compact_through ck vk n s) = st_rows s"
  "st_identified_rows (compact_through ck vk n s) = st_identified_rows s"
  "st_compaction_intent (compact_through ck vk n s) = st_compaction_intent s"
  "st_commit_log (compact_through ck vk n s) = fold tbl_remove ck (st_commit_log s)"
  "st_versioned_log (compact_through ck vk n s) = fold tbl_remove vk (st_versioned_log s)"
  "counter_get (compact_through ck vk n s) k =
     (if k = versioned_log_count_key then Some (lc_versioned n)
      else if k = commit_log_count_key then Some (lc_commits n) else counter_get s k)"
  by (simp_all add: compact_through_def cong: if_cong) (simp add: counter_get_def)

text \<open>The store after pruning to the checkpoint \<open>m\<close>.\<close>

lemma prune_history_sel:
  fixes env :: "'r engine_env" and m :: checkpoint_metadata
  assumes logs: "logs_ok s" and room: "committed_commit_sequence s \<noteq> - 1"
  defines "covered \<equiv> csr_last (cm_covered m)"
  defines "t \<equiv> prune_history env m s"
  shows "st_commit_log t = filter (\<lambda>r. covered < fst r) (st_commit_log s)"
    and "st_versioned_log t = filter (\<lambda>r. covered < fst r) (st_versioned_log s)"
    and "st_outbox t = filter (\<lambda>r. covered < fst r) (st_outbox s)"
    and "st_chain_head t = st_chain_head s" and "st_mirror_cursor t = st_mirror_cursor s"
    and "st_staging_slot t = st_staging_slot s" and "st_rows t = st_rows s"
    and "st_identified_rows t = st_identified_rows s"
    and "st_compaction_intent t = st_compaction_intent s"
    and "committed_commit_sequence t = committed_commit_sequence s"
    and "committed_snapshot t = committed_snapshot s"
    and "counter_get t latest_checkpoint_key = counter_get s latest_checkpoint_key"
    and "tbl_get (st_checkpoints t) k = (if k = cm_sequence m then Some (root_metadata env m) else None)"
    and "tbl_ok (st_checkpoints s) \<Longrightarrow> tbl_ok (st_checkpoints t)"
    and "tbl_get (st_segments t) d =
      (if d \<in> ref_digest ` set (cm_segments m) then tbl_get (st_segments s) d else None)"
    and "logs_ok t"
    and "lc_versioned (log_counts t) = of_nat (length (filter (\<lambda>r. covered < fst r) (st_versioned_log s)))"
proof -
  note cl = logs [unfolded logs_ok_def, THEN conjunct1]
    and vl = logs [unfolded logs_ok_def, THEN conjunct2]
  note c = log_indexed_prune [OF cl room, of covered] and v = log_indexed_prune [OF vl room, of covered]
  note d = t_def prune_history_def Let_def keys_through_def covered_def [symmetric]
    compact_acknowledged_through_def outbox_keys_through_def
  show log: "st_commit_log t = filter (\<lambda>r. covered < fst r) (st_commit_log s)"
    and vlog: "st_versioned_log t = filter (\<lambda>r. covered < fst r) (st_versioned_log s)"
    by (simp_all add: d c(1) v(1))
  show "st_outbox t = filter (\<lambda>r. covered < fst r) (st_outbox s)"
    unfolding d by (simp add: remove_keys_where not_le)
  have get: "counter_get t k = (if k = versioned_log_count_key
        then Some (of_nat (length (filter (\<lambda>r. covered < fst r) (st_versioned_log s))))
      else if k = commit_log_count_key
        then Some (of_nat (length (filter (\<lambda>r. covered < fst r) (st_commit_log s))))
      else counter_get s k)" for k
  proof -
    let ?ck = "filter (\<lambda>k. k \<le> covered) (map fst (tbl_iter (st_commit_log s)))"
    let ?vk = "filter (\<lambda>k. k \<le> covered) (map fst (tbl_iter (st_versioned_log s)))"
    have "counter_get t k = counter_get (compact_through ?ck ?vk
        (after_removing (log_counts s) (length ?ck) (length ?vk)) s) k"
      by (rule counter_get_cong) (simp add: d)
    then show ?thesis
      using c(2) v(2) by (simp add: after_removing_def)
  qed
  show com: "committed_commit_sequence t = committed_commit_sequence s"
    and "committed_snapshot t = committed_snapshot s"
    and "counter_get t latest_checkpoint_key = counter_get s latest_checkpoint_key"
    by (simp_all add: committed_commit_sequence_def committed_snapshot_def get)
  show "st_chain_head t = st_chain_head s" "st_mirror_cursor t = st_mirror_cursor s"
    "st_staging_slot t = st_staging_slot s" "st_rows t = st_rows s"
    "st_identified_rows t = st_identified_rows s"
    "st_compaction_intent t = st_compaction_intent s"
    by (simp_all add: d)
  show "tbl_get (st_checkpoints t) k = (if k = cm_sequence m then Some (root_metadata env m) else None)"
    by (simp add: d table_simps tbl_get_remove_keys)
  show "tbl_ok (st_checkpoints s) \<Longrightarrow> tbl_ok (st_checkpoints t)"
    by (simp add: d tbl_ok_insert tbl.ok_remove_all)
  show "tbl_get (st_segments t) d =
      (if d \<in> ref_digest ` set (cm_segments m) then tbl_get (st_segments s) d else None)"
    by (simp add: d tbl_get_remove_keys)
  show "logs_ok t"
    using c(2,3) v(2,3) by (simp add: logs_ok_def com log vlog log_counts_def get)
  show "lc_versioned (log_counts t) = of_nat (length (filter (\<lambda>r. covered < fst r) (st_versioned_log s)))"
    by (simp add: log_counts_def get)
qed

lemma latest_checkpoint_Some:
  assumes "latest_checkpoint env s = Inr (Some c)"
  obtains sq where "counter_get s latest_checkpoint_key = Some sq"
    and "tbl_get (st_checkpoints s) sq = Some (ck_metadata c)"
    and "mapR (load_segment s) (cm_segments (ck_metadata c)) = Inr (ck_segments c)"
    and "verify env c = Inr ()"
  using assms
  by (auto simp: latest_checkpoint_def Let_def bindR_eq_Inr ok_or_eq_Inr split: option.splits)

lemma mapR_cong: "(\<And>x. x \<in> set xs \<Longrightarrow> f x = g x) \<Longrightarrow> mapR f xs = mapR g xs"
  by (induction xs) simp_all

lemma verify_root:
  "verify env c = Inr () \<Longrightarrow> verify env (c\<lparr>ck_metadata := root_metadata env (ck_metadata c)\<rparr>) = Inr ()"
  by (auto simp: verify_Inr root_metadata_def checkpoint_rows_def)

lemma root_metadata_sel [simp]:
  "cm_sequence (root_metadata env m) = cm_sequence m" "cm_covered (root_metadata env m) = cm_covered m"
  "cm_covered_entry_digest (root_metadata env m) = cm_covered_entry_digest m"
  "cm_segments (root_metadata env m) = cm_segments m"
  "cm_view_digest (root_metadata env m) = cm_view_digest m"
  by (simp_all add: root_metadata_def checkpoint_metadata_new_def Let_def)

lemma prune_keeps_history:
  assumes ok: "history_ok env s" and latest: "latest_checkpoint env s = Inr (Some c)"
    and room: "committed_commit_sequence s \<noteq> - 1"
  defines "t \<equiv> prune_history env (ck_metadata c) s"
    and "c' \<equiv> c\<lparr>ck_metadata := root_metadata env (ck_metadata c)\<rparr>"
  shows "history_ok env t" and "latest_checkpoint env t = Inr (Some c')"
    and "log_suffix t (Some c') = log_suffix s (Some c)"
proof -
  let ?m = "ck_metadata c" and ?covered = "csr_last (cm_covered (ck_metadata c))"
  have logs: "logs_ok s" and keyed: "checkpoints_keyed s" using ok by (simp_all add: history_ok_def)
  note sel = prune_history_sel [OF logs room, of env ?m, folded t_def]
  from latest obtain sq where sq: "counter_get s latest_checkpoint_key = Some sq"
    "tbl_get (st_checkpoints s) sq = Some ?m"
    "mapR (load_segment s) (cm_segments ?m) = Inr (ck_segments c)" "verify env c = Inr ()"
    by (rule latest_checkpoint_Some)
  have "(sq, ?m) \<in> set (st_checkpoints s)"
    using sq(2) keyed by (simp add: checkpoints_keyed_def tbl_get_Some_iff)
  then have id: "cm_sequence ?m = sq" using keyed by (auto simp: checkpoints_keyed_def)
  have "mapR (load_segment t) (cm_segments ?m) = mapR (load_segment s) (cm_segments ?m)"
    by (rule mapR_cong) (simp add: load_segment_def sel(15))
  then show latest_t: "latest_checkpoint env t = Inr (Some c')"
    using sq verify_root [OF sq(4)] by (simp add: latest_checkpoint_def sel id c'_def Let_def) (cases c; simp)
  have resume: "resume_after (Some c') = ?covered" "resume_after (Some c) = ?covered"
    "resume_head (Some c') = resume_head (Some c)"
    by (simp_all add: resume_after_def resume_head_def resume_point_def c'_def)
  from ok latest have rec: "?covered \<le> committed_commit_sequence s"
    "chain_verified env (resume_head (Some c)) (log_suffix s (Some c))"
    "list_all op_applicable (all_operations (log_suffix s (Some c)))"
    "chain_head s = chain_end (resume_head (Some c)) (log_suffix s (Some c))"
    by (auto simp: history_ok_def recoverable_def resume)
  have "?covered < commit_sequence_next ?covered"
    using word_below_top [OF rec(1) room] by (simp add: commit_sequence_next_def word_below_next)
  then show suffix: "log_suffix t (Some c') = log_suffix s (Some c)"
    by (auto simp: log_suffix_def resume versioned_entries_from_def tbl_from_def sel(2)
        intro!: arg_cong [of _ _ "map snd"] filter_cong)
  have "recoverable env t"
    unfolding recoverable_def using latest_t rec
    by (intro exI [of _ "Some c'"]) (simp add: resume suffix sel chain_head_def)
  moreover have "checkpoints_keyed t"
  proof -
    have "tbl_ok (st_checkpoints t)" using keyed sel(14) by (simp add: checkpoints_keyed_def)
    moreover from this have "\<And>k x. (k, x) \<in> set (st_checkpoints t) \<Longrightarrow> cm_sequence x = k"
      by (auto simp: sel(13) split: if_splits simp flip: tbl_get_Some_iff)
    ultimately show ?thesis by (auto simp: checkpoints_keyed_def)
  qed
  moreover have "logs_agree t"
    using ok by (auto simp: history_ok_def logs_agree_def sel filter_map intro!: map_cong filter_cong)
  ultimately show "history_ok env t" by (simp add: history_ok_def sel(16))
qed

section \<open>The engine operations\<close>

text \<open>What \<open>take_checkpoint\<close> does when it succeeds.\<close>

lemma take_checkpoint_Inr:
  assumes "take_checkpoint env e = (Inr receipt, e')"
  obtains policy previous m segs n where "eng_policy e = Some policy"
    and "latest_checkpoint env (eng_storage e) = Inr previous"
    and "checkpoint_plan env e policy previous = Inr (m, segs, n)"
    and "e' = e\<lparr>eng_storage := publish_checkpoint env m segs (eng_storage e)\<rparr>"
    and "cr_sequence receipt = cm_sequence m" "cr_covered receipt = cm_covered m"
      "cr_view_digest receipt = cm_view_digest m" "cr_checkpoint_digest receipt = cm_checkpoint_digest m"
      "cr_segment_count receipt = length segs" "cr_row_count receipt = n"
  using assms
  by (auto simp: take_checkpoint_def bindS_eq_Inr engine_put_Inr split: option.splits)

lemma take_checkpoint_Inl: "take_checkpoint env e = (Inl err, e') \<Longrightarrow> e' = e"
  by (auto simp: take_checkpoint_def bindS_reads bindS_def dest!: engine_put_Inl
      split: option.splits sum.splits prod.splits)

end
