(* ===== verification/Maintenance_Laws.thy ===== *)
theory Maintenance_Laws
  imports History_Laws
begin

text \<open>
  The engine operations that shorten the history keep the engine invariant, on every branch, and change
  nothing but checkpoints, the covered log prefix and the covered outbox rows.
\<close>

section \<open>Taking a checkpoint\<close>

text \<open>The segments the next checkpoint of the engine would publish can be told apart by digest.\<close>

definition segments_addressable :: "'r engine_env \<Rightarrow> 'r engine \<Rightarrow> bool" where
  "segments_addressable env e \<longleftrightarrow>
     (\<forall>policy previous m segs n. eng_policy e = Some policy \<longrightarrow>
        latest_checkpoint env (eng_storage e) = Inr previous \<longrightarrow>
        checkpoint_plan env e policy previous = Inr (m, segs, n) \<longrightarrow> addressable env segs)"

text \<open>Everything but the history planes is as before.\<close>

definition history_only :: "'r engine \<Rightarrow> 'r engine \<Rightarrow> bool" where
  "history_only e e' \<longleftrightarrow>
     eng_catalog e' = eng_catalog e \<and> eng_subscriptions e' = eng_subscriptions e
     \<and> eng_policy e' = eng_policy e \<and> eng_staging e' = eng_staging e \<and> eng_fault e' = eng_fault e
     \<and> st_rows (eng_storage e') = st_rows (eng_storage e)
     \<and> st_identified_rows (eng_storage e') = st_identified_rows (eng_storage e)
     \<and> st_staging_slot (eng_storage e') = st_staging_slot (eng_storage e)
     \<and> st_compaction_intent (eng_storage e') = st_compaction_intent (eng_storage e)
     \<and> st_mirror_cursor (eng_storage e') = st_mirror_cursor (eng_storage e)
     \<and> chain_head (eng_storage e') = chain_head (eng_storage e)
     \<and> committed_commit_sequence (eng_storage e') = committed_commit_sequence (eng_storage e)
     \<and> committed_snapshot (eng_storage e') = committed_snapshot (eng_storage e)"

lemma history_only_refl [simp]: "history_only e e"
  by (simp add: history_only_def)

lemma history_only_trans: "history_only a b \<Longrightarrow> history_only b c \<Longrightarrow> history_only a c"
  by (simp add: history_only_def)

lemma history_only_ok:
  assumes "history_only e e'" and "engine_ok env e" and "eng_policy e \<noteq> None"
    and "history_ok env (eng_storage e')"
  shows "engine_ok env e'"
  using assms by (simp add: engine_ok_def history_only_def staging_slot_def) (simp add: history_ok_def)

lemma take_checkpoint_ok:
  assumes ok: "engine_ok env e" and room: "committed_commit_sequence (eng_storage e) \<noteq> - 1"
    and addr: "segments_addressable env e" and run: "take_checkpoint env e = (r, e')"
  shows "engine_ok env e' \<and> history_only e e'
    \<and> st_versioned_log (eng_storage e') = st_versioned_log (eng_storage e)
    \<and> st_commit_log (eng_storage e') = st_commit_log (eng_storage e)
    \<and> st_outbox (eng_storage e') = st_outbox (eng_storage e)
    \<and> (\<forall>receipt. r = Inr receipt \<longrightarrow>
         (\<exists>c. latest_checkpoint env (eng_storage e') = Inr (Some c)
            \<and> log_suffix (eng_storage e') (Some c) = [] \<and> resume_head (Some c) = chain_head (eng_storage e')
            \<and> cr_checkpoint_digest receipt = cm_checkpoint_digest (ck_metadata c)
            \<and> cr_covered receipt = cm_covered (ck_metadata c)
            \<and> cr_view_digest receipt = cm_view_digest (ck_metadata c)))"
proof (cases r)
  case (Inl err)
  with run take_checkpoint_Inl [of env e err e'] ok show ?thesis by simp
next
  case (Inr receipt)
  with run obtain policy previous m segs n where t: "eng_policy e = Some policy"
    "latest_checkpoint env (eng_storage e) = Inr previous"
    "checkpoint_plan env e policy previous = Inr (m, segs, n)"
    "e' = e\<lparr>eng_storage := publish_checkpoint env m segs (eng_storage e)\<rparr>"
    "cr_sequence receipt = cm_sequence m" "cr_covered receipt = cm_covered m"
    "cr_view_digest receipt = cm_view_digest m" "cr_checkpoint_digest receipt = cm_checkpoint_digest m"
    by (metis take_checkpoint_Inr)
  let ?c = "\<lparr>ck_metadata = m, ck_segments = segs\<rparr>"
  have hist: "history_ok env (eng_storage e)" using ok t(1) by (simp add: engine_ok_def)
  have "addressable env segs" using addr t(1-3) by (auto simp: segments_addressable_def)
  note keeps = publish_keeps_history [OF hist t(2,3) this room]
  have only: "history_only e e'" by (simp add: history_only_def t(4))
  have "engine_ok env e'"
    by (rule history_only_ok [OF only ok]) (simp_all add: t(1,4) keeps)
  moreover have "resume_head (Some ?c) = chain_head (eng_storage e')"
    using keeps by (auto simp: history_ok_def recoverable_def t(4) chain_end_def)
  ultimately show ?thesis
    using only keeps t(4-) Inr by (auto intro!: exI [of _ ?c])
qed

section \<open>Compacting the history\<close>

lemma prune_ok:
  assumes ok: "engine_ok env e" and policy: "eng_policy e \<noteq> None"
    and room: "committed_commit_sequence (eng_storage e) \<noteq> - 1"
    and latest: "latest_checkpoint env (eng_storage e) = Inr (Some c)"
    and e': "e' = e\<lparr>eng_storage := prune_history env (ck_metadata c) (eng_storage e)\<rparr>"
  shows "engine_ok env e'" and "history_only e e'"
proof -
  have hist: "history_ok env (eng_storage e)" using ok policy by (simp add: engine_ok_def)
  then have logs: "logs_ok (eng_storage e)" by (simp add: history_ok_def)
  note sel = prune_history_sel [OF logs room, of env "ck_metadata c"]
  show only: "history_only e e'"
    by (simp add: history_only_def e' sel chain_head_def)
  show "engine_ok env e'"
    by (rule history_only_ok [OF only ok policy]) (simp add: e' prune_keeps_history [OF hist latest room])
qed

lemma covering_checkpoint_ok:
  assumes ok: "engine_ok env e" and room: "committed_commit_sequence (eng_storage e) \<noteq> - 1"
    and addr: "segments_addressable env e" and run: "covering_checkpoint env e = (r, e')"
  shows "engine_ok env e' \<and> history_only e e'
    \<and> st_versioned_log (eng_storage e') = st_versioned_log (eng_storage e)
    \<and> st_commit_log (eng_storage e') = st_commit_log (eng_storage e)
    \<and> st_outbox (eng_storage e') = st_outbox (eng_storage e)
    \<and> (\<forall>c. r = Inr c \<longrightarrow> latest_checkpoint env (eng_storage e') = Inr (Some c))"
proof -
  have taken: ?thesis if "bindS (take_checkpoint env e)
      (\<lambda>_ e. bindS (reads (latest_checkpoint env (eng_storage e)) e) (\<lambda>c' e. (Inr (the c'), e))) = (r, e')"
  proof (cases "take_checkpoint env e")
    case (Pair r1 e1)
    note one = take_checkpoint_ok [OF ok room addr Pair]
    show ?thesis
    proof (cases r1)
      case (Inl err)
      with that Pair one show ?thesis by auto
    next
      case (Inr receipt)
      with one obtain c where "latest_checkpoint env (eng_storage e1) = Inr (Some c)" by blast
      with that Pair Inr one show ?thesis by auto
    qed
  qed
  show ?thesis
  proof (cases "latest_checkpoint env (eng_storage e)")
    case (Inl err)
    with run ok show ?thesis by (auto simp: covering_checkpoint_def Let_def)
  next
    case (Inr found)
    with run ok taken show ?thesis
      by (auto simp: covering_checkpoint_def Let_def split: option.splits if_splits)
  qed
qed

text \<open>The floor a compaction reached: the rows above it are all that is left of the logs and the
  outbox.\<close>

definition pruned_to :: "commit_sequence \<Rightarrow> 'r store \<Rightarrow> 'r store \<Rightarrow> bool" where
  "pruned_to covered s t \<longleftrightarrow>
     st_commit_log t = filter (\<lambda>r. covered < fst r) (st_commit_log s)
     \<and> st_versioned_log t = filter (\<lambda>r. covered < fst r) (st_versioned_log s)
     \<and> st_outbox t = filter (\<lambda>r. covered < fst r) (st_outbox s)"

definition unpruned :: "'r store \<Rightarrow> 'r store \<Rightarrow> bool" where
  "unpruned s t \<longleftrightarrow>
     st_commit_log t = st_commit_log s \<and> st_versioned_log t = st_versioned_log s
     \<and> st_outbox t = st_outbox s"

lemma ensure_mirror_covers_Inr:
  "ensure_mirror_covers s ack covered = Inr () \<longleftrightarrow>
     (case ack of
        AckLocalCheckpoint \<Rightarrow> True
      | AckMirror head \<Rightarrow> covered \<le> mh_commit_sequence head
          \<and> (\<exists>stored. st_mirror_cursor s = Some stored \<and> covered \<le> mh_commit_sequence stored))"
  by (auto simp: ensure_mirror_covers_def Let_def is_none_or_def stored_mirror_head_def not_less
      split: history_acknowledgement.splits option.splits)

lemma validate_acknowledgement_Inr:
  assumes "validate_history_acknowledgement e ack = Inr ()"
  obtains policy where "eng_policy e = Some policy"
    and "policy_recovery_topology policy = Mirror \<longleftrightarrow> (\<exists>head. ack = AckMirror head)"
  using assms
  by (auto simp: validate_history_acknowledgement_def split: option.splits
      versioned_recovery_topology.splits history_acknowledgement.splits)

lemma compact_versioned_history_ok:
  assumes ok: "engine_ok env e" and room: "committed_commit_sequence (eng_storage e) \<noteq> - 1"
    and addr: "segments_addressable env e"
    and run: "compact_versioned_history env retention ack e = (r, e')"
  shows "engine_ok env e' \<and> history_only e e'
    \<and> (unpruned (eng_storage e) (eng_storage e')
       \<or> (\<exists>covered. pruned_to covered (eng_storage e) (eng_storage e')
            \<and> (\<forall>policy. eng_policy e = Some policy \<longrightarrow> policy_recovery_topology policy = Mirror \<longrightarrow>
                 (\<exists>head. st_mirror_cursor (eng_storage e) = Some head
                    \<and> covered \<le> mh_commit_sequence head))))"
proof (cases "validate_history_acknowledgement e ack")
  case (Inl err)
  with run ok show ?thesis by (auto simp: compact_versioned_history_def unpruned_def)
next
  case (Inr u)
  then obtain policy where policy: "eng_policy e = Some policy"
    and topology: "policy_recovery_topology policy = Mirror \<longleftrightarrow> (\<exists>head. ack = AckMirror head)"
    by (metis validate_acknowledgement_Inr old.unit.exhaust)
  show ?thesis
  proof (cases "(of_nat (length (versioned_entries (eng_storage e))) :: u64) \<le> maximum_live_entries retention")
    case True
    with run Inr ok show ?thesis
      by (auto simp: compact_versioned_history_def Let_def bindS_reads unpruned_def split: sum.splits)
  next
    case False
    obtain r1 e1 where cover: "covering_checkpoint env e = (r1, e1)" by (cases "covering_checkpoint env e")
    note one = covering_checkpoint_ok [OF ok room addr cover]
    then have unpruned: "unpruned (eng_storage e) (eng_storage e1)" by (simp add: unpruned_def)
    show ?thesis
    proof (cases r1)
      case (Inl err)
      with run Inr False cover one unpruned show ?thesis
        by (auto simp: compact_versioned_history_def Let_def)
    next
      case (Inr c)
      let ?covered = "csr_last (cm_covered (ck_metadata c))"
      show ?thesis
      proof (cases "ensure_mirror_covers (eng_storage e1) ack ?covered")
        case (Inl err)
        with run Inr \<open>validate_history_acknowledgement e ack = Inr u\<close> False cover one unpruned
        show ?thesis by (auto simp: compact_versioned_history_def Let_def)
      next
        case covers: (Inr v)
        define e2 where "e2 = e1\<lparr>eng_storage := prune_history env (ck_metadata c) (eng_storage e1)\<rparr>"
        have e': "e' = e1 \<or> e' = e2"
          using run Inr \<open>validate_history_acknowledgement e ack = Inr u\<close> False cover covers
          by (cases rule: engine_put_cases [of env "prune_history env (ck_metadata c)" e1])
            (auto simp: compact_versioned_history_def Let_def keys_through_def e2_def)
        have e1: "engine_ok env e1" "history_only e e1" "eng_policy e1 \<noteq> None"
          "committed_commit_sequence (eng_storage e1) \<noteq> - 1"
          "latest_checkpoint env (eng_storage e1) = Inr (Some c)" "logs_ok (eng_storage e1)"
          using one Inr policy room by (auto simp: history_only_def engine_ok_def)
        note pruned = prune_ok [OF e1(1,3,4,5) e2_def]
          and sel = prune_history_sel [OF e1(6,4), of env "ck_metadata c"]
        have "pruned_to ?covered (eng_storage e) (eng_storage e2)"
          using unpruned by (simp add: pruned_to_def unpruned_def e2_def sel)
        moreover have "\<exists>head. st_mirror_cursor (eng_storage e) = Some head
            \<and> ?covered \<le> mh_commit_sequence head" if "policy_recovery_topology policy = Mirror"
          using that topology covers e1(2)
          by (auto simp: ensure_mirror_covers_Inr history_only_def)
        ultimately show ?thesis
          using e' e1 pruned unpruned policy history_only_trans [OF e1(2) pruned(2)] by auto
      qed
    qed
  qed
qed

lemma compact_configured_cases:
  assumes "compact_configured_versioned_history env e = (r, e')"
  shows "e' = e \<or> (\<exists>retention ack. compact_versioned_history env retention ack e = (r, e'))"
  using assms
  by (auto simp: compact_configured_versioned_history_def Let_def bindS_reads
      split: option.splits sum.splits if_splits)

lemma maintain_ok:
  assumes ok: "engine_ok env e" and room: "committed_commit_sequence (eng_storage e) \<noteq> - 1"
    and addr: "segments_addressable env e"
    and run: "maintain_versioned_history env e = (r, e')"
  shows "engine_ok env e' \<and> history_only e e'
    \<and> (unpruned (eng_storage e) (eng_storage e')
       \<or> (\<exists>covered. pruned_to covered (eng_storage e) (eng_storage e')
            \<and> (\<forall>policy. eng_policy e = Some policy \<longrightarrow> policy_recovery_topology policy = Mirror \<longrightarrow>
                 (\<exists>head. st_mirror_cursor (eng_storage e) = Some head
                    \<and> covered \<le> mh_commit_sequence head))))"
proof -
  have "e' = e \<or> (\<exists>r1 retention ack. compact_versioned_history env retention ack e = (r1, e'))"
  proof (cases "compact_configured_versioned_history env e")
    case (Pair r1 e1)
    then have "e1 = e' \<or> e' = e"
      using run by (cases r1) (auto simp: maintain_versioned_history_def split: if_splits)
    with compact_configured_cases [OF Pair] show ?thesis by blast
  qed
  then show ?thesis
  proof (elim disjE exE)
    assume "e' = e"
    with ok show ?thesis by (simp add: unpruned_def)
  next
    fix r1 retention ack
    assume "compact_versioned_history env retention ack e = (r1, e')"
    from compact_versioned_history_ok [OF ok room addr this] show ?thesis .
  qed
qed

end
