(* ===== verification/Sample_Engine.thy ===== *)
theory Sample_Engine
  imports Maintenance_Laws Samples
begin

text \<open>
  Concrete engines the witnesses evaluate the engine properties on: an in-memory codec and kernel that
  commits every transaction, one registered family, an empty store, and the same with one stored record.
\<close>

section \<open>A concrete engine\<close>

definition sample_env :: "nat engine_env" where
  "sample_env =
     \<lparr>blake3 = sample_hash, as_record_head = sample_head,
      env_to_bytes = (\<lambda>r. if r < 256 then Inr [of_nat r] else Inl ''range''),
      env_from_bytes = (\<lambda>table bs. case bs of [b] \<Rightarrow> Inr (unat b) | _ \<Rightarrow> Inl ''length''),
      env_record_key = (\<lambda>r. Domain (decimal r)),
      env_commit_fault = (\<lambda>s. None)\<rparr>"

definition sample_policy :: versioning_policy where
  "sample_policy = versioning_policy_new ''store''"

definition sample_engine :: "nat engine" where
  "sample_engine =
     \<lparr>eng_storage = store_empty, eng_catalog = [registration_new sample_family],
      eng_subscriptions = registry_new, eng_policy = Some sample_policy, eng_staging = None,
      eng_fault = None\<rparr>"

lemma sample_env_sel [simp]:
  "r < 256 \<Longrightarrow> env_to_bytes sample_env r = Inr [of_nat r]" "env_commit_fault sample_env s = None"
  by (simp_all add: sample_env_def)

lemma sample_env_decodes: "env_from_bytes sample_env table [b] = Inr (unat b)"
  by (simp add: sample_env_def)

lemma sample_engine_sel [simp]:
  "eng_storage sample_engine = store_empty" "eng_staging sample_engine = None"
  "eng_policy sample_engine = Some sample_policy"
  "eng_catalog sample_engine = [registration_new sample_family]"
  "eng_subscriptions sample_engine = registry_new" "eng_fault sample_engine = None"
  by (simp_all add: sample_engine_def)

lemma store_empty_reads [simp]:
  "committed_commit_sequence store_empty = 0" "committed_snapshot store_empty = 0"
  "staging_slot store_empty = None" "st_rows store_empty t = []" "st_identified_rows store_empty t = []"
  "st_outbox store_empty = []" "st_versioned_log store_empty = []" "st_commit_log store_empty = []"
  "latest_checkpoint env store_empty = Inr None" "st_mirror_cursor store_empty = None"
  by (simp_all add: committed_commit_sequence_def committed_snapshot_def counter_get_def store_empty_def
      staging_slot_def latest_checkpoint_def commit_sequence_genesis_def snapshot_genesis_def)

lemma sample_engine_ok: "engine_ok env sample_engine"
  using history_ok_empty by (simp add: engine_ok_def) (simp add: history_ok_def)

lemma sample_registered:
  "registered_family sample_engine ''notes'' = Inr sample_family"
  "is_registered (eng_catalog sample_engine) ''notes''"
  by (simp_all add: registered_family_def catalog_family_identity_def registration_for_table_def
      is_registered_def registration_new_def registration_table_name_def sample_family_def)

text \<open>The same engine with one stored record.\<close>

definition sample_full :: "nat engine" where
  "sample_full = sample_engine\<lparr>eng_storage := row_insert ''notes'' ''a'' 5 store_empty\<rparr>"

lemma sample_full_sel [simp]:
  "eng_storage sample_full = row_insert ''notes'' ''a'' 5 store_empty" "eng_staging sample_full = None"
  "eng_policy sample_full = Some sample_policy" "eng_catalog sample_full = eng_catalog sample_engine"
  "eng_subscriptions sample_full = registry_new"
  by (simp_all add: sample_full_def)

lemma sample_full_reads [simp]:
  "committed_commit_sequence (row_insert t k r s) = committed_commit_sequence s"
  "staging_slot (row_insert t k r s) = staging_slot s"
  by (simp_all add: same_history_reads [OF same_history_updates(1)])

lemma sample_full_row [simp]:
  "record_at sample_full ''notes'' (Domain ''a'') = Some 5"
  "registered_family sample_full table = registered_family sample_engine table"
  by (simp_all add: record_at_def row_insert_def tbl_get_def registered_family_def)

lemma sample_full_ok: "engine_ok env sample_full"
  using history_ok_empty [of env]
  by (simp add: engine_ok_def same_history_invariants [OF same_history_updates(1)])
    (simp add: history_ok_def)

end
