(* ===== verification/Write_Theorems.thy ===== *)
theory Write_Theorems
  imports Write_Properties Sample_Engine
begin

text \<open>
  The properties of the direct writes.
\<close>

section \<open>Successful writes\<close>

text \<open>Only the row at one key of one table changed.\<close>

definition only_row :: "string \<Rightarrow> record_key \<Rightarrow> 'r option \<Rightarrow> 'r engine \<Rightarrow> 'r engine \<Rightarrow> bool" where
  "only_row table key r e e1 \<longleftrightarrow>
     record_at e1 table key = r
     \<and> (\<forall>t k. (t, to_owned_string k) \<noteq> (table, to_owned_string key) \<longrightarrow>
          record_at e1 t k = record_at e t k)
     \<and> st_identified_rows (eng_storage e1) = st_identified_rows (eng_storage e)"

lemma landed_rows:
  "st_rows (landed body (\<lambda>s. s) policy en v sq snap s) = st_rows (body s)"
  "st_identified_rows (landed body (\<lambda>s. s) policy en v sq snap s) = st_identified_rows (body s)"
  by (simp_all add: landed_def)

lemma lands_keyed_insert:
  "lands_keyed env (row_insert table (to_owned_string key) r) oper kind table key payload d e e1 \<Longrightarrow>
   only_row table key (Some r) e e1"
  by (auto simp: lands_keyed_def only_row_def record_at_def commits_sel(1) landed_rows row_insert_def
      table_simps)

lemma lands_keyed_remove:
  "lands_keyed env (row_remove table (to_owned_string key)) oper kind table key payload d e e1 \<Longrightarrow>
   only_row table key None e e1"
  by (auto simp: lands_keyed_def only_row_def record_at_def commits_sel(1) landed_rows row_remove_def
      table_simps)

text \<open>What a successful single write leaves, before maintenance.\<close>

definition wrote ::
  "'r engine_env \<Rightarrow> sema_operation \<Rightarrow> delta_kind \<Rightarrow> string \<Rightarrow> record_key \<Rightarrow> family_identity
   \<Rightarrow> versioned_payload \<Rightarrow> 'r option \<Rightarrow> 'r \<Rightarrow> 'r engine \<Rightarrow> 'r engine \<Rightarrow> bool" where
  "wrote env oper kind table key fam payload row delta e e1 \<longleftrightarrow>
     only_row table key row e e1
     \<and> appends_commit env [commit_log_operation_new oper table (Some key)]
         (\<lambda>vops. vops = [\<lparr>vop_operation = oper, vop_family = fam, vop_key = Some key,
                          vop_payload = payload\<rparr>]) e e1
     \<and> engine_ok env e1
     \<and> eng_subscriptions e1 = deliver_delta kind table key (next_snapshot e) delta (eng_subscriptions e)"

lemma keyed_landed:
  assumes "logged_op env e table oper key payload vop"
  shows "lands_keyed env body oper kind table key payload r e
    (deliver kind table key (next_snapshot e) r (e\<lparr>eng_storage :=
       land_commit (eng_policy e) (log_counts (eng_storage e))
         (single_entry (next_commit_sequence e) (next_snapshot e) oper table key)
         (versioned_entry_of env e (ne_single vop)) (next_commit_sequence e) (next_snapshot e)
         (body (eng_storage e))\<rparr>))"
  using assms
  by (auto simp: lands_keyed_def commits_def deliver_def landed_def single_entry_of)

lemma lands_keyed_wrote:
  assumes lands: "lands_keyed env body oper kind table key payload delta e e1"
    and body: "commit_body body (\<lambda>s. s)" and ok: "engine_ok env e"
    and room: "committed_commit_sequence (eng_storage e) \<noteq> - 1"
    and kind: "if payload = None then oper = Retract else oper \<in> {Assert, Mutate}"
    and row: "only_row table key row e e1"
    and fam: "registered_family e table = Inr fam"
    and bytes: "pl = (case payload of None \<Rightarrow> Tombstone | Some r \<Rightarrow> PayloadRecord (bytes_of r))"
      "\<And>r. payload = Some r \<Longrightarrow> env_to_bytes env r = Inr (bytes_of r)"
  shows "wrote env oper kind table key fam pl row delta e e1"
proof -
  from lands obtain vop where vop: "logged_op env e table oper key payload vop"
    and commit: "commits env body (\<lambda>s. s) (single_log oper table key) (ne_single vop) e e1"
    and subs: "eng_subscriptions e1 = deliver_delta kind table key (next_snapshot e) delta (eng_subscriptions e)"
    by (auto simp: lands_keyed_def)
  have "vop = \<lparr>vop_operation = oper, vop_family = fam, vop_key = Some key, vop_payload = pl\<rparr>"
    if "eng_policy e \<noteq> None"
    using vop that fam bytes by (cases vop) (auto simp: logged_op_def split: option.splits)
  then have "appends_commit env (ne_list (single_log oper table key))
      (\<lambda>vops. vops = [\<lparr>vop_operation = oper, vop_family = fam, vop_key = Some key, vop_payload = pl\<rparr>]) e e1"
    using ok room by (intro commits_appends [OF body commit]) (auto simp: engine_ok_def)
  moreover have "engine_ok env e1"
    using lands_keyed_one [OF lands body ok room kind] by (simp add: lands_one_def)
  ultimately show ?thesis
    using row subs by (simp add: wrote_def single_log_def)
qed

lemma registered_is: "registered_family e t = Inr fam \<Longrightarrow> is_registered (eng_catalog e) t"
  by (simp add: registered_family_def ok_or_eq_Inr catalog_family_identity_def is_registered_def)
    (metis option.simps(8))

lemma record_entry_Inr:
  assumes "registered_family e t = Inr fam" and "env_to_bytes env r = Inr bs"
  shows "versioned_record_entry env e (next_commit_sequence e) (next_snapshot e) oper t (Some k) r =
    Inr (versioned_entry_of env e (ne_single
      \<lparr>vop_operation = oper, vop_family = fam, vop_key = Some k, vop_payload = PayloadRecord bs\<rparr>))"
  using assms
  by (simp add: versioned_record_entry_def versioned_record_payload_def versioned_entry_of_def
      versioned_entry_for_def)

lemma tombstone_entry_Inr:
  assumes "registered_family e t = Inr fam"
  shows "versioned_tombstone_entry env e (next_commit_sequence e) (next_snapshot e) oper t (Some k) =
    Inr (versioned_entry_of env e (ne_single
      \<lparr>vop_operation = oper, vop_family = fam, vop_key = Some k, vop_payload = Tombstone\<rparr>))"
  using assms
  by (simp add: versioned_tombstone_entry_def versioned_entry_of_def versioned_entry_for_def)

lemma put_no_fault:
  "\<forall>s. env_commit_fault env s = None \<Longrightarrow>
   engine_put env f e = (Inr (), e\<lparr>eng_storage := f (eng_storage e)\<rparr>)"
  by (simp add: engine_put_def engine_write_def store_write_def)

section \<open>Properties\<close>

text \<open>C9 A keyed assertion of an absent key, on a store whose kernel commits: the row is there, no other
  row of any table changed, one metadata entry and (on a versioned store) one correctly chained versioned
  entry carrying the record's bytes were appended, the sequence and snapshot advanced by one, the delta
  reached the subscribers, and the engine invariant holds; then the history maintenance runs.\<close>

theorem assert_commits:
  assumes ok: "engine_ok env e" and room: "committed_commit_sequence (eng_storage e) \<noteq> - 1"
    and idle: "eng_staging e = None" and fam: "registered_family e (ka_table a) = Inr fam"
    and absent: "record_at e (ka_table a) (ka_key a) = None"
    and bytes: "env_to_bytes env (ka_record a) = Inr bs" and no_fault: "\<forall>s. env_commit_fault env s = None"
  shows "\<exists>e1. assert_keyed env a e = finish_write env
      (mutation_receipt_new Assert (ka_table a) (ka_key a) (next_commit_sequence e) (next_snapshot e)) e1
    \<and> wrote env Assert DeltaAssert (ka_table a) (ka_key a) fam (PayloadRecord bs)
        (Some (ka_record a)) (ka_record a) e e1"
proof -
  let ?t = "ka_table a" and ?k = "ka_key a" and ?r = "ka_record a"
  let ?vop = "\<lparr>vop_operation = Assert, vop_family = fam, vop_key = Some ?k, vop_payload = PayloadRecord bs\<rparr>"
  have "logged_op env e ?t Assert ?k (Some ?r) ?vop"
    by (simp add: logged_op_def fam bytes)
  note lands = keyed_landed [OF this, of "row_insert ?t (to_owned_string ?k) ?r" DeltaAssert ?r]
  show ?thesis
    by (rule exI, rule conjI [rotated], rule lands_keyed_wrote [OF lands insert_body.commit_body_axioms ok room _
          lands_keyed_insert [OF lands] fam, where bytes_of = "\<lambda>_. bs"])
      (simp_all add: bytes assert_keyed_def Let_def ensure_registered_def registered_is [OF fam] idle
        absent record_entry_Inr [OF fam bytes] put_no_fault [OF no_fault])
qed

lemma assert_commits_witness:
  "\<exists>e1. assert_keyed sample_env \<lparr>ka_table = ''notes'', ka_key = Domain ''a'', ka_record = 5\<rparr> sample_engine =
      finish_write sample_env
        (mutation_receipt_new Assert ''notes'' (Domain ''a'') (next_commit_sequence sample_engine) (next_snapshot sample_engine)) e1
    \<and> wrote sample_env Assert DeltaAssert ''notes'' (Domain ''a'') sample_family (PayloadRecord [5])
        (Some 5) 5 sample_engine e1"
  using assert_commits [of sample_env sample_engine
      "\<lparr>ka_table = ''notes'', ka_key = Domain ''a'', ka_record = 5\<rparr>" sample_family "[5]"]
  by (simp add: sample_engine_ok sample_registered record_at_def)

text \<open>C10 A keyed mutation of a present key replaces that row and nothing else, and appends one commit
  whose versioned entry carries the new bytes.\<close>

theorem mutate_commits:
  assumes ok: "engine_ok env e" and room: "committed_commit_sequence (eng_storage e) \<noteq> - 1"
    and idle: "eng_staging e = None" and fam: "registered_family e (km_table m) = Inr fam"
    and present: "record_at e (km_table m) (km_key m) = Some old"
    and bytes: "env_to_bytes env (km_record m) = Inr bs" and no_fault: "\<forall>s. env_commit_fault env s = None"
  shows "\<exists>e1. mutate_keyed env m e = finish_write env
      (mutation_receipt_new Mutate (km_table m) (km_key m) (next_commit_sequence e) (next_snapshot e)) e1
    \<and> wrote env Mutate DeltaMutate (km_table m) (km_key m) fam (PayloadRecord bs)
        (Some (km_record m)) (km_record m) e e1"
proof -
  let ?t = "km_table m" and ?k = "km_key m" and ?r = "km_record m"
  let ?vop = "\<lparr>vop_operation = Mutate, vop_family = fam, vop_key = Some ?k, vop_payload = PayloadRecord bs\<rparr>"
  have "logged_op env e ?t Mutate ?k (Some ?r) ?vop"
    by (simp add: logged_op_def fam bytes)
  note lands = keyed_landed [OF this, of "row_insert ?t (to_owned_string ?k) ?r" DeltaMutate ?r]
  show ?thesis
    by (rule exI, rule conjI [rotated], rule lands_keyed_wrote [OF lands insert_body.commit_body_axioms ok room _
          lands_keyed_insert [OF lands] fam, where bytes_of = "\<lambda>_. bs"])
      (simp_all add: bytes mutate_keyed_def Let_def ensure_registered_def registered_is [OF fam] idle
        present record_entry_Inr [OF fam bytes] put_no_fault [OF no_fault])
qed

lemma mutate_commits_witness:
  "\<exists>e1. mutate_keyed sample_env \<lparr>km_table = ''notes'', km_key = Domain ''a'', km_record = 6\<rparr> sample_full =
      finish_write sample_env
        (mutation_receipt_new Mutate ''notes'' (Domain ''a'') (next_commit_sequence sample_full) (next_snapshot sample_full)) e1
    \<and> wrote sample_env Mutate DeltaMutate ''notes'' (Domain ''a'') sample_family (PayloadRecord [6])
        (Some 6) 6 sample_full e1"
  using mutate_commits [of sample_env sample_full
      "\<lparr>km_table = ''notes'', km_key = Domain ''a'', km_record = 6\<rparr>" sample_family 5 "[6]"]
  by (simp add: sample_full_ok sample_registered)

text \<open>C11 A retraction of a present key removes that row and nothing else, appends one commit with a
  tombstone, and its delta carries the removed record.\<close>

theorem retract_commits:
  assumes ok: "engine_ok env e" and room: "committed_commit_sequence (eng_storage e) \<noteq> - 1"
    and idle: "eng_staging e = None" and fam: "registered_family e (rt_table rt) = Inr fam"
    and present: "record_at e (rt_table rt) (rt_key rt) = Some old"
    and no_fault: "\<forall>s. env_commit_fault env s = None"
  shows "\<exists>e1. engine_retract env rt e = finish_write env
      (mutation_receipt_new Retract (rt_table rt) (rt_key rt) (next_commit_sequence e) (next_snapshot e)) e1
    \<and> wrote env Retract DeltaRetract (rt_table rt) (rt_key rt) fam Tombstone None old e e1"
proof -
  let ?t = "rt_table rt" and ?k = "rt_key rt"
  let ?vop = "\<lparr>vop_operation = Retract, vop_family = fam, vop_key = Some ?k, vop_payload = Tombstone\<rparr>"
  have "logged_op env e ?t Retract ?k None ?vop"
    by (simp add: logged_op_def fam)
  note lands = keyed_landed [OF this, of "row_remove ?t (to_owned_string ?k)" DeltaRetract old]
  have row: "tbl_get (st_rows (eng_storage e) ?t) (to_owned_string ?k) = Some old"
    using present by (simp add: record_at_def)
  show ?thesis
    by (rule exI, rule conjI [rotated], rule lands_keyed_wrote [OF lands remove_body.commit_body_axioms ok room _
          lands_keyed_remove [OF lands] fam, where bytes_of = "\<lambda>_. []"])
      (simp_all add: engine_retract_def Let_def ensure_registered_def registered_is [OF fam] idle
        record_at_def row tombstone_entry_Inr [OF fam] engine_write_def store_write_def no_fault)
qed

lemma retract_commits_witness:
  "\<exists>e1. engine_retract sample_env \<lparr>rt_table = ''notes'', rt_key = Domain ''a''\<rparr> sample_full =
      finish_write sample_env
        (mutation_receipt_new Retract ''notes'' (Domain ''a'') (next_commit_sequence sample_full) (next_snapshot sample_full)) e1
    \<and> wrote sample_env Retract DeltaRetract ''notes'' (Domain ''a'') sample_family Tombstone None 5
        sample_full e1"
  using retract_commits [of sample_env sample_full
      "\<lparr>rt_table = ''notes'', rt_key = Domain ''a''\<rparr>" sample_family 5]
  by (simp add: sample_full_ok sample_registered)

text \<open>C2 Every direct write is atomic: it is refused and the engine is exactly as before, or one commit
  landed (one entry in each log over the same operations, the successor of the chain head, the engine
  invariant intact), and what follows is at most the history maintenance, whose failure is then the
  write's result although the commit is durable.\<close>

theorem writes_are_atomic:
  assumes "engine_ok env e" and "eng_staging e = None"
    and "committed_commit_sequence (eng_storage e) \<noteq> - 1"
  shows "(\<exists>err. run_write env w e = (Inl err, e))
    \<or> (\<exists>e1. lands_one env e e1
        \<and> (run_write env w e = (Inr (), e1) \<or> run_write env w e = maintain_versioned_history env e1))"
  using run_write_settles [OF assms(2,1,3), of w] by (simp add: settles_def)

lemma writes_are_atomic_witness:
  "(\<exists>err. run_write sample_env (DirectRetract \<lparr>rt_table = ''notes'', rt_key = Domain ''a''\<rparr>) sample_full =
       (Inl err, sample_full))
   \<or> (\<exists>e1. lands_one sample_env sample_full e1
        \<and> (run_write sample_env (DirectRetract \<lparr>rt_table = ''notes'', rt_key = Domain ''a''\<rparr>) sample_full =
             (Inr (), e1)
           \<or> run_write sample_env (DirectRetract \<lparr>rt_table = ''notes'', rt_key = Domain ''a''\<rparr>) sample_full =
             maintain_versioned_history sample_env e1))"
  by (rule writes_are_atomic) (simp_all add: sample_full_ok)

text \<open>C12 What makes a keyed write fail before it starts, and that it then changes nothing: an
  unregistered table, an assertion of a present key, a mutation or retraction of an absent one.\<close>

theorem keyed_refusals:
  assumes "eng_staging e = None"
  shows "(\<not> is_registered (eng_catalog e) t \<longrightarrow>
      assert_keyed env \<lparr>ka_table = t, ka_key = k, ka_record = r\<rparr> e = (Inl (TableNotRegistered t), e)
      \<and> mutate_keyed env \<lparr>km_table = t, km_key = k, km_record = r\<rparr> e = (Inl (TableNotRegistered t), e)
      \<and> engine_retract env \<lparr>rt_table = t, rt_key = k\<rparr> e = (Inl (TableNotRegistered t), e))
    \<and> (is_registered (eng_catalog e) t \<longrightarrow> record_at e t k \<noteq> None \<longrightarrow>
      assert_keyed env \<lparr>ka_table = t, ka_key = k, ka_record = r\<rparr> e =
        (Inl (DuplicateAssertKey t (to_owned_string k)), e))
    \<and> (is_registered (eng_catalog e) t \<longrightarrow> record_at e t k = None \<longrightarrow>
      mutate_keyed env \<lparr>km_table = t, km_key = k, km_record = r\<rparr> e =
        (Inl (RecordNotFound t (to_owned_string k)), e)
      \<and> engine_retract env \<lparr>rt_table = t, rt_key = k\<rparr> e =
        (Inl (RecordNotFound t (to_owned_string k)), e))"
  using assms
  by (auto simp: assert_keyed_def mutate_keyed_def engine_retract_def Let_def ensure_registered_def
      duplicate_assert_key_def record_not_found_def)

lemma keyed_refusals_witness:
  "assert_keyed sample_env \<lparr>ka_table = ''notes'', ka_key = Domain ''a'', ka_record = 9\<rparr> sample_full =
     (Inl (DuplicateAssertKey ''notes'' ''a''), sample_full)
   \<and> mutate_keyed sample_env \<lparr>km_table = ''x'', km_key = Domain ''a'', km_record = 9\<rparr> sample_full =
     (Inl (TableNotRegistered ''x''), sample_full)"
proof -
  have "\<not> is_registered (eng_catalog sample_full) ''x''"
    by (simp add: is_registered_def registration_for_table_def registration_new_def
        registration_table_name_def sample_family_def)
  then show ?thesis
    using keyed_refusals [of sample_full "''notes''" sample_env "Domain ''a''" 9]
      keyed_refusals [of sample_full "''x''" sample_env "Domain ''a''" 9] sample_registered(2)
    by simp
qed

end
