(* ===== verification/History_Theorems.thy ===== *)
theory History_Theorems
  imports Write_Theorems
begin

text \<open>
  The properties of checkpoints, history compaction and rebuild.
\<close>

section \<open>Totality of the fold a history operation runs\<close>

lemma checkpoint_rows_carry:
  "verify env c = Inr () \<Longrightarrow> list_all (\<lambda>r. payload_bytes (vr_payload r) \<noteq> None) (checkpoint_rows c)"
  using canonical_fold_Inr [of env "checkpoint_rows c" "[]" None] by (auto simp: verify_Inr)

lemma resume_rows_carry:
  assumes "latest_checkpoint env s = Inr c"
  shows "list_all (\<lambda>r. payload_bytes (vr_payload r) \<noteq> None) (fst (resume_point c))"
proof (cases c)
  case None
  then show ?thesis by (simp add: resume_point_def)
next
  case (Some ck)
  with assms have "verify env ck = Inr ()" by (auto elim: latest_checkpoint_Some)
  from checkpoint_rows_carry [OF this] Some show ?thesis by (simp add: resume_point_def)
qed

text \<open>A recoverable store folds.\<close>

lemma recoverable_folds:
  assumes "recoverable env s"
  obtains c view where "latest_checkpoint env s = Inr c"
    and "canonical_fold env (fst (resume_point c)) (log_suffix s c) (resume_head c) = Inr view"
proof -
  from assms obtain c where c: "latest_checkpoint env s = Inr c"
    "chain_verified env (resume_head c) (log_suffix s c)"
    "list_all op_applicable (all_operations (log_suffix s c))"
    by (auto simp: recoverable_def)
  with resume_rows_carry [OF c(1)] that show thesis
    by (metis canonical_fold_Inr)
qed

lemma checkpoint_plan_total:
  assumes latest: "latest_checkpoint env (eng_storage e) = Inr c"
    and ok: "history_ok env (eng_storage e)" and ne: "log_suffix (eng_storage e) c \<noteq> []"
  shows "\<exists>m segs n. checkpoint_plan env e policy c = Inr (m, segs, n)"
proof -
  from ok have "recoverable env (eng_storage e)" by (simp add: history_ok_def)
  then obtain view where view: "canonical_fold env (fst (resume_point c)) (log_suffix (eng_storage e) c)
      (resume_head c) = Inr view"
    using latest by (auto elim: recoverable_folds)
  obtain first rest where fr: "log_suffix (eng_storage e) c = first # rest" using ne by (cases "log_suffix (eng_storage e) c") auto
  obtain rows head after where r: "resume_point c = (rows, head, after)" by (cases "resume_point c")
  have entries: "versioned_entries_from (eng_storage e) (commit_sequence_next after) = first # rest"
    using fr by (simp add: log_suffix_def resume_after_def r)
  obtain mr where "into_rows view (family_inventory (eng_catalog e)) = Inr mr"
    using into_rows_ok [OF canonical_fold_ok [OF view]] by blast
  with view fr show ?thesis
    by (simp add: checkpoint_plan_def r entries Let_def resume_head_def)
qed

lemma ensure_complete:
  "history_ok env s \<Longrightarrow> ensure_versioned_log_complete s = Inr ()"
  by (simp add: ensure_versioned_log_complete_def history_ok_def logs_agree_counts)

lemma take_checkpoint_total:
  assumes ok: "engine_ok env e" and policy: "eng_policy e = Some policy"
    and latest: "latest_checkpoint env (eng_storage e) = Inr c"
    and ne: "log_suffix (eng_storage e) c \<noteq> []" and no_fault: "\<forall>s. env_commit_fault env s = None"
  shows "\<exists>receipt e'. take_checkpoint env e = (Inr receipt, e')"
proof -
  have hist: "history_ok env (eng_storage e)" using ok policy by (simp add: engine_ok_def)
  obtain m segs n where "checkpoint_plan env e policy c = Inr (m, segs, n)"
    using checkpoint_plan_total [OF latest hist ne] by blast
  then show ?thesis
    by (simp add: take_checkpoint_def policy ensure_complete [OF hist] latest put_no_fault [OF no_fault])
qed

section \<open>A concrete engine with one logged commit\<close>

definition sample_versioned_operation :: versioned_log_operation where
  "sample_versioned_operation = sample_operation Assert (Domain ''a'') (PayloadRecord [5])"

definition sample_logged :: "nat engine" where
  "sample_logged = deliver DeltaAssert ''notes'' (Domain ''a'') (next_snapshot sample_engine) 5
     (sample_engine\<lparr>eng_storage :=
       land_commit (eng_policy sample_engine) (log_counts (eng_storage sample_engine))
         (single_entry (next_commit_sequence sample_engine) (next_snapshot sample_engine) Assert
            ''notes'' (Domain ''a''))
         (versioned_entry_of sample_env sample_engine (ne_single sample_versioned_operation))
         (next_commit_sequence sample_engine) (next_snapshot sample_engine)
         (row_insert ''notes'' (to_owned_string (Domain ''a'')) 5 (eng_storage sample_engine))\<rparr>)"

lemma sample_logged_wrote:
  "wrote sample_env Assert DeltaAssert ''notes'' (Domain ''a'') sample_family (PayloadRecord [5])
     (Some 5) 5 sample_engine sample_logged"
proof -
  have "logged_op sample_env sample_engine ''notes'' Assert (Domain ''a'') (Some 5) sample_versioned_operation"
    by (simp add: logged_op_def sample_registered sample_versioned_operation_def sample_operation_def)
  note lands = keyed_landed [OF this, of "row_insert ''notes'' (to_owned_string (Domain ''a'')) 5"
      DeltaAssert 5, folded sample_logged_def]
  show ?thesis
    by (rule lands_keyed_wrote [OF lands insert_body.commit_body_axioms sample_engine_ok _ _
          lands_keyed_insert [OF lands] sample_registered(1), where bytes_of = "\<lambda>_. [5]"]) simp_all
qed

lemma sample_logged_ok: "engine_ok sample_env sample_logged"
  using sample_logged_wrote by (simp add: wrote_def)

lemma sample_logged_sel [simp]:
  "eng_policy sample_logged = Some sample_policy" "eng_staging sample_logged = None"
  "eng_catalog sample_logged = [registration_new sample_family]"
  "committed_commit_sequence (eng_storage sample_logged) = 1"
  "latest_checkpoint sample_env (eng_storage sample_logged) = Inr None"
proof -
  show "eng_policy sample_logged = Some sample_policy" "eng_staging sample_logged = None"
    "eng_catalog sample_logged = [registration_new sample_family]"
    by (simp_all add: sample_logged_def deliver_def)
  show "committed_commit_sequence (eng_storage sample_logged) = 1"
    by (simp add: sample_logged_def deliver_def next_commit_sequence_def commit_sequence_next_def)
  have "latest_checkpoint sample_env (eng_storage sample_logged) = latest_checkpoint sample_env
      (row_insert ''notes'' ''a'' (5::nat) store_empty)"
    by (rule latest_checkpoint_cong) (simp_all add: sample_logged_def deliver_def)
  then show "latest_checkpoint sample_env (eng_storage sample_logged) = Inr None"
    by (simp add: same_history_reads [OF same_history_updates(1)])
qed

lemma sample_logged_entries:
  obtains v where "versioned_entries_from (eng_storage sample_logged) (commit_sequence_next 0) = [v]"
    and "versioned_entries (eng_storage sample_logged) = [v]"
    and "recomputed_digest sample_env v = ve_entry_digest v" and "ve_previous_entry_digest v = None"
    and "ne_list (ve_operations v) = [sample_versioned_operation]"
proof -
  obtain v where v: "versioned_entry_of sample_env sample_engine (ne_single sample_versioned_operation) = Some v"
    using versioned_entry_of_None [of sample_env sample_engine] by fastforce
  note facts = versioned_entry_of_Some [OF v]
  have "st_versioned_log (eng_storage sample_logged) = [(1, v)]"
    using facts(1) by (simp add: sample_logged_def deliver_def v row_insert_def next_commit_sequence_def
        commit_sequence_next_def tbl_insert.simps)
  then show thesis
    using facts by (intro that [of v])
      (simp_all add: versioned_entries_from_def versioned_entries_def tbl_from_def
        tbl_iter_def commit_sequence_next_def chain_head_def store_empty_def ne_single_def)
qed

lemma addressable_singleton: "length rows \<le> 1 \<Longrightarrow> addressable p (chunk rows)"
  by (cases rows) (auto simp: addressable_def chunk_def)

lemma sample_logged_addressable: "segments_addressable sample_env sample_logged"
proof -
  obtain v where v: "versioned_entries_from (eng_storage sample_logged) (commit_sequence_next 0) = [v]"
    "recomputed_digest sample_env v = ve_entry_digest v" "ve_previous_entry_digest v = None"
    "ne_list (ve_operations v) = [sample_versioned_operation]" by (rule sample_logged_entries)
  show ?thesis
    unfolding segments_addressable_def
    by (auto simp: checkpoint_plan_def resume_point_def commit_sequence_genesis_def v Let_def
        canonical_fold_def fold_entry_def apply_operation_def sample_versioned_operation_def
        sample_operation_def view_empty_def declare_identity_def bindR_Inr into_rows_def
        resolve_identity_def identity_key_of_def
        tbl_get_def tbl_remove_def tbl_iter_def view_key_new_def identity_key_from_identity_def view_row_new_def
        intro!: addressable_singleton)
qed

section \<open>Properties\<close>

text \<open>C17 Taking a checkpoint: on a versioned engine with entries after its latest checkpoint it succeeds
  (when the kernel commits), and then the checkpoint it published loads and verifies, covers the log to
  its chain head so that nothing is left to replay, and nothing but the checkpoint tables changed.  The
  new segments must have different digests, the integrity of \<open>blake3\<close> on them.\<close>

theorem checkpoint_covers_log:
  assumes ok: "engine_ok env e" and room: "committed_commit_sequence (eng_storage e) \<noteq> - 1"
    and policy: "eng_policy e = Some policy" and latest: "latest_checkpoint env (eng_storage e) = Inr c"
    and ne: "log_suffix (eng_storage e) c \<noteq> []" and addr: "segments_addressable env e"
    and no_fault: "\<forall>s. env_commit_fault env s = None"
  shows "\<exists>receipt e' c'. take_checkpoint env e = (Inr receipt, e')
    \<and> latest_checkpoint env (eng_storage e') = Inr (Some c') \<and> verify env c' = Inr ()
    \<and> log_suffix (eng_storage e') (Some c') = [] \<and> resume_head (Some c') = chain_head (eng_storage e')
    \<and> cr_checkpoint_digest receipt = cm_checkpoint_digest (ck_metadata c')
    \<and> history_only e e' \<and> unpruned (eng_storage e) (eng_storage e') \<and> engine_ok env e'"
proof -
  obtain receipt e' where run: "take_checkpoint env e = (Inr receipt, e')"
    using take_checkpoint_total [OF ok policy latest ne no_fault] by blast
  from take_checkpoint_ok [OF ok room addr run] obtain c' where
    "latest_checkpoint env (eng_storage e') = Inr (Some c')" and
    rest: "log_suffix (eng_storage e') (Some c') = []" "resume_head (Some c') = chain_head (eng_storage e')"
    "cr_checkpoint_digest receipt = cm_checkpoint_digest (ck_metadata c')"
    "history_only e e'" "engine_ok env e'" "unpruned (eng_storage e) (eng_storage e')"
    by (auto simp: unpruned_def)
  moreover from this(1) have "verify env c' = Inr ()" by (rule latest_checkpoint_Some)
  ultimately show ?thesis using run by blast
qed

lemma checkpoint_covers_log_witness:
  "\<exists>receipt e' c'. take_checkpoint sample_env sample_logged = (Inr receipt, e')
    \<and> latest_checkpoint sample_env (eng_storage e') = Inr (Some c') \<and> verify sample_env c' = Inr ()
    \<and> log_suffix (eng_storage e') (Some c') = []
    \<and> resume_head (Some c') = chain_head (eng_storage e')
    \<and> cr_checkpoint_digest receipt = cm_checkpoint_digest (ck_metadata c')
    \<and> history_only sample_logged e' \<and> unpruned (eng_storage sample_logged) (eng_storage e')
    \<and> engine_ok sample_env e'"
proof -
  obtain v where "versioned_entries_from (eng_storage sample_logged) (commit_sequence_next 0) = [v]"
    by (rule sample_logged_entries)
  then have "log_suffix (eng_storage sample_logged) None \<noteq> []"
    by (simp add: log_suffix_def resume_after_def resume_point_def commit_sequence_genesis_def)
  from checkpoint_covers_log [OF sample_logged_ok _ _ _ this sample_logged_addressable] show ?thesis by simp
qed



lemma rebuild_runs:
  assumes "engine_ok env e" and "eng_policy e \<noteq> None"
  shows "\<exists>c view m. latest_checkpoint env (eng_storage e) = Inr c
    \<and> canonical_fold env (fst (resume_point c)) (log_suffix (eng_storage e) c) (resume_head c) = Inr view
    \<and> into_rows view (family_inventory (eng_catalog e)) = Inr m
    \<and> rebuild_from_log env dir e =
        bindS (engine_write env
                 (\<lambda>s. bindR (lift_storage (materialize_rows_in env dir (materialize_iter m) s))
                        (\<lambda>s'. Inr ((), s'))) e)
          (\<lambda>_ e'. (Inr \<lparr>rr_view_digest = view_digest env view, rr_row_count = length (mr_rows m),
                        rr_cleared_count = length (mr_cleared m),
                        rr_folded_entry_count = length (log_suffix (eng_storage e) c)\<rparr>, e'))"
proof -
  have hist: "history_ok env (eng_storage e)" using assms by (simp add: engine_ok_def)
  then have "recoverable env (eng_storage e)" by (simp add: history_ok_def)
  then obtain c view where c: "latest_checkpoint env (eng_storage e) = Inr c"
    and view: "canonical_fold env (fst (resume_point c)) (log_suffix (eng_storage e) c) (resume_head c)
      = Inr view" by (rule recoverable_folds)
  obtain m where m: "into_rows view (family_inventory (eng_catalog e)) = Inr m"
    using into_rows_ok [OF canonical_fold_ok [OF view]] by blast
  obtain rows head after where r: "resume_point c = (rows, head, after)" by (cases "resume_point c")
  have entries: "versioned_entries_from (eng_storage e) (commit_sequence_next after) =
      log_suffix (eng_storage e) c" by (simp add: log_suffix_def resume_after_def r)
  obtain policy where policy: "eng_policy e = Some policy" using assms(2) by blast
  have fold: "canonical_fold env rows (log_suffix (eng_storage e) c) head = Inr view"
    using view by (simp add: r resume_head_def)
  have "rebuild_from_log env dir e =
        bindS (engine_write env
                 (\<lambda>s. bindR (lift_storage (materialize_rows_in env dir (materialize_iter m) s))
                        (\<lambda>s'. Inr ((), s'))) e)
          (\<lambda>_ e'. (Inr \<lparr>rr_view_digest = view_digest env view, rr_row_count = length (mr_rows m),
                        rr_cleared_count = length (mr_cleared m),
                        rr_folded_entry_count = length (log_suffix (eng_storage e) c)\<rparr>, e'))"
    using policy by (simp add: rebuild_from_log_def ensure_complete [OF hist] Let_def c r entries fold m)
  with c view m show ?thesis by blast
qed

text \<open>The log always rebuilds: on a versioned engine \<open>rebuild_from_log\<close> never fails before its
  transaction.  It hands the directory exactly the rows and tombstones of the fold of the checkpoint and
  the log after it, and reports that fold's digest.\<close>

theorem rebuild_never_rejects:
  assumes "engine_ok env e" and "eng_policy e \<noteq> None"
  shows "\<exists>c view m. latest_checkpoint env (eng_storage e) = Inr c
    \<and> canonical_fold env (fst (resume_point c)) (log_suffix (eng_storage e) c) (resume_head c) = Inr view
    \<and> into_rows view (family_inventory (eng_catalog e)) = Inr m
    \<and> rebuild_from_log env dir e =
        bindS (engine_write env
                 (\<lambda>s. bindR (lift_storage (materialize_rows_in env dir (materialize_iter m) s))
                        (\<lambda>s'. Inr ((), s'))) e)
          (\<lambda>_ e'. (Inr \<lparr>rr_view_digest = view_digest env view, rr_row_count = length (mr_rows m),
                        rr_cleared_count = length (mr_cleared m),
                        rr_folded_entry_count = length (log_suffix (eng_storage e) c)\<rparr>, e'))"
  by (rule rebuild_runs [OF assms])

lemma rebuild_never_rejects_witness:
  "\<exists>c view. latest_checkpoint sample_env (eng_storage sample_logged) = Inr c
    \<and> canonical_fold sample_env (fst (resume_point c)) (log_suffix (eng_storage sample_logged) c)
        (resume_head c) = Inr view"
  using rebuild_never_rejects [OF sample_logged_ok] by auto

end
