(* ===== verification/Staging_Laws.thy ===== *)
theory Staging_Laws
  imports Write_Properties
begin

text \<open>
  The staging lifecycle: every buffered write extends the session by correctly chained entries and touches
  nothing durable, parking moves exactly those entries into the durable slot, and materializing appends them
  to both logs, or fails and leaves the engine as it was.
\<close>

section \<open>Sessions\<close>

text \<open>A session whose entries chain and whose operations all satisfy \<open>P\<close>.\<close>

definition session_holds ::
  "(versioned_log_operation \<Rightarrow> bool) \<Rightarrow> 'p primitives_scheme \<Rightarrow> staging_session \<Rightarrow> bool" where
  "session_holds P p ss \<longleftrightarrow> session_ok p ss \<and> list_all P (all_operations (ss_entries ss))"

definition session_good :: "'p primitives_scheme \<Rightarrow> staging_session \<Rightarrow> bool" where
  "session_good p ss \<longleftrightarrow> session_ok p ss \<and> list_all op_applicable (all_operations (ss_entries ss))"

lemma session_good_holds: "session_good p = session_holds op_applicable p"
  by (simp add: session_good_def session_holds_def fun_eq_iff)

text \<open>What a buffered write may do to its session.\<close>

definition session_grows ::
  "(versioned_log_operation \<Rightarrow> bool) \<Rightarrow> 'p primitives_scheme \<Rightarrow> staging_session \<Rightarrow> staging_session \<Rightarrow> bool"
  where
  "session_grows P p ss ss' \<longleftrightarrow>
     (session_holds P p ss \<longrightarrow> session_holds P p ss')
     \<and> (\<exists>es. ss_entries ss' = ss_entries ss @ es)
     \<and> sb_chain_head (ss_base ss') = sb_chain_head (ss_base ss)
     \<and> sb_commit_sequence (ss_base ss') = sb_commit_sequence (ss_base ss)
     \<and> sb_snapshot (ss_base ss') = sb_snapshot (ss_base ss)"

lemma session_grows_refl [simp]: "session_grows P p ss ss"
  by (simp add: session_grows_def)

lemma session_grows_trans:
  "session_grows P p ss ss1 \<Longrightarrow> session_grows P p ss1 ss2 \<Longrightarrow> session_grows P p ss ss2"
  by (auto simp: session_grows_def)

lemma session_grows_overlay [simp]:
  "session_grows P p ss (set_overlay t k v ss)" "session_grows P p ss (park_pre_image i bs ss)"
  by (auto simp: session_grows_def session_holds_def) (simp_all add: set_overlay_def park_pre_image_def)

lemma session_grows_mint: "mint_identifier key d ss = (i, ss') \<Longrightarrow> session_grows P p ss ss'"
  using session_ok_mint [of key d ss i ss' p]
  by (auto simp: session_grows_def session_holds_def mint_identifier_def Let_def split: option.splits)

lemma session_grows_append:
  assumes "append_entry p opers ss = (r, ss')" and "list_all P (ne_list opers)"
  shows "session_grows P p ss ss'"
  using assms session_ok_append_entry(1) [OF _ assms(1)]
  by (auto simp: session_grows_def session_holds_def append_entry_def Let_def all_operations_append)
    (auto simp: all_operations_def versioned_entry_new_def)

text \<open>A buffered write fails without an entry, or appends exactly one.\<close>

definition staged_outcome ::
  "(versioned_log_operation \<Rightarrow> bool) \<Rightarrow> 'p primitives_scheme \<Rightarrow> staging_session
   \<Rightarrow> (error + 'a) \<times> staging_session \<Rightarrow> bool" where
  "staged_outcome P p ss res \<longleftrightarrow>
     session_grows P p ss (snd res)
     \<and> (case fst res of Inl err \<Rightarrow> ss_entries (snd res) = ss_entries ss
        | Inr x \<Rightarrow> \<exists>v. ss_entries (snd res) = ss_entries ss @ [v])"

lemma staged_refused [simp]: "staged_outcome P p ss (Inl err, ss)"
  by (simp add: staged_outcome_def)

lemma staged_bind:
  "(\<And>x. r = Inr x \<Longrightarrow> staged_outcome P p ss (f x ss')) \<Longrightarrow>
   (\<And>err. r = Inl err \<Longrightarrow>
      staged_outcome P p ss ((Inl err, ss') :: (error + 'b) \<times> staging_session)) \<Longrightarrow>
   staged_outcome P p ss (bindS (r, ss') f :: (error + 'b) \<times> staging_session)"
  by (cases r) (simp_all add: bindS_def)

lemma append_entry_entries:
  "append_entry p opers ss = (r, ss') \<Longrightarrow> \<exists>v. ss_entries ss' = ss_entries ss @ [v] \<and> ve_operations v = opers"
  by (auto simp: append_entry_def Let_def versioned_entry_new_def)

lemma staged_append:
  assumes "session_grows P p ss ss1" and "ss_entries ss1 = ss_entries ss"
    and "list_all P (ne_list opers)"
  shows "staged_outcome P p ss
    (case append_entry p opers ss1 of (n, ss') \<Rightarrow> (case n of (sq, snap) \<Rightarrow> Pair (Inr (g sq snap))) ss')"
proof -
  obtain sq snap ss' where a: "append_entry p opers ss1 = ((sq, snap), ss')"
    by (metis surj_pair)
  have "session_grows P p ss ss'"
    by (rule session_grows_trans [OF assms(1) session_grows_append [OF a assms(3)]])
  then show ?thesis
    using append_entry_entries [OF a] assms(2) by (auto simp: a staged_outcome_def)
qed

lemma staged_append_single:
  fixes p :: "'r engine_env"
  assumes "session_grows P p ss ss1" and "ss_entries ss1 = ss_entries ss"
    and "P \<lparr>vop_operation = oper, vop_family = fam, vop_key = Some key, vop_payload = payload\<rparr>"
  shows "staged_outcome P p ss
    (case append_single p oper fam key payload ss1 of
       (n, ss') \<Rightarrow> (case n of (sq, snap) \<Rightarrow> Pair (Inr (g sq snap))) ss')"
  unfolding append_single_def by (rule staged_append [OF assms(1,2)]) (simp add: assms(3))

lemma overlay_entries [simp]:
  "ss_entries (set_overlay t k v ss) = ss_entries ss" "ss_entries (park_pre_image i bs ss) = ss_entries ss"
  by (simp_all add: set_overlay_def park_pre_image_def)

lemma applicable_ops [simp]:
  "op_applicable \<lparr>vop_operation = Retract, vop_family = fam, vop_key = Some key, vop_payload = pl\<rparr>"
  "oper \<in> {Assert, Mutate} \<Longrightarrow> payload_bytes pl \<noteq> None \<Longrightarrow>
     op_applicable \<lparr>vop_operation = oper, vop_family = fam, vop_key = Some key, vop_payload = pl\<rparr>"
  by (auto simp: op_applicable_def)

lemma payload_of_record: "versioned_record_payload env table r = Inr pl \<Longrightarrow> payload_bytes pl \<noteq> None"
  by (auto simp: versioned_record_payload_Inr)

lemma mint_entries: "mint_identifier key d ss = (i, ss') \<Longrightarrow> ss_entries ss' = ss_entries ss"
  by (auto simp: mint_identifier_def Let_def split: option.splits)

lemma session_grows_retract [simp]:
  "session_grows P p ss (park_pre_image i bs (set_overlay t k v ss))"
  by (rule session_grows_trans [of _ _ _ "set_overlay t k v ss"]) simp_all

lemma fold_grows:
  "(\<And>x ss. session_grows P p ss (f x ss) \<and> ss_entries (f x ss) = ss_entries ss) \<Longrightarrow>
   session_grows P p ss (fold f xs ss) \<and> ss_entries (fold f xs ss) = ss_entries ss"
proof (induction xs arbitrary: ss)
  case (Cons x xs)
  then show ?case using session_grows_trans [of P p ss "f x ss"] by auto
qed simp

text \<open>A write under an engaged session.\<close>

definition session_writes ::
  "(versioned_log_operation \<Rightarrow> bool) \<Rightarrow> 'r engine_env \<Rightarrow> staging_session \<Rightarrow> 'r engine
   \<Rightarrow> ('r, unit) engine_result \<Rightarrow> bool" where
  "session_writes P env ss e res \<longleftrightarrow>
     (\<exists>r ss'. res = (r, e\<lparr>eng_staging := Some ss'\<rparr>) \<and> staged_outcome P env ss (r, ss'))"

lemma session_refused:
  "eng_staging e = Some ss \<Longrightarrow> session_writes P env ss e (Inl err, e)"
  unfolding session_writes_def
  by (rule exI [of _ "Inl err"], rule exI [of _ ss]) (cases e, simp)

lemma session_forget:
  "staged_outcome P env ss (f ss) \<Longrightarrow> session_writes P env ss e (forget (with_session f ss e))"
  unfolding session_writes_def with_session_def
  by (cases "f ss"; cases "fst (f ss)")
    (auto simp: forget_def bindS_def staged_outcome_def split: sum.splits)

lemma forget_reads:
  "forget (bindS (reads r e) f) = (case r of Inl err \<Rightarrow> (Inl err, e) | Inr x \<Rightarrow> forget (f x e))"
  by (cases r) simp_all

text \<open>A property of operations that every recorded write and every retraction of the engine has.\<close>

locale staged_writes =
  fixes env :: "'r engine_env" and e :: "'r engine" and P :: "versioned_log_operation \<Rightarrow> bool"
  assumes recorded: "registered_family e table = Inr fam \<Longrightarrow> versioned_record_payload env table r = Inr payload \<Longrightarrow>
      oper \<in> {Assert, Mutate} \<Longrightarrow>
      P \<lparr>vop_operation = oper, vop_family = fam, vop_key = Some key, vop_payload = payload\<rparr>"
    and retracted: "registered_family e table = Inr fam \<Longrightarrow>
      P \<lparr>vop_operation = Retract, vop_family = fam, vop_key = Some key, vop_payload = Tombstone\<rparr>"
begin

lemma staged_assert_keyed_outcome: "staged_outcome P env ss (staged_assert_keyed env e a ss)"
  by (auto simp: staged_assert_keyed_def Let_def
      intro!: staged_bind staged_append_single recorded)

lemma staged_mutate_keyed_outcome: "staged_outcome P env ss (staged_mutate_keyed env e m ss)"
  by (auto simp: staged_mutate_keyed_def Let_def
      intro!: staged_bind staged_append_single recorded)

lemma staged_retract_outcome: "staged_outcome P env ss (staged_retract env e r ss)"
  by (auto simp: staged_retract_def Let_def split: option.splits
      intro!: staged_bind staged_append_single retracted)

lemma staged_mutate_identified_outcome: "staged_outcome P env ss (staged_mutate_identified env e m ss)"
  by (auto simp: staged_mutate_identified_def Let_def
      intro!: staged_bind staged_append_single recorded)

lemma staged_retract_identified_outcome: "staged_outcome P env ss (staged_retract_identified env e r ss)"
  by (auto simp: staged_retract_identified_def Let_def split: option.splits
      intro!: staged_bind staged_append_single retracted)

lemma staged_assert_identified_outcome: "staged_outcome P env ss (staged_assert_identified env e a ss)"
proof -
  obtain i ss1 where m: "mint_identifier (identified_counter_key (ia_table a))
      (next_record_identifier (eng_storage e) (ia_table a)) ss = (i, ss1)"
    by (metis surj_pair)
  have grows: "session_grows P env ss ss1" by (rule session_grows_mint [OF m])
  then have refused: "staged_outcome P env ss (Inl err, ss1)" for err
    by (simp add: staged_outcome_def mint_entries [OF m])
  have overlay: "session_grows P env ss (set_overlay t k v ss1)" for t k v
    by (rule session_grows_trans [OF grows]) simp
  show ?thesis
    by (auto simp: staged_assert_identified_def Let_def m mint_entries [OF m]
        intro!: staged_bind staged_append_single refused overlay recorded)
qed

text \<open>The buffered multi-operation commit.\<close>

lemma staged_commit_step_ops:
  assumes "staged_commit_step env e ss table fam sp w = Inr sp'" and fam: "registered_family e table = Inr fam"
    and "list_all P (sp_operations sp)"
  shows "list_all P (sp_operations sp')"
proof (cases w)
  case (Pair i oper)
  then show ?thesis
    using assms(1,3) recorded [OF fam] retracted [OF fam]
    by (cases oper)
      (auto simp: Let_def bindR_eq_Inr staged_plan_push_def split: if_splits option.splits)
qed

lemma staged_commit_fold_ops:
  "foldR (staged_commit_step env e ss table fam) sp ws = Inr sp' \<Longrightarrow> registered_family e table = Inr fam \<Longrightarrow>
   list_all P (sp_operations sp) \<Longrightarrow> list_all P (sp_operations sp')"
  by (induction ws arbitrary: sp) (auto simp: bindR_eq_Inr dest: staged_commit_step_ops)

lemma staged_commit_outcome: "staged_outcome P env ss (staged_commit env e q ss)"
proof -
  let ?ready = "\<lambda>pre effects table. fold (\<lambda>(i, bs). park_pre_image i bs) pre
       (fold (\<lambda>(key, presence). set_overlay table key presence) effects ss)"
  have ready: "session_grows P env ss (?ready pre effects table)"
    "ss_entries (?ready pre effects table) = ss_entries ss" for pre effects table
  proof -
    let ?ss1 = "fold (\<lambda>(key, presence). set_overlay table key presence) effects ss"
    have one: "session_grows P env ss ?ss1 \<and> ss_entries ?ss1 = ss_entries ss"
      by (rule fold_grows) (auto split: prod.split)
    have two: "session_grows P env ?ss1 (?ready pre effects table)
        \<and> ss_entries (?ready pre effects table) = ss_entries ?ss1"
      by (rule fold_grows) (auto split: prod.split)
    from one two show "session_grows P env ss (?ready pre effects table)"
      using session_grows_trans by blast
    from one two show "ss_entries (?ready pre effects table) = ss_entries ss" by simp
  qed
  have refused: "staged_outcome P env ss (Inl err, ?ready pre effects table)" for err pre effects table
    by (simp add: staged_outcome_def ready)
  have ops: "list_all P (ne_list vs)"
    if "foldR (staged_commit_step env e ss table fam) staged_plan_empty ws = Inr sp"
      "ne_try_from_vec (sp_operations sp) = Some vs" "registered_family e table = Inr fam" for table fam ws sp vs
  proof -
    have "list_all P (sp_operations sp)"
      using staged_commit_fold_ops [OF that(1,3)] by (simp add: staged_plan_empty_def)
    with that(2) show ?thesis by (cases "sp_operations sp") auto
  qed
  show ?thesis
    unfolding staged_commit_def Let_def
    by (intro staged_bind) (auto split: option.splits intro!: staged_append refused ready ops)
qed

section \<open>Writing under an engaged session\<close>

lemma session_write:
  assumes "eng_staging e = Some ss" and "\<nexists>ws. w = DirectAtomic ws"
  shows "session_writes P env ss e (run_write env w e)"
  using assms
  by (cases w)
    (auto simp: assert_keyed_def mutate_keyed_def engine_retract_def assert_identified_def
      mutate_identified_def retract_identified_def engine_commit_def Let_def forget_reads
      split: sum.splits
      intro!: session_refused session_forget staged_assert_keyed_outcome staged_mutate_keyed_outcome
        staged_retract_outcome staged_assert_identified_outcome staged_mutate_identified_outcome
        staged_retract_identified_outcome staged_commit_outcome)

end

interpretation applicable: staged_writes env e op_applicable
  by unfold_locales (simp_all add: payload_of_record)

lemmas session_write = applicable.session_write

lemma engine_ok_session:
  "engine_ok env e \<longleftrightarrow>
     logs_ok (eng_storage e) \<and> (eng_policy e \<noteq> None \<longrightarrow> history_ok env (eng_storage e))
     \<and> (\<forall>ss. eng_staging e = Some ss \<longrightarrow> session_good env ss)
     \<and> (\<forall>g. staging_slot (eng_storage e) = Some g \<longrightarrow>
          list_all op_applicable (all_operations (sg_entries g)))"
  by (simp add: engine_ok_def session_good_def)

lemma session_writes_ok:
  assumes "session_writes op_applicable env ss e (r, e')" and "engine_ok env e" and "eng_staging e = Some ss"
  shows "engine_ok env e'" and "eng_storage e' = eng_storage e"
    and "\<exists>ss'. e' = e\<lparr>eng_staging := Some ss'\<rparr> \<and> staged_outcome op_applicable env ss (r, ss')"
  using assms by (auto simp: session_writes_def engine_ok_session staged_outcome_def session_grows_def session_good_holds)

end
