(* ===== verification/Group_Landing.thy ===== *)
theory Group_Landing
  imports Staging_Laws
begin

text \<open>
  Landing a parked group: inside one transaction every entry of the group becomes one commit, so the
  invariant of the history is carried along entry by entry.
\<close>

section \<open>One entry as one commit\<close>

definition history_reads :: "'r store \<Rightarrow> 'r store \<Rightarrow> bool" where
  "history_reads s t \<longleftrightarrow>
     st_commit_log t = st_commit_log s \<and> st_versioned_log t = st_versioned_log s
     \<and> st_chain_head t = st_chain_head s \<and> st_checkpoints t = st_checkpoints s
     \<and> st_segments t = st_segments s \<and> log_counts t = log_counts s
     \<and> committed_commit_sequence t = committed_commit_sequence s
     \<and> counter_get t latest_checkpoint_key = counter_get s latest_checkpoint_key"

lemma history_reads_invariants:
  assumes "history_reads s t"
  shows "logs_ok t = logs_ok s" and "history_ok env t = history_ok env s"
proof -
  have "latest_checkpoint env t = latest_checkpoint env s"
    using assms by (intro latest_checkpoint_cong) (simp_all add: history_reads_def)
  moreover have "log_suffix t c = log_suffix s c" for c
    using assms by (simp add: history_reads_def log_suffix_def versioned_entries_from_def)
  ultimately show "logs_ok t = logs_ok s" "history_ok env t = history_ok env s"
    using assms by (simp_all add: logs_ok_def history_ok_def recoverable_def checkpoints_keyed_def
        logs_agree_def history_reads_def chain_head_def)
qed

text \<open>\<open>t\<close> is \<open>s\<close> with the entry \<open>v\<close> appended to both logs and the counters on it.\<close>

definition entry_landed :: "'r store \<Rightarrow> versioned_entry \<Rightarrow> 'r store \<Rightarrow> bool" where
  "entry_landed s v t \<longleftrightarrow>
     st_commit_log t = tbl_insert (ve_commit_sequence v) (entry_of_versioned v) (st_commit_log s)
     \<and> st_versioned_log t = tbl_insert (ve_commit_sequence v) v (st_versioned_log s)
     \<and> st_chain_head t = Some (ve_entry_digest v) \<and> st_checkpoints t = st_checkpoints s
     \<and> st_segments t = st_segments s
     \<and> log_counts t = \<lparr>lc_commits = next_commit (log_counts s), lc_versioned = next_versioned (log_counts s)\<rparr>
     \<and> committed_commit_sequence t = ve_commit_sequence v
     \<and> counter_get t latest_checkpoint_key = counter_get s latest_checkpoint_key"

lemma entry_landed_invariants:
  assumes t: "entry_landed s v t" and above: "committed_commit_sequence s < ve_commit_sequence v"
    and logs: "logs_ok s"
  shows "st_commit_log t = st_commit_log s @ [(ve_commit_sequence v, entry_of_versioned v)]"
    and "st_versioned_log t = st_versioned_log s @ [(ve_commit_sequence v, v)]"
    and "logs_ok t" and "history_ok env s \<Longrightarrow> appendable env s v \<Longrightarrow> history_ok env t"
proof -
  have seq: "cle_commit_sequence (entry_of_versioned v) = ve_commit_sequence v"
    by (simp add: entry_of_versioned_def)
  have log: "log_indexed cle_commit_sequence (committed_commit_sequence s) (lc_commits (log_counts s))
      (st_commit_log s)"
    "log_indexed ve_commit_sequence (committed_commit_sequence s) (lc_versioned (log_counts s))
      (st_versioned_log s)" using logs by (simp_all add: logs_ok_def)
  show commits: "st_commit_log t = st_commit_log s @ [(ve_commit_sequence v, entry_of_versioned v)]"
    using log_indexed_append(1) [OF log(1), of "entry_of_versioned v"] above t
    by (simp add: entry_landed_def seq)
  show versioned: "st_versioned_log t = st_versioned_log s @ [(ve_commit_sequence v, v)]"
    using log_indexed_append(1) [OF log(2) above] t by (simp add: entry_landed_def)
  have rest: "log_counts t = \<lparr>lc_commits = next_commit (log_counts s), lc_versioned = next_versioned (log_counts s)\<rparr>"
    "committed_commit_sequence t = ve_commit_sequence v" "st_checkpoints t = st_checkpoints s"
    "st_chain_head t = Some (ve_entry_digest v)"
    and latest: "latest_checkpoint env t = latest_checkpoint env s"
    using t by (auto simp: entry_landed_def intro!: latest_checkpoint_cong)
  show ok: "logs_ok t"
    using log_indexed_append(2) [OF log(1), of "entry_of_versioned v"]
      log_indexed_append(2) [OF log(2) above] above
    by (simp add: logs_ok_def seq rest commits versioned next_commit_def next_versioned_def)
  assume hist: "history_ok env s" and v: "appendable env s v"
  have "recoverable env t"
    using hist t by (intro recoverable_append [of env s v, OF _ logs v above _ _ latest])
      (simp_all add: history_ok_def entry_landed_def)
  then show "history_ok env t"
    using hist ok by (simp add: history_ok_def checkpoints_keyed_def logs_agree_def commits versioned rest)
qed

section \<open>The entries of a group\<close>

text \<open>The counters stand at the last landed entry; the code writes them once, at the end.\<close>

definition seal :: "commit_sequence \<Rightarrow> snapshot_identifier \<Rightarrow> 'r store \<Rightarrow> 'r store" where
  "seal sq snap s = counter_insert latest_snapshot_key snap (counter_insert latest_commit_sequence_key sq s)"

lemma seal_sel [simp]:
  "st_commit_log (seal sq snap s) = st_commit_log s" "st_versioned_log (seal sq snap s) = st_versioned_log s"
  "st_chain_head (seal sq snap s) = st_chain_head s" "st_checkpoints (seal sq snap s) = st_checkpoints s"
  "st_segments (seal sq snap s) = st_segments s" "st_outbox (seal sq snap s) = st_outbox s"
  "st_staging_slot (seal sq snap s) = st_staging_slot s" "st_mirror_cursor (seal sq snap s) = st_mirror_cursor s"
  "st_catalog (seal sq snap s) = st_catalog s" "st_compaction_intent (seal sq snap s) = st_compaction_intent s"
  "st_rows (seal sq snap s) = st_rows s" "st_identified_rows (seal sq snap s) = st_identified_rows s"
  "st_identified_counters (seal sq snap s) = st_identified_counters s"
  "committed_commit_sequence (seal sq snap s) = sq" "committed_snapshot (seal sq snap s) = snap"
  "log_counts (seal sq snap s) = log_counts s"
  "counter_get (seal sq snap s) latest_checkpoint_key = counter_get s latest_checkpoint_key"
  "counter_get (seal sq snap s) commit_log_count_key = counter_get s commit_log_count_key"
  "counter_get (seal sq snap s) versioned_log_count_key = counter_get s versioned_log_count_key"
  by (simp_all add: seal_def committed_commit_sequence_def committed_snapshot_def log_counts_def)

lemma append_versioned_sel [simp]:
  "st_catalog (append_versioned v n s) = st_catalog s" "st_commit_log (append_versioned v n s) = st_commit_log s"
  "st_versioned_log (append_versioned v n s) = tbl_insert (ve_commit_sequence v) v (st_versioned_log s)"
  "st_chain_head (append_versioned v n s) = Some (ve_entry_digest v)"
  "st_outbox (append_versioned v n s) = st_outbox s" "st_mirror_cursor (append_versioned v n s) = st_mirror_cursor s"
  "st_staging_slot (append_versioned v n s) = st_staging_slot s"
  "st_checkpoints (append_versioned v n s) = st_checkpoints s" "st_segments (append_versioned v n s) = st_segments s"
  "st_compaction_intent (append_versioned v n s) = st_compaction_intent s"
  "st_rows (append_versioned v n s) = st_rows s" "st_identified_rows (append_versioned v n s) = st_identified_rows s"
  "counter_get (append_versioned v n s) k = (if k = versioned_log_count_key then Some n else counter_get s k)"
  by (simp_all add: append_versioned_def) (simp add: counter_get_def counter_insert_def table_simps)

lemma outbox_record_sel [simp]:
  "st_catalog (outbox_record v s) = st_catalog s" "st_commit_log (outbox_record v s) = st_commit_log s"
  "st_versioned_log (outbox_record v s) = st_versioned_log s" "st_chain_head (outbox_record v s) = st_chain_head s"
  "st_outbox (outbox_record v s) = tbl_insert (ve_commit_sequence v) (outbox_entry_of v) (st_outbox s)"
  "st_mirror_cursor (outbox_record v s) = st_mirror_cursor s"
  "st_staging_slot (outbox_record v s) = st_staging_slot s" "st_checkpoints (outbox_record v s) = st_checkpoints s"
  "st_segments (outbox_record v s) = st_segments s"
  "st_compaction_intent (outbox_record v s) = st_compaction_intent s"
  "st_rows (outbox_record v s) = st_rows s" "st_identified_rows (outbox_record v s) = st_identified_rows s"
  "counter_get (outbox_record v s) k = counter_get s k"
  by (simp_all add: outbox_record_def counter_get_def)

text \<open>What landing entries leaves alone besides the logs, the outbox and the record tables.\<close>

definition lands_beside :: "'r store \<Rightarrow> 'r store \<Rightarrow> bool" where
  "lands_beside s t \<longleftrightarrow>
     st_catalog t = st_catalog s \<and> st_mirror_cursor t = st_mirror_cursor s
     \<and> st_staging_slot t = st_staging_slot s \<and> st_compaction_intent t = st_compaction_intent s
     \<and> st_identified_counters t = st_identified_counters s"

definition counts_pair :: "'r store \<Rightarrow> u64 \<times> u64" where
  "counts_pair s = (lc_commits (log_counts s), lc_versioned (log_counts s))"

lemma materialize_operation_planes:
  "materialize_operation env dir s oper = Inr t \<Longrightarrow> same_planes s t"
  by (auto simp: materialize_operation_def bindR_eq_Inr dest: materialize_row_planes)

lemma materialize_operations_planes:
  "foldR (materialize_operation env dir) s opers = Inr t \<Longrightarrow> same_planes s t"
  by (induction opers arbitrary: s)
    (auto simp: bindR_eq_Inr dest: materialize_operation_planes intro: same_planes_trans)

lemma land_group_entry_landed:
  assumes "land_group_entry env dir mirror (counts_pair s, s) v = Inr (n, t)"
  shows "entry_landed (seal sq snap s) v (seal (ve_commit_sequence v) (ve_snapshot v) t)"
    and "n = counts_pair t" and "lands_beside s t"
    and "st_outbox t = (if mirror then tbl_insert (ve_commit_sequence v) (outbox_entry_of v) (st_outbox s)
      else st_outbox s)"
proof -
  obtain s1 where s1: "foldR (materialize_operation env dir) s (ne_list (ve_operations v)) = Inr s1"
    and n: "n = (lc_commits (log_counts s) + 1, lc_versioned (log_counts s) + 1)"
    and t: "t = (let s2 = append_versioned v (lc_versioned (log_counts s) + 1)
              (append_commit (entry_of_versioned v) (lc_commits (log_counts s) + 1) s1)
            in if mirror then outbox_record v s2 else s2)"
    using assms by (auto simp: land_group_entry_def counts_pair_def Let_def bindR_eq_Inr)
  note planes = same_planes_sel [OF materialize_operations_planes [OF s1]]
  then have get: "counter_get s1 = counter_get s" by (simp add: counter_get_def fun_eq_iff)
  have seq: "cle_commit_sequence (entry_of_versioned v) = ve_commit_sequence v"
    by (simp add: entry_of_versioned_def)
  show "entry_landed (seal sq snap s) v (seal (ve_commit_sequence v) (ve_snapshot v) t)"
    by (auto simp: entry_landed_def t Let_def planes seq get log_counts_def next_commit_def
        next_versioned_def)
  show "n = counts_pair t" by (auto simp: n t Let_def counts_pair_def log_counts_def)
  show "lands_beside s t" by (auto simp: lands_beside_def t Let_def planes outbox_record_def append_versioned_def)
  show "st_outbox t = (if mirror then tbl_insert (ve_commit_sequence v) (outbox_entry_of v) (st_outbox s)
      else st_outbox s)"
    by (auto simp: t Let_def planes)
qed

text \<open>All of them: the logs grow by exactly the entries, and the invariants hold at the last one.\<close>

definition log_rows :: "versioned_entry list \<Rightarrow> (u64 \<times> versioned_entry) list" where
  "log_rows es = map (\<lambda>v. (ve_commit_sequence v, v)) es"

definition commit_rows :: "versioned_entry list \<Rightarrow> (u64 \<times> commit_log_entry) list" where
  "commit_rows es = map (\<lambda>v. (ve_commit_sequence v, entry_of_versioned v)) es"

lemma sequences_room:
  "sequences_from sq snap (v # es) \<Longrightarrow> unat sq + length (v # es) < 2 ^ 64 \<Longrightarrow>
   sq < ve_commit_sequence v \<and> unat (ve_commit_sequence v) + length es < 2 ^ 64"
proof -
  assume seqs: "sequences_from sq snap (v # es)" and room: "unat sq + length (v # es) < 2 ^ 64"
  then have "unat (sq + 1) = unat sq + 1"
    by (subst unat_plus_simple [THEN iffD1]) (auto simp: no_olen_add_nat)
  with seqs room show ?thesis by (simp add: word_less_nat_alt)
qed

lemma chain_end_Cons: "chain_end prev (v # es) = chain_end (Some (ve_entry_digest v)) es"
  by (simp add: chain_end_def)

lemma all_operations_Cons: "all_operations (v # es) = ne_list (ve_operations v) @ all_operations es"
  by (simp add: all_operations_def)

lemma land_entries:
  assumes "foldR (land_group_entry env dir mirror) (counts_pair s, s) es = Inr (n, t)"
    and "sequences_from sq snap es" and "unat sq + length es < 2 ^ 64" and "logs_ok (seal sq snap s)"
  defines "sq' \<equiv> sq + of_nat (length es)" and "snap' \<equiv> snap + of_nat (length es)"
  shows "logs_ok (seal sq' snap' t) \<and> n = counts_pair t \<and> lands_beside s t
    \<and> st_versioned_log t = st_versioned_log s @ log_rows es
    \<and> st_commit_log t = st_commit_log s @ commit_rows es
    \<and> st_chain_head t = chain_end (st_chain_head s) es
    \<and> st_outbox t = (if mirror then fold (\<lambda>v. tbl_insert (ve_commit_sequence v) (outbox_entry_of v)) es (st_outbox s)
        else st_outbox s)
    \<and> (history_ok env (seal sq snap s) \<longrightarrow> chain_verified env (st_chain_head s) es
        \<longrightarrow> list_all op_applicable (all_operations es) \<longrightarrow> history_ok env (seal sq' snap' t))"
  using assms(1-4) unfolding sq'_def snap'_def
proof (induction es arbitrary: s sq snap)
  case Nil
  then show ?case by (auto simp: log_rows_def commit_rows_def chain_end_def lands_beside_def)
next
  case (Cons v es)
  from Cons.prems(1) obtain n1 s1 where
    one: "land_group_entry env dir mirror (counts_pair s, s) v = Inr (n1, s1)" and
    rest: "foldR (land_group_entry env dir mirror) (n1, s1) es = Inr (n, t)"
    by (auto simp: bindR_eq_Inr)
  note landed = land_group_entry_landed(1) [OF one, of sq snap] land_group_entry_landed(2-4) [OF one]
  have seqs: "ve_commit_sequence v = sq + 1" "ve_snapshot v = snap + 1" "sequences_from (sq + 1) (snap + 1) es"
    using Cons.prems(2) by simp_all
  have room: "sq < ve_commit_sequence v" "unat (sq + 1) + length es < 2 ^ 64"
    using sequences_room [OF Cons.prems(2,3)] seqs(1) by simp_all
  have logs: "st_commit_log s1 = st_commit_log s @ [(ve_commit_sequence v, entry_of_versioned v)]"
    "st_versioned_log s1 = st_versioned_log s @ [(ve_commit_sequence v, v)]"
    "logs_ok (seal (sq + 1) (snap + 1) s1)"
    using entry_landed_invariants(1-3) [OF landed(1) _ Cons.prems(4)] room(1) seqs by simp_all
  have hist: "history_ok env (seal (sq + 1) (snap + 1) s1)"
    if "history_ok env (seal sq snap s)" "chain_verified env (st_chain_head s) (v # es)"
      "list_all op_applicable (all_operations (v # es))"
    using entry_landed_invariants(4) [OF landed(1) _ Cons.prems(4) that(1)] that room(1) seqs
    by (simp add: appendable_def chain_head_def all_operations_def)
  have head: "st_chain_head s1 = Some (ve_entry_digest v)"
    using landed(1) by (simp add: entry_landed_def)
  have shift: "sq + of_nat (length (v # es)) = sq + 1 + of_nat (length es)"
    "snap + of_nat (length (v # es)) = snap + 1 + of_nat (length es)" by simp_all
  note IH = Cons.IH [OF rest [unfolded landed(2)] seqs(3) room(2) logs(3)]
  have "lands_beside s t" using IH landed(3) by (simp add: lands_beside_def)
  moreover have "history_ok env (seal (sq + 1 + of_nat (length es)) (snap + 1 + of_nat (length es)) t)"
    if "history_ok env (seal sq snap s)" "chain_verified env (st_chain_head s) (v # es)"
      "list_all op_applicable (all_operations (v # es))"
    using IH hist [OF that] that head by (simp add: all_operations_Cons)
  moreover have "chain_end (st_chain_head s) (v # es) = chain_end (st_chain_head s1) es"
    by (simp add: chain_end_Cons head)
  ultimately show ?case
    unfolding shift using IH landed(4) logs by (simp add: log_rows_def commit_rows_def)
qed

section \<open>The transaction of a parked group\<close>

lemma verify_group_entries_Inr:
  "verify_group_entries p current prev sq snap es = Inr h \<longleftrightarrow>
     chain_verified p prev es \<and> sequences_from sq snap es \<and> h = chain_end prev es"
proof (induction es arbitrary: prev sq snap)
  case (Cons v es)
  then show ?case
    by (auto simp: Let_def commit_sequence_next_def snapshot_next_def chain_end_Cons)
qed (auto simp: chain_end_def)

lemma sequences_last:
  "sequences_from sq snap es \<Longrightarrow> es \<noteq> [] \<Longrightarrow>
   ve_commit_sequence (last es) = sq + of_nat (length es) \<and> ve_snapshot (last es) = snap + of_nat (length es)"
proof (induction es arbitrary: sq snap)
  case (Cons v es)
  show ?case
  proof (cases "es = []")
    case False
    with Cons.prems Cons.IH [of "sq + 1" "snap + 1"] show ?thesis by (simp add: algebra_simps)
  qed (use Cons.prems in simp)
qed simp

text \<open>The store a landed group leaves.\<close>

definition group_landed :: "bool \<Rightarrow> staged_group \<Rightarrow> 'r store \<Rightarrow> 'r store \<Rightarrow> bool" where
  "group_landed mirror g s t \<longleftrightarrow>
     st_versioned_log t = st_versioned_log s @ log_rows (sg_entries g)
     \<and> st_commit_log t = st_commit_log s @ commit_rows (sg_entries g)
     \<and> st_outbox t = (if mirror
          then fold (\<lambda>v. tbl_insert (ve_commit_sequence v) (outbox_entry_of v)) (sg_entries g) (st_outbox s)
          else st_outbox s)
     \<and> chain_head t = prospective_head g
     \<and> committed_commit_sequence t = committed_commit_sequence s + of_nat (length (sg_entries g))
     \<and> committed_snapshot t = committed_snapshot s + of_nat (length (sg_entries g))
     \<and> staging_slot t = None \<and> st_catalog t = st_catalog s \<and> st_mirror_cursor t = st_mirror_cursor s"

lemma fold_counters_history:
  "same_history s (fold (\<lambda>(key, v). identified_counter_insert key v) advances s)"
  by (rule same_history_fold) (auto split: prod.split)

lemma land_group_ok:
  assumes land: "land_group env dir mirror (log_counts s) g completes s = Inr t"
    and es: "sg_entries g \<noteq> []"
    and seqs: "sequences_from (committed_commit_sequence s) (committed_snapshot s) (sg_entries g)"
    and room: "unat (committed_commit_sequence s) + length (sg_entries g) < 2 ^ 64"
    and logs: "logs_ok s"
  shows "group_landed mirror g s t \<and> logs_ok t
    \<and> (history_ok env s \<longrightarrow> chain_verified env (chain_head s) (sg_entries g)
        \<longrightarrow> list_all op_applicable (all_operations (sg_entries g)) \<longrightarrow> history_ok env t)"
proof -
  let ?es = "sg_entries g" and ?final = "last (sg_entries g)"
  let ?sq = "committed_commit_sequence s" and ?snap = "committed_snapshot s"
  obtain n s1 where s1: "foldR (land_group_entry env dir mirror) (counts_pair s, s) ?es = Inr (n, s1)"
    and t: "t = clear_in (let s3 = fold (\<lambda>(key, v). identified_counter_insert key v)
          (tbl_iter (identified_advances g)) (seal (ve_commit_sequence ?final) (ve_snapshot ?final) s1) in
        if completes then s3\<lparr>st_compaction_intent := Some (intent_applied (ve_commit_sequence ?final))\<rparr>
        else s3)"
    using land by (auto simp: land_group_def counts_pair_def bindR_eq_Inr Let_def seal_def)
  let ?s2 = "seal (?sq + of_nat (length ?es)) (?snap + of_nat (length ?es)) s1"
  have same0: "history_reads s (seal ?sq ?snap s)" by (simp add: history_reads_def)
  note sealed = history_reads_invariants [OF same0]
  note loop = land_entries [OF s1 seqs room] logs sealed
  have final: "ve_commit_sequence ?final = ?sq + of_nat (length ?es)"
    "ve_snapshot ?final = ?snap + of_nat (length ?es)"
    using sequences_last [OF seqs es] by simp_all
  define s3 where "s3 = fold (\<lambda>(key, v). identified_counter_insert key v)
    (tbl_iter (identified_advances g)) ?s2"
  have s3: "same_history ?s2 s3" unfolding s3_def by (rule fold_counters_history)
  have t3: "t = clear_in (if completes
      then s3\<lparr>st_compaction_intent := Some (intent_applied (ve_commit_sequence ?final))\<rparr> else s3)"
    by (simp add: t s3_def final Let_def)
  have cat: "st_catalog (fold (\<lambda>(key, v). identified_counter_insert key v) xs u) = st_catalog u" for xs and u :: "'a store"
    by (induction xs arbitrary: u) (auto simp: identified_counter_insert_def)
  have reads: "history_reads ?s2 t"
    using s3 same_history_reads [OF s3]
    by (simp add: t3 history_reads_def clear_in_def same_history_def committed_commit_sequence_def
        log_counts_def counter_get_def)
  have "committed_snapshot t = committed_snapshot s3"
    by (simp add: t3 clear_in_def committed_snapshot_def counter_get_def)
  with same_history_reads [OF s3] have "committed_snapshot t = committed_snapshot ?s2" by simp
  moreover have "staging_slot t = None" "st_outbox t = st_outbox s1" "st_mirror_cursor t = st_mirror_cursor s1"
    "st_catalog t = st_catalog s1"
    using s3 by (simp_all add: t3 clear_in_def staging_slot_def same_history_def) (simp_all add: s3_def cat)
  ultimately have "group_landed mirror g s t"
    using loop reads es
    by (simp add: group_landed_def history_reads_def chain_head_def prospective_head_def chain_end_def
        lands_beside_def last_entry_def)
  then show ?thesis
    using loop history_reads_invariants [OF reads] by (simp add: chain_head_def)
qed

section \<open>Materializing\<close>

definition group_fits :: "'r engine \<Rightarrow> bool" where
  "group_fits e \<longleftrightarrow>
     (case staging_slot (eng_storage e) of
        None \<Rightarrow> True
      | Some g \<Rightarrow> unat (committed_commit_sequence (eng_storage e)) + length (sg_entries g) < 2 ^ 64)"

text \<open>Nothing but the store and the subscription registry changed.\<close>

definition same_session :: "'r engine \<Rightarrow> 'r engine \<Rightarrow> bool" where
  "same_session e e' \<longleftrightarrow>
     eng_catalog e' = eng_catalog e \<and> eng_policy e' = eng_policy e \<and> eng_staging e' = eng_staging e
     \<and> eng_fault e' = eng_fault e"

definition group_materialized ::
  "'r engine_env \<Rightarrow> family_directory \<Rightarrow> staged_group \<Rightarrow> 'r engine \<Rightarrow> (error + materialize_staged_receipt)
   \<Rightarrow> 'r engine \<Rightarrow> bool" where
  "group_materialized env dir g e r e' \<longleftrightarrow>
     group_landed (writes_mirror_outbox (eng_policy e)) g (eng_storage e) (eng_storage e')
     \<and> chain_verified env (chain_head (eng_storage e)) (sg_entries g)
     \<and> same_session e e' \<and> engine_ok env e'
     \<and> eng_subscriptions e' = snd (announce_all env dir (group_announcements g) (eng_subscriptions e))
     \<and> (case r of
          Inl err \<Rightarrow> fst (announce_all env dir (group_announcements g) (eng_subscriptions e)) = Inl err
        | Inr receipt \<Rightarrow> prospective_head g = Some (ms_head receipt)
            \<and> ms_commit_sequence receipt = committed_commit_sequence (eng_storage e')
            \<and> ms_snapshot receipt = committed_snapshot (eng_storage e')
            \<and> ms_entry_count receipt = length (sg_entries g))"

lemma same_session_ok:
  assumes "same_session e e'" and "engine_ok env e" and "logs_ok (eng_storage e')"
    and "eng_policy e \<noteq> None \<Longrightarrow> history_ok env (eng_storage e')" and "staging_slot (eng_storage e') = None"
  shows "engine_ok env e'"
  using assms by (simp add: engine_ok_def same_session_def)

lemma engine_write_cases:
  assumes "engine_write env body e = (r, e')"
  obtains (rolled_back) err where "r = Inl err" "e' = e"
  | (committed) x s where "r = Inr x" "body (eng_storage e) = Inr (x, s)" "e' = e\<lparr>eng_storage := s\<rparr>"
  using assms by (cases r) (auto simp: engine_write_Inr dest: engine_write_Inl)

lemma lift_storage_Inr [simp]: "lift_storage r = Inr x \<longleftrightarrow> r = Inr x"
  by (simp add: lift_storage_def split: sum.splits)

lemma materialize_outcome:
  assumes run: "materialize_staged_group env dir e = (r, e')" and ok: "engine_ok env e"
    and fits: "group_fits e"
  shows "(\<exists>err. r = Inl err \<and> e' = e)
    \<or> (\<exists>g. eng_staging e = None \<and> staging_slot (eng_storage e) = Some g \<and> group_materialized env dir g e r e')"
proof (cases "eng_staging e = None \<and> (\<exists>g. staging_slot (eng_storage e) = Some g)")
  case False
  then show ?thesis using run
    by (auto simp: materialize_staged_group_def split: option.splits if_splits)
next
  case True
  then obtain g where idle: "eng_staging e = None" and g: "staging_slot (eng_storage e) = Some g" by blast
  let ?s = "eng_storage e" and ?es = "sg_entries g"
  let ?body = "\<lambda>s. bindR (lift_storage (land_group env dir (writes_mirror_outbox (eng_policy e)) (log_counts ?s) g
      (intent_planned_pending ?s) s)) (\<lambda>s'. Inr ((), s'))"
  show ?thesis
  proof (cases "base_predecessor g = chain_head ?s \<and> chain_verified env (chain_head ?s) ?es
      \<and> sequences_from (committed_commit_sequence ?s) (committed_snapshot ?s) ?es \<and> ?es \<noteq> []")
    case False
    then show ?thesis
    proof (cases "verify_group_entries env (committed_commit_sequence ?s) (chain_head ?s)
        (committed_commit_sequence ?s) (committed_snapshot ?s) ?es")
      case (Inl err)
      with run idle g show ?thesis
        by (auto simp: materialize_staged_group_def Let_def split: if_splits)
    next
      case (Inr h)
      with False run idle g show ?thesis
        by (auto simp: materialize_staged_group_def Let_def verify_group_entries_Inr prospective_head_def
            last_entry_def ok_or_def split: if_splits)
    qed
  next
    case True
    then have checks: "verify_group_entries env (committed_commit_sequence ?s) (chain_head ?s)
        (committed_commit_sequence ?s) (committed_snapshot ?s) ?es = Inr (prospective_head g)"
      "prospective_head g = Some (ve_entry_digest (last ?es))"
      by (simp_all add: verify_group_entries_Inr prospective_head_def last_entry_def chain_end_def)
    obtain r1 e1 where w: "engine_write env ?body e = (r1, e1)" by (cases "engine_write env ?body e")
    then show ?thesis
    proof (cases rule: engine_write_cases)
      case (rolled_back err)
      with w run idle g True checks show ?thesis
        by (auto simp: materialize_staged_group_def Let_def ok_or_def)
    next
      case (committed x t)
      then have land: "land_group env dir (writes_mirror_outbox (eng_policy e)) (log_counts ?s) g
          (intent_planned_pending ?s) ?s = Inr t" and e1: "e1 = e\<lparr>eng_storage := t\<rparr>"
        by (auto simp: bindR_eq_Inr)
      have landed: "group_landed (writes_mirror_outbox (eng_policy e)) g ?s t \<and> logs_ok t
          \<and> (history_ok env ?s \<longrightarrow> chain_verified env (chain_head ?s) ?es
              \<longrightarrow> list_all op_applicable (all_operations ?es) \<longrightarrow> history_ok env t)"
        using True fits g ok by (intro land_group_ok [OF land]) (simp_all add: group_fits_def engine_ok_def)
      obtain r2 g2 where a: "announce_all env dir (group_announcements g) (eng_subscriptions e) = (r2, g2)"
        by (cases "announce_all env dir (group_announcements g) (eng_subscriptions e)")
      define e2 where "e2 = e1\<lparr>eng_subscriptions := g2\<rparr>"
      have sel: "eng_storage e2 = t" "eng_subscriptions e2 = g2" "same_session e e2"
        by (simp_all add: e2_def e1 same_session_def)
      have "engine_ok env e2"
        using landed ok True g by (intro same_session_ok [OF sel(3)])
          (auto simp: sel group_landed_def engine_ok_def)
      moreover have "ve_commit_sequence (last ?es) = committed_commit_sequence t"
        "ve_snapshot (last ?es) = committed_snapshot t"
        using landed sequences_last [of "committed_commit_sequence ?s" "committed_snapshot ?s" ?es] True
        by (simp_all add: group_landed_def)
      moreover have "e' = e2 \<and> r = (case r2 of Inl err \<Rightarrow> Inl err | Inr u \<Rightarrow>
          Inr \<lparr>ms_head = ve_entry_digest (last ?es), ms_commit_sequence = ve_commit_sequence (last ?es),
               ms_snapshot = ve_snapshot (last ?es), ms_entry_count = group_entry_count g\<rparr>)"
        using run idle g True checks w committed(1) a
        by (cases r2) (simp_all add: materialize_staged_group_def Let_def ok_or_def e1 e2_def)
      ultimately have "group_materialized env dir g e r e'"
        using landed sel True a checks
        by (cases r2) (simp_all add: group_materialized_def group_entry_count_def)
      with idle g show ?thesis by blast
    qed
  qed
qed

end
