(* ===== verification/Lifecycle_Laws.thy ===== *)
theory Lifecycle_Laws
  imports Group_Landing Maintenance_Laws
begin

text \<open>
  Every other operation of the engine keeps the engine invariant: the staging lifecycle, the phases of a
  resumable compaction, the mirror acknowledgement, registration, subscription and rebuild.
\<close>

section \<open>Frames\<close>

text \<open>An operation that leaves the history planes and the session alone.\<close>

lemma engine_ok_storage:
  assumes "engine_ok env e" and "history_reads (eng_storage e) (eng_storage e')"
    and "eng_policy e' = eng_policy e"
    and "\<And>ss. eng_staging e' = Some ss \<Longrightarrow> session_good env ss"
    and "\<And>g. staging_slot (eng_storage e') = Some g \<Longrightarrow>
      list_all op_applicable (all_operations (sg_entries g))"
  shows "engine_ok env e'"
  using assms history_reads_invariants [OF assms(2)] by (simp add: engine_ok_session)

lemma history_reads_refl [simp]: "history_reads s s"
  by (simp add: history_reads_def)

lemma history_reads_same: "same_history s t \<Longrightarrow> history_reads s t"
  using same_history_reads [of s t] by (simp add: history_reads_def same_history_def)

lemma engine_ok_same_history:
  assumes "engine_ok env e" and "same_history (eng_storage e) (eng_storage e')"
    and "eng_policy e' = eng_policy e" and "eng_staging e' = eng_staging e"
  shows "engine_ok env e'"
  using assms same_history_reads [OF assms(2)]
  by (intro engine_ok_storage [OF assms(1) history_reads_same [OF assms(2)]]) (simp_all add: engine_ok_session)

lemma engine_put_ok:
  assumes "engine_put env f e = (r, e')"
  obtains (rolled_back) err where "r = Inl err" "e' = e"
  | (stored) "r = Inr ()" "e' = e\<lparr>eng_storage := f (eng_storage e)\<rparr>"
  using assms by (cases rule: engine_put_cases [of env f e]) auto

text \<open>A sequence of calls keeps a property of the engine when each call does.\<close>

definition keeps :: "('r engine \<Rightarrow> bool) \<Rightarrow> ('r, 'a) engine_result \<Rightarrow> bool" where
  "keeps P res \<longleftrightarrow> P (snd res)"

lemma keeps_pair [simp]: "keeps P (r, e) = P e"
  by (simp add: keeps_def)

lemma keeps_bind:
  "keeps P res \<Longrightarrow> (\<And>x e. res = (Inr x, e) \<Longrightarrow> P e \<Longrightarrow> keeps P (f x e)) \<Longrightarrow> keeps P (bindS res f)"
  by (auto simp: keeps_def bindS_def split: prod.splits sum.splits)

lemma keeps_bind_reads:
  "P e \<Longrightarrow> (\<And>x. r = Inr x \<Longrightarrow> keeps P (f x e)) \<Longrightarrow> keeps P (bindS (reads r e) f)"
  by (cases r) simp_all

lemma keeps_put:
  "P e \<Longrightarrow> P (e\<lparr>eng_storage := f (eng_storage e)\<rparr>) \<Longrightarrow> keeps P (engine_put env f e)"
  by (cases rule: engine_put_cases [of env f e]) simp_all

lemma keepsD: "keeps P res \<Longrightarrow> res = (r, e') \<Longrightarrow> P e'"
  by simp

section \<open>The staging lifecycle\<close>

lemma begin_staged_group_ok:
  assumes "begin_staged_group env e = (r, e')" and "engine_ok env e"
  shows "engine_ok env e' \<and> eng_storage e' = eng_storage e \<and> (r = Inr () \<longrightarrow>
    (\<exists>ss. eng_staging e' = Some ss \<and> session_entry_count ss = 0
       \<and> sb_chain_head (ss_base ss) = chain_head (eng_storage e)
       \<and> sb_commit_sequence (ss_base ss) = committed_commit_sequence (eng_storage e)
       \<and> sb_snapshot (ss_base ss) = committed_snapshot (eng_storage e)))"
proof -
  have "session_good env (staging_session_new base name schema)" for base name schema
    using session_ok_new [of env base name schema]
    by (simp add: session_good_def) (simp add: staging_session_new_def all_operations_def)
  then show ?thesis
    using assms
    by (auto simp: begin_staged_group_def engine_ok_session session_entry_count_def
        split: option.splits if_splits) (simp_all add: staging_session_new_def)
qed

lemma abandon_ok:
  assumes "abandon_staged_group e = (r, e')" and "engine_ok env e"
  shows "engine_ok env e'"
  using assms by (auto simp: abandon_staged_group_def engine_ok_session)

lemma park_in_reads [simp]: "history_reads s (park_in g s)" "staging_slot (park_in g s) = Some g"
  by (simp_all add: history_reads_def park_in_def staging_slot_def committed_commit_sequence_def
      log_counts_def counter_get_def)

lemma clear_in_reads [simp]: "history_reads s (clear_in s)" "staging_slot (clear_in s) = None"
  by (simp_all add: history_reads_def clear_in_def staging_slot_def committed_commit_sequence_def
      log_counts_def counter_get_def)

lemma park_staged_group_cases:
  assumes run: "park_staged_group env e = (r, e')"
  obtains (unchanged) "e' = e" | (closed) "e' = e\<lparr>eng_staging := None\<rparr>"
  | (parked) ss where "eng_staging e = Some ss"
    "e' = e\<lparr>eng_staging := None, eng_storage := park_in (into_group ss) (eng_storage e)\<rparr>"
proof (cases "eng_staging e")
  case None
  with run have "e' = e" by (simp add: park_staged_group_def)
  then show thesis by (rule that(1))
next
  case (Some ss)
  have "e' = e \<or> e' = e\<lparr>eng_staging := None\<rparr>
      \<or> e' = e\<lparr>eng_staging := None, eng_storage := park_in (into_group ss) (eng_storage e)\<rparr>"
    using run Some
    by (cases rule: engine_put_cases [of env "park_in (into_group ss)" "e\<lparr>eng_staging := None\<rparr>"])
      (auto simp: park_staged_group_def Let_def bindS_reads split: if_splits sum.splits)
  then show thesis by (elim disjE) (rule that(1), assumption, rule that(2), assumption, rule that(3) [OF Some], assumption)
qed

lemma discard_staged_group_cases:
  assumes run: "discard_staged_group env e = (r, e')"
  shows "e' = e \<or> e' = e\<lparr>eng_storage := clear_in (eng_storage e)\<rparr>"
  using run
  by (cases rule: engine_put_cases [of env clear_in e])
    (auto simp: discard_staged_group_def Let_def bindS_reads split: option.splits sum.splits)

lemma parked_ok:
  assumes ok: "engine_ok env e" and ss: "eng_staging e = Some ss"
    and slot: "history_reads (eng_storage e) s" "staging_slot s = Some (into_group ss)"
  shows "engine_ok env (e\<lparr>eng_staging := None, eng_storage := s\<rparr>)"
proof -
  have "session_good env ss" using ok ss by (simp add: engine_ok_session)
  with slot show ?thesis by (intro engine_ok_storage [OF ok]) (auto simp: into_group_def session_good_def)
qed

lemma park_staged_group_ok:
  assumes run: "park_staged_group env e = (r, e')" and ok: "engine_ok env e"
  shows "engine_ok env e'"
  using run
proof (cases rule: park_staged_group_cases)
  case (parked ss)
  with parked_ok [OF ok parked(1), of "park_in (into_group ss) (eng_storage e)"] show ?thesis by simp
qed (use ok in \<open>simp_all add: engine_ok_session\<close>)

lemma discard_staged_group_ok:
  assumes run: "discard_staged_group env e = (r, e')" and ok: "engine_ok env e"
  shows "engine_ok env e'"
proof -
  have "engine_ok env (e\<lparr>eng_storage := clear_in (eng_storage e)\<rparr>)"
    using ok by (intro engine_ok_storage [OF ok]) (simp_all add: engine_ok_session)
  with discard_staged_group_cases [OF run] ok show ?thesis by auto
qed

lemma materialize_ok:
  assumes "materialize_staged_group env dir e = (r, e')" and "engine_ok env e" and "group_fits e"
  shows "engine_ok env e'"
  using materialize_outcome [OF assms] assms(2) by (auto simp: group_materialized_def)

section \<open>Resumable compaction\<close>

lemma engine_ok_fault [simp]: "engine_ok env (e\<lparr>eng_fault := f\<rparr>) = engine_ok env e"
  by (simp add: engine_ok_def)

lemma interrupt_cases:
  assumes "interrupt_compaction_at phase e = (r, e')"
  obtains (interrupted) "r = Inl (CompactionInterrupted (fault_phase phase))" "e' = e\<lparr>eng_fault := None\<rparr>"
  | (undisturbed) "r = Inr ()" "e' = e"
  using assms by (auto simp: interrupt_compaction_at_def split: if_splits)

lemma interrupt_ok:
  "interrupt_compaction_at phase e = (r, e') \<Longrightarrow> engine_ok env e' = engine_ok env e"
  by (erule interrupt_cases) simp_all

lemma interrupt_keeps: "keeps (engine_ok env) (interrupt_compaction_at phase e) = engine_ok env e"
  by (simp add: interrupt_compaction_at_def)

lemma put_intent_ok [simp]:
  "engine_ok env e \<Longrightarrow> engine_ok env (e\<lparr>eng_storage := put_intent intent (eng_storage e)\<rparr>)"
  by (rule engine_ok_same_history) simp_all

lemma begin_compaction_ok:
  "begin_compaction env e = (r, e') \<Longrightarrow> engine_ok env e \<Longrightarrow> engine_ok env e'"
  by (auto simp: begin_compaction_def dest: begin_staged_group_ok split: if_splits)

lemma planned_in_reads [simp]:
  "history_reads s (put_intent i (park_in g s))" "staging_slot (put_intent i (park_in g s)) = Some g"
  by (simp_all add: history_reads_def park_in_def put_intent_def staging_slot_def
      committed_commit_sequence_def log_counts_def counter_get_def)

lemma park_compaction_cases:
  assumes run: "park_compaction env e = (r, e')"
  obtains (unchanged) "e' = e" | (closed) "e' = e\<lparr>eng_staging := None\<rparr>"
  | (parked) ss f where "eng_staging e = Some ss"
    "e' = e\<lparr>eng_staging := None, eng_storage := put_intent (Some intent_planned)
        (park_in (into_group ss) (eng_storage e)), eng_fault := f\<rparr>"
proof (cases "eng_staging e")
  case None
  with run have "e' = e" by (simp add: park_compaction_def)
  then show thesis by (rule that(1))
next
  case (Some ss)
  let ?f = "\<lambda>s. put_intent (Some intent_planned) (park_in (into_group ss) s)"
  let ?e0 = "e\<lparr>eng_staging := None\<rparr>"
  have "e' = e \<or> e' = ?e0 \<or> (\<exists>f. e' = ?e0\<lparr>eng_storage := ?f (eng_storage e), eng_fault := f\<rparr>)"
    using run Some
    by (cases rule: engine_put_cases [of env ?f ?e0])
      (auto simp: park_compaction_def Let_def bindS_reads interrupt_compaction_at_def
        split: if_splits sum.splits intro: exI [of _ "eng_fault e"])
  then show thesis
    by (elim disjE exE) (rule that(1), assumption, rule that(2), assumption, rule that(3) [OF Some], assumption)
qed

lemma park_compaction_ok:
  assumes run: "park_compaction env e = (r, e')" and ok: "engine_ok env e"
  shows "engine_ok env e'"
  using run
proof (cases rule: park_compaction_cases)
  case (parked ss f)
  with parked_ok [OF ok parked(1), of "put_intent (Some intent_planned) (park_in (into_group ss) (eng_storage e))"]
  show ?thesis by (simp only: engine_ok_fault planned_in_reads)
qed (use ok in \<open>simp_all add: engine_ok_session\<close>)

text \<open>The applied phase publishes at most one checkpoint and advances the intent.\<close>

lemma publish_compaction_ok:
  assumes run: "publish_compaction_checkpoint env intent e = (r, e')" and ok: "engine_ok env e"
    and room: "committed_commit_sequence (eng_storage e) \<noteq> - 1" and addr: "segments_addressable env e"
  shows "engine_ok env e'"
proof -
  have taken: "keeps (engine_ok env) (take_checkpoint env e)"
    using take_checkpoint_ok [OF ok room addr] by (cases "take_checkpoint env e") simp
  have "keeps (engine_ok env) (publish_compaction_checkpoint env intent e)"
    unfolding publish_compaction_checkpoint_def Let_def
    by (intro keeps_bind_reads keeps_bind [of "engine_ok env"] ok)
      (auto simp: interrupt_keeps ok intro!: keeps_bind [OF taken] keeps_bind keeps_put)
  with run show ?thesis by simp
qed

lemma finish_compaction_ok:
  assumes run: "finish_compaction env e = (r, e')" and ok: "engine_ok env e"
    and room: "committed_commit_sequence (eng_storage e) \<noteq> - 1" and addr: "segments_addressable env e"
  shows "engine_ok env e'"
proof -
  obtain r1 e1 where one: "compact_configured_versioned_history env e = (r1, e1)" by force
  have ok1: "engine_ok env e1"
    using compact_configured_cases [OF one] compact_versioned_history_ok [OF ok room addr] ok by blast
  obtain r2 e2 where two: "interrupt_compaction_at AfterHistoryFloorAdvanced e1 = (r2, e2)" by force
  have ok2: "engine_ok env e2" using interrupt_ok [OF two] ok1 by blast
  show ?thesis
    using run one two ok1 ok2
    by (cases rule: engine_put_cases [of env "put_intent None" e2])
      (auto simp: finish_compaction_def bindS_def split: sum.splits)
qed

end
