(* ===== verification/Registration_Laws.thy ===== *)
theory Registration_Laws
  imports Lifecycle_Laws
begin

text \<open>
  Registration keeps the engine invariant: a new family only adds catalog and counter rows, an existing
  one changes nothing, and an in-place evolution is one commit that retracts every prior row and asserts
  every carried one.
\<close>

section \<open>Evolution as one commit\<close>

text \<open>The operations an evolution logs.\<close>

lemma evolution_log_shape:
  "evolution_log_operations name carried =
     map (\<lambda>r. commit_log_operation_new Retract name (Some (Domain (fst r)))) carried
     @ map (\<lambda>r. commit_log_operation_new Assert name (Some (Domain (fst r)))) carried"
  by (simp add: evolution_log_operations_def case_prod_beta)

lemma mapR_Inr_map:
  "mapR f xs = Inr ys \<Longrightarrow> (\<And>x y. x \<in> set xs \<Longrightarrow> f x = Inr y \<Longrightarrow> g y = h x \<and> P y) \<Longrightarrow>
   map g ys = map h xs \<and> list_all P ys"
proof (induction xs arbitrary: ys)
  case (Cons x xs)
  then obtain y ys' where ys: "f x = Inr y" "mapR f xs = Inr ys'" "ys = y # ys'"
    by (auto simp: bindR_eq_Inr)
  moreover have "map g ys' = map h xs \<and> list_all P ys'"
    using Cons.prems(2) by (intro Cons.IH [OF ys(2)]) auto
  ultimately show ?case using Cons.prems(2) [of x y] by simp
qed simp

lemma evolution_versioned_shape:
  assumes "evolution_versioned_operations env e name stored evolved carried = Inr vops"
    and "eng_policy e \<noteq> None" and "family_table_name stored = name" and "family_table_name evolved = name"
  shows "map operation_of_versioned vops = evolution_log_operations name carried
    \<and> list_all op_applicable vops"
proof -
  let ?retracts = "map (\<lambda>(key, _). \<lparr>vop_operation = Retract, vop_family = stored,
      vop_key = Some (Domain key), vop_payload = Tombstone\<rparr>) carried"
  obtain asserts where asserts: "mapR (\<lambda>(key, row).
        bindR (versioned_record_payload env name row) (\<lambda>payload.
        Inr \<lparr>vop_operation = Assert, vop_family = evolved, vop_key = Some (Domain key),
             vop_payload = payload\<rparr>)) carried = Inr asserts"
    and vops: "vops = ?retracts @ asserts"
    using assms(1,2) by (auto simp: evolution_versioned_operations_def bindR_eq_Inr)
  have "map operation_of_versioned asserts =
      map (\<lambda>r. commit_log_operation_new Assert name (Some (Domain (fst r)))) carried
    \<and> list_all op_applicable asserts"
    by (rule mapR_Inr_map [OF asserts])
      (auto simp: bindR_eq_Inr operation_of_versioned_def commit_log_operation_new_def assms(4)
        payload_of_record)
  moreover have "map operation_of_versioned ?retracts =
      map (\<lambda>r. commit_log_operation_new Retract name (Some (Domain (fst r)))) carried"
    by (simp add: case_prod_beta operation_of_versioned_def commit_log_operation_new_def assms(3) comp_def)
  ultimately show ?thesis
    by (simp add: vops evolution_log_shape) (simp add: list_all_iff case_prod_beta)
qed

lemma land_commit_rows [simp]:
  "st_rows (land_commit policy n en v sq snap s) = st_rows s"
  "st_identified_rows (land_commit policy n en v sq snap s) = st_identified_rows s"
  "st_catalog (land_commit policy n en v sq snap s) = st_catalog s"
  by (simp_all add: land_commit_def counter_insert_def insert_versioned_entry_def append_commit_def
      append_versioned_def outbox_record_def Let_def split: option.split)

text \<open>The rows of one table after an evolution, and the catalog row stored with them.\<close>

definition carried_store ::
  "string \<Rightarrow> table_registration \<Rightarrow> (string \<times> 'r) list \<Rightarrow> 'r store \<Rightarrow> 'r store \<Rightarrow> bool" where
  "carried_store name evolved carried s t \<longleftrightarrow>
     st_rows t = st_rows (fold (\<lambda>(key, row). row_insert name key row) carried s)
     \<and> st_identified_rows t = st_identified_rows s
     \<and> st_identified_counters t = st_identified_counters s
     \<and> st_catalog t = tbl_insert name evolved (st_catalog s)"

lemma row_insert_others [simp]:
  "st_identified_rows (row_insert t k r s) = st_identified_rows s" "st_catalog (row_insert t k r s) = st_catalog s"
  by (simp_all add: row_insert_def)

lemma fold_row_insert_others [simp]:
  "st_identified_rows (fold (\<lambda>(key, row). row_insert name key row) rows s) = st_identified_rows s"
  "st_catalog (fold (\<lambda>(key, row). row_insert name key row) rows s) = st_catalog s"
  "st_identified_counters (fold (\<lambda>(key, row). row_insert name key row) rows s) = st_identified_counters s"
  by (induction rows arbitrary: s) auto

text \<open>On a versioned store the commit of an evolution logs exactly its operations.\<close>

definition evolution_logged ::
  "'r engine_env \<Rightarrow> 'r table_descriptor \<Rightarrow> family_identity \<Rightarrow> (string \<times> 'r) list \<Rightarrow> 'r engine \<Rightarrow> 'r engine
   \<Rightarrow> bool" where
  "evolution_logged env d stored carried e e1 \<longleftrightarrow>
     (eng_policy e \<noteq> None \<longrightarrow> (\<exists>v. evolution_versioned_operations env e (td_name d) stored (td_family_identity d) carried
          = Inr (ne_list (ve_operations v))
        \<and> versioned_entries (eng_storage e1) = versioned_entries (eng_storage e) @ [v]))"

lemma persist_family_evolution_outcome:
  assumes ok: "engine_ok env e" and room: "committed_commit_sequence (eng_storage e) \<noteq> - 1"
    and stored: "family_table_name stored = td_name d"
    and evolved: "evolved = registration_new (td_family_identity d)" and rows: "carried \<noteq> []"
  shows "write_outcome e (\<lambda>e1. lands_one env e e1 \<and> evolution_logged env d stored carried e e1
      \<and> carried_store (td_name d) evolved carried (eng_storage e) (eng_storage e1)) (maintain_versioned_history env)
    (persist_family_evolution env d stored carried evolved e)"
proof -
  let ?name = "td_name d" and ?sq = "next_commit_sequence e" and ?snap = "next_snapshot e"
  let ?body = "fold (\<lambda>(key, row). row_insert ?name key row) carried"
  let ?post = "catalog_row_insert ?name evolved"
  show ?thesis
    unfolding persist_family_evolution_def Let_def
  proof (simp only: rows if_False, intro outcome_reads)
    fix vops opers ventry
    assume v: "evolution_versioned_operations env e ?name stored (registration_identity evolved) carried
        = Inr vops"
      and o: "ok_or (EmptyCommit ?name) (ne_try_from_vec (evolution_log_operations ?name carried)) = Inr opers"
      and en: "(if eng_policy e = None then Inr None
        else bindR (ok_or (EmptyCommit ?name) (ne_try_from_vec vops))
               (\<lambda>vs. Inr (versioned_entry_for env e ?sq ?snap vs))) = Inr ventry"
    have opers: "ne_list opers = evolution_log_operations ?name carried"
      using o by (simp add: ok_or_eq_Inr)
    obtain vopers where vopers: "ventry = versioned_entry_of env e vopers"
      "eng_policy e \<noteq> None \<longrightarrow> vops = ne_list vopers"
    proof (cases "eng_policy e")
      case None
      with en that [of "ne_single undefined"] show thesis by (simp add: versioned_entry_of_None [THEN iffD2])
    next
      case (Some policy)
      with en that show thesis by (auto simp: bindR_eq_Inr ok_or_eq_Inr versioned_entry_of_def)
    qed
    have ops: "eng_policy e \<noteq> None \<longrightarrow> list_all op_applicable (ne_list vopers)
        \<and> map operation_of_versioned (ne_list vopers) = ne_list opers"
      using evolution_versioned_shape [OF v _ stored] evolved vopers(2) opers
      by (simp add: registration_new_def td_family_identity_def)
    let ?e1 = "e\<lparr>eng_storage := ?post (land_commit (eng_policy e) (log_counts (eng_storage e))
        (commit_log_entry_new ?sq ?snap opers) ventry ?sq ?snap (?body (eng_storage e)))\<rparr>"
    have commit: "commits env ?body ?post opers vopers e ?e1"
      by (simp add: commits_def landed_def vopers(1) commit_entry_of_def)
    have "lands_one env e ?e1"
      by (rule lands_oneI [OF evolution_body.commit_body_axioms commit ok room ops])
    moreover have "carried_store ?name evolved carried (eng_storage e) (eng_storage ?e1)"
      by (simp add: carried_store_def catalog_row_insert_def)
    moreover have "evolution_logged env d stored carried e ?e1"
    proof -
      have "appends_commit env (ne_list opers) (\<lambda>l. l = ne_list vopers) e ?e1"
        using ok room by (intro commits_appends [OF evolution_body.commit_body_axioms commit]) (auto simp: engine_ok_def)
      then show ?thesis
        using v vopers(2) evolved by (auto simp: evolution_logged_def appends_commit_def registration_new_def)
    qed
    ultimately show "write_outcome e (\<lambda>e1. lands_one env e e1 \<and> evolution_logged env d stored carried e e1
        \<and> carried_store ?name evolved carried (eng_storage e) (eng_storage e1)) (maintain_versioned_history env)
       (bindS (engine_put env (\<lambda>s. ?post (land_commit (eng_policy e) (log_counts (eng_storage e))
           (commit_log_entry_new ?sq ?snap opers) ventry ?sq ?snap (?body s))) e)
         (\<lambda>_. maintain_versioned_history env))"
      by (intro outcome_put outcome_landed conjI)
  qed
qed

section \<open>Evolving a registered family\<close>

lemma registered_lookup:
  "registered_family e name = Inr f \<longleftrightarrow> registration_for_table (eng_catalog e) name = Some (registration_new f)"
proof -
  have "(r = registration_new f) = (registration_identity r = f)" for r
    by (cases r) (simp add: registration_new_def)
  then show ?thesis
    by (auto simp: registered_family_def ok_or_eq_Inr catalog_family_identity_def)
qed

definition evolved_catalog :: "'r table_descriptor \<Rightarrow> 'r engine \<Rightarrow> 'r engine \<Rightarrow> bool" where
  "evolved_catalog d e e1 \<longleftrightarrow>
     catalog_evolve (eng_catalog e) (td_name d) (registration_new (td_family_identity d)) = Inr (eng_catalog e1)
     \<and> eng_storage e1 = eng_storage e \<and> eng_policy e1 = eng_policy e \<and> eng_staging e1 = eng_staging e
     \<and> eng_subscriptions e1 = eng_subscriptions e \<and> eng_fault e1 = eng_fault e"

text \<open>Refused with the old catalog, one catalog row when there are no records, or one landed commit and
  its maintenance; a failing maintenance puts the old catalog back although the commit is durable.\<close>

definition evolution_outcome ::
  "'r engine_env \<Rightarrow> 'r table_descriptor \<Rightarrow> 'r evolution_step \<Rightarrow> 'r engine \<Rightarrow> ('r, unit) engine_result
   \<Rightarrow> bool" where
  "evolution_outcome env d step e res \<longleftrightarrow>
     (\<exists>err. res = (Inl err, e))
     \<or> (\<exists>e0. evolved_catalog d e e0 \<and> tbl_iter (st_rows (eng_storage e) (td_name d)) = []
          \<and> res = (Inr (), e0\<lparr>eng_storage := catalog_row_insert (td_name d)
                       (registration_new (td_family_identity d)) (eng_storage e)\<rparr>))
     \<or> (\<exists>e0 e1 e2 carried. evolved_catalog d e e0 \<and> lands_one env e0 e1
          \<and> carry_rows step (st_rows (eng_storage e) (td_name d)) = Inr carried
          \<and> (\<forall>stored. registered_family e (td_name d) = Inr stored \<longrightarrow> evolution_logged env d stored carried e0 e1)
          \<and> carried_store (td_name d) (registration_new (td_family_identity d)) carried
              (eng_storage e) (eng_storage e1)
          \<and> ((\<exists>u. maintain_versioned_history env e1 = (Inr u, e2) \<and> res = (Inr (), e2))
             \<or> (\<exists>err. maintain_versioned_history env e1 = (Inl err, e2)
                  \<and> res = (Inl err, e2\<lparr>eng_catalog := eng_catalog e\<rparr>))))"

lemma maintain_keeps:
  assumes "\<And>e f. P e \<Longrightarrow> P (e\<lparr>eng_storage := f (eng_storage e)\<rparr>)" and "P e"
  shows "keeps P (maintain_versioned_history env e)"
proof -
  have put: "keeps P (engine_put env f e)" if "P e" for e f
    using that assms(1) by (intro keeps_put)
  have take: "keeps P (take_checkpoint env e)" if "P e" for e
    using that
    by (auto simp: take_checkpoint_def split: option.split prod.split
        intro!: keeps_bind_reads keeps_bind [OF put])
  have cover: "keeps P (covering_checkpoint env e)" if "P e" for e
    using that
    by (auto simp: covering_checkpoint_def Let_def split: option.split
        intro!: keeps_bind_reads keeps_bind [OF take])
  have compact: "keeps P (compact_versioned_history env retention ack e)" if "P e" for e retention ack
    using that
    by (auto simp: compact_versioned_history_def Let_def split: prod.split
        intro!: keeps_bind_reads keeps_bind [OF cover] keeps_bind [OF put])
  have configured: "keeps P (compact_configured_versioned_history env e)" if "P e" for e
    using that
    by (auto simp: compact_configured_versioned_history_def Let_def split: option.split
        intro!: keeps_bind_reads compact)
  show ?thesis
    using assms(2) by (auto simp: maintain_versioned_history_def intro!: keeps_bind [OF configured])
qed

lemma maintain_catalog:
  "maintain_versioned_history env e = (r, e') \<Longrightarrow> eng_catalog e' = eng_catalog e"
  using maintain_keeps [of "\<lambda>x. eng_catalog x = eng_catalog e" e env] by simp

lemma evolve_outcome:
  assumes ok: "engine_ok env e" and room: "committed_commit_sequence (eng_storage e) \<noteq> - 1"
    and stored: "registered_family e (td_name d) = Inr stored"
  shows "evolution_outcome env d step e (evolve_registered_family env d stored step e)"
proof -
  let ?name = "td_name d" and ?evolved = "registration_new (td_family_identity d)"
  have lookup: "registration_for_table (eng_catalog e) ?name = Some (registration_new stored)"
    using stored by (simp add: registered_lookup)
  then obtain c where c: "catalog_evolve (eng_catalog e) ?name ?evolved = Inr c"
    by (simp add: catalog_evolve_def)
  have name: "registration_table_name ?evolved = ?name"
    by (simp add: registration_table_name_def registration_new_def td_family_identity_def)
  have undo: "catalog_evolve c ?name (registration_new stored) = Inr (eng_catalog e)"
    by (rule catalog_evolve_undo [OF c name lookup])
  let ?e0 = "e\<lparr>eng_catalog := c\<rparr>"
  have e0: "evolved_catalog d e ?e0" by (simp add: evolved_catalog_def c)
  have undone: "?e0\<lparr>eng_catalog := eng_catalog e\<rparr> = e" by simp
  show ?thesis
  proof (cases "carry_rows step (st_rows (eng_storage e) ?name)")
    case (Inl fault)
    then show ?thesis
      by (simp add: evolve_registered_family_def Let_def store_read_def evolution_outcome_def)
  next
    case (Inr carried)
    have run: "evolve_registered_family env d stored step e =
        (case persist_family_evolution env d stored carried ?evolved ?e0 of
           (Inr u, e') \<Rightarrow> (Inr u, e')
         | (Inl err, e') \<Rightarrow>
             bindS (reads (catalog_evolve (eng_catalog e') ?name (registration_new stored)) e')
               (\<lambda>c' e'. (Inl err, e'\<lparr>eng_catalog := c'\<rparr>)))"
      by (simp add: evolve_registered_family_def Let_def store_read_def Inr c)
    show ?thesis
    proof (cases "carried = []")
      case True
      then have empty: "tbl_iter (st_rows (eng_storage e) ?name) = []" using carry_rows_Nil [of step] Inr by simp
      from True run show ?thesis
        by (cases rule: engine_put_cases [of env "catalog_row_insert ?name ?evolved" ?e0])
          (auto simp: persist_family_evolution_def Let_def undo undone evolution_outcome_def empty
            intro!: exI [of _ ?e0] e0)
    next
      case False
      have ok0: "engine_ok env ?e0" using ok by (simp add: engine_ok_def)
      have table: "family_table_name stored = ?name" by (rule registered_table_name [OF stored])
      have "write_outcome ?e0 (\<lambda>e1. lands_one env ?e0 e1 \<and> evolution_logged env d stored carried ?e0 e1
            \<and> carried_store ?name ?evolved carried (eng_storage ?e0) (eng_storage e1)) (maintain_versioned_history env)
          (persist_family_evolution env d stored carried ?evolved ?e0)"
        by (rule persist_family_evolution_outcome [OF ok0 _ table refl False]) (simp add: room)
      then consider err where "persist_family_evolution env d stored carried ?evolved ?e0 = (Inl err, ?e0)"
        | e1 where "lands_one env ?e0 e1" "carried_store ?name ?evolved carried (eng_storage e) (eng_storage e1)"
          "\<forall>f. registered_family e ?name = Inr f \<longrightarrow> evolution_logged env d f carried ?e0 e1"
          "persist_family_evolution env d stored carried ?evolved ?e0 = maintain_versioned_history env e1"
        by (auto simp: write_outcome_def stored)
      then show ?thesis
      proof cases
        case (1 err)
        with run show ?thesis by (simp add: undo evolution_outcome_def)
      next
        case (2 e1)
        obtain r2 e2 where m: "maintain_versioned_history env e1 = (r2, e2)" by force
        have "eng_catalog e2 = c"
          using maintain_catalog [OF m] 2(1) by (simp add: lands_one_def)
        with run 2 m e0 undo Inr show ?thesis
          unfolding evolution_outcome_def
          by (intro disjI2 exI [of _ ?e0] exI [of _ e1] exI [of _ e2] exI [of _ carried]) (cases r2; simp)
      qed
    qed
  qed
qed

end
