(* ===== verification/System_Steps.thy ===== *)
theory System_Steps
  imports Registration_Laws
begin

text \<open>
  The engine as a state machine: one step per public operation that may change it, on every result the
  operation can have, and the invariant of all reachable engines.  A step is possible in every state; what
  the rules ask for besides is that the commit sequence does not run out and that no two segments of the
  checkpoint an operation may publish share a digest.
\<close>

lemma keeps_reads [simp]: "keeps P (reads r e) = P e"
  by (simp add: keeps_def reads_def)

section \<open>Room and addressability\<close>

definition has_room :: "'r engine \<Rightarrow> bool" where
  "has_room e \<longleftrightarrow> unat (committed_commit_sequence (eng_storage e)) + 2 < 2 ^ 64"

lemma unat_succ: "unat x + 1 < 2 ^ 64 \<Longrightarrow> unat (x + 1) = unat x + 1" for x :: u64
  using unat_add_lem [of x 1] by simp

lemma has_room_words:
  assumes "has_room e"
  shows "committed_commit_sequence (eng_storage e) \<noteq> - 1"
    and "committed_commit_sequence (eng_storage e) + 1 \<noteq> - 1"
proof -
  let ?c = "committed_commit_sequence (eng_storage e)"
  have c: "unat ?c + 2 < 2 ^ 64" using assms by (simp add: has_room_def)
  then have one: "unat (?c + 1) = unat ?c + 1" by (intro unat_succ) simp
  with c have two: "unat (?c + 1 + 1) = unat ?c + 2" using unat_succ [of "?c + 1"] by simp
  show "?c \<noteq> - 1" using one by auto
  show "?c + 1 \<noteq> - 1"
  proof
    assume "?c + 1 = - 1"
    then have "?c + 1 + 1 = 0" by (simp only: add.left_inverse)
    with two show False by (metis add_is_0 unat_0 zero_neq_numeral)
  qed
qed

text \<open>After a landed commit the maintenance, where it has something to compact, can tell the segments of
  its checkpoint apart.\<close>

definition over_retention :: "'r engine \<Rightarrow> bool" where
  "over_retention e \<longleftrightarrow>
     (\<exists>policy. eng_policy e = Some policy
        \<and> maximum_live_entries (policy_retention policy)
            < of_nat (length (versioned_entries (eng_storage e))))"

definition commits_addressable :: "'r engine_env \<Rightarrow> 'r engine \<Rightarrow> bool" where
  "commits_addressable env e \<longleftrightarrow>
     (\<forall>e1. lands_one env e e1 \<longrightarrow> over_retention e1 \<longrightarrow> segments_addressable env e1)"

lemma maintain_within: "\<not> over_retention e \<Longrightarrow> maintain_versioned_history env e = (r, e') \<Longrightarrow> e' = e"
  by (auto simp: maintain_versioned_history_def compact_configured_versioned_history_def over_retention_def
      bindS_reads Let_def not_less split: if_splits sum.splits)

lemma maintained_ok:
  assumes lands: "lands_one env e e1" and room: "has_room e" and addr: "commits_addressable env e"
    and run: "maintain_versioned_history env e1 = (r, e')"
  shows "engine_ok env e'"
proof -
  have e1: "engine_ok env e1" "committed_commit_sequence (eng_storage e1) = committed_commit_sequence (eng_storage e) + 1"
    using lands by (auto simp: lands_one_def appends_commit_def)
  show ?thesis
  proof (cases "over_retention e1")
    case True
    with e1 has_room_words [OF room] lands addr show ?thesis
      using maintain_ok [of env e1 r e'] run by (simp add: commits_addressable_def)
  next
    case False
    from maintain_within [OF this run] e1 show ?thesis by simp
  qed
qed

lemma settles_ok:
  assumes "settles env e (r, e')" and "engine_ok env e" and "has_room e" and "commits_addressable env e"
  shows "engine_ok env e'"
  using assms maintained_ok [of env e _ r e'] unfolding settles_def
  by (elim disjE exE conjE) (auto simp: lands_one_def)

section \<open>Steps\<close>

inductive engine_step :: "'r engine_env \<Rightarrow> family_directory \<Rightarrow> 'r engine \<Rightarrow> 'r engine \<Rightarrow> bool"
  for env dir where
  step_write: "run_write env w e = (r, e') \<Longrightarrow> has_room e \<Longrightarrow> commits_addressable env e \<Longrightarrow> engine_step env dir e e'"
| step_checkpoint: "take_checkpoint env e = (r, e') \<Longrightarrow> has_room e \<Longrightarrow> segments_addressable env e \<Longrightarrow>
    engine_step env dir e e'"
| step_compact: "compact_versioned_history env retention ack e = (r, e') \<Longrightarrow> has_room e \<Longrightarrow>
    segments_addressable env e \<Longrightarrow> engine_step env dir e e'"
| step_maintain: "maintain_versioned_history env e = (r, e') \<Longrightarrow> has_room e \<Longrightarrow> segments_addressable env e \<Longrightarrow>
    engine_step env dir e e'"
| step_rebuild: "rebuild_from_log env dir e = (r, e') \<Longrightarrow> engine_step env dir e e'"
| step_acknowledge: "acknowledge_mirror env head e = (r, e') \<Longrightarrow> engine_step env dir e e'"
| step_engage: "begin_staged_group env e = (r, e') \<Longrightarrow> engine_step env dir e e'"
| step_park: "park_staged_group env e = (r', e') \<Longrightarrow> engine_step env dir e e'"
| step_abandon: "abandon_staged_group e = (r, e') \<Longrightarrow> engine_step env dir e e'"
| step_discard: "discard_staged_group env e = (r'', e') \<Longrightarrow> engine_step env dir e e'"
| step_materialize: "materialize_staged_group env dir e = (r''', e') \<Longrightarrow> group_fits e \<Longrightarrow> engine_step env dir e e'"
| step_plan: "begin_compaction env e = (r, e') \<Longrightarrow> engine_step env dir e e'"
| step_park_plan: "park_compaction env e = (rb, e') \<Longrightarrow> engine_step env dir e e'"
| step_interrupt: "interrupt_compaction_at phase e = (r, e') \<Longrightarrow> engine_step env dir e e'"
| step_inject: "engine_step env dir e (inject_compaction_fault fault e)"
| step_publish: "publish_compaction_checkpoint env intent e = (r, e') \<Longrightarrow> has_room e \<Longrightarrow>
    segments_addressable env e \<Longrightarrow> engine_step env dir e e'"
| step_finish: "finish_compaction env e = (r, e') \<Longrightarrow> has_room e \<Longrightarrow> segments_addressable env e \<Longrightarrow>
    engine_step env dir e e'"
| step_register: "register_table env d e = (rt, e') \<Longrightarrow> has_room e \<Longrightarrow>
    (\<And>c. commits_addressable env (e\<lparr>eng_catalog := c\<rparr>)) \<Longrightarrow> engine_step env dir e e'"
| step_register_identified: "register_identified_table env idd e = (rt, e') \<Longrightarrow> engine_step env dir e e'"
| step_subscribe: "engine_subscribe env plan snk e = (rs, e') \<Longrightarrow> engine_step env dir e e'"
| step_deliver: "engine_step env dir e
    (e\<lparr>eng_subscriptions := run_spawned i (eng_subscriptions e)\<rparr>)"

lemma write_settles:
  assumes ok: "engine_ok env e" and room: "has_room e"
    and idle: "eng_staging e = None \<or> (\<exists>ws. w = DirectAtomic ws)"
  shows "settles env e (run_write env w e)"
  using idle
proof
  assume "eng_staging e = None"
  then show ?thesis by (rule run_write_settles [OF _ ok has_room_words(1) [OF room]])
next
  assume "\<exists>ws. w = DirectAtomic ws"
  then obtain ws where w: "w = DirectAtomic ws" by blast
  show ?thesis
    unfolding w run_write.simps
    by (rule settles_finish [OF commit_atomic_outcome])
      (auto intro: lands_atomic_one [OF _ ok has_room_words(1) [OF room]])
qed

lemma write_step_ok:
  assumes run: "run_write env w e = (r, e')" and ok: "engine_ok env e" and room: "has_room e"
    and addr: "commits_addressable env e"
  shows "engine_ok env e'"
proof (cases "eng_staging e = None \<or> (\<exists>ws. w = DirectAtomic ws)")
  case True
  then have "settles env e (run_write env w e)" by (rule write_settles [OF ok room])
  with run show ?thesis using settles_ok [OF _ ok room addr] by metis
next
  case False
  then obtain ss where "eng_staging e = Some ss" by auto
  with False session_write [of e ss w env] run session_writes_ok(1) ok show ?thesis by metis
qed

lemma engine_ok_other [simp]:
  "engine_ok env (e\<lparr>eng_catalog := c\<rparr>) = engine_ok env e"
  "engine_ok env (e\<lparr>eng_subscriptions := g\<rparr>) = engine_ok env e"
  by (simp_all add: engine_ok_def)

lemma rebuild_ok:
  assumes run: "rebuild_from_log env dir e = (r, e')" and ok: "engine_ok env e"
  shows "engine_ok env e'"
proof -
  have rows: "keeps (engine_ok env) (engine_write env (\<lambda>s. bindR (lift_storage
      (materialize_rows_in env dir m s)) (\<lambda>s'. Inr ((), s'))) e)" for m
  proof (cases "engine_write env (\<lambda>s. bindR (lift_storage
      (materialize_rows_in env dir m s)) (\<lambda>s'. Inr ((), s'))) e")
    case (Pair r1 e1)
    then show ?thesis
    proof (cases rule: engine_write_cases)
      case (committed x s)
      then have "materialize_rows_in env dir m (eng_storage e) = Inr s" by (auto simp: bindR_eq_Inr)
      from materialize_rows_planes [OF this] have "same_history (eng_storage e) s" by (rule same_planes_history)
      with ok committed Pair show ?thesis
        using engine_ok_same_history [OF ok, of e1] by simp
    qed (use ok Pair in simp)
  qed
  have "keeps (engine_ok env) (rebuild_from_log env dir e)"
    unfolding rebuild_from_log_def Let_def using ok
    by (auto simp: split: prod.split intro!: keeps_bind_reads keeps_bind [OF rows])
  with run show ?thesis by simp
qed

lemma acknowledge_mirror_cases:
  assumes run: "acknowledge_mirror env head e = (r, e')"
  obtains s where "e' = e\<lparr>eng_storage := s\<rparr>"
    "s = eng_storage e \<or> s = (eng_storage e)\<lparr>st_mirror_cursor := Some head\<rparr>"
proof -
  let ?res = "outbox_acknowledge env head (map_option ve_entry_digest
      (versioned_entry_at (eng_storage e) (mh_commit_sequence head))) (eng_storage e)"
  obtain r1 s where o: "?res = (r1, s)" by (cases ?res)
  then have "e' = e\<lparr>eng_storage := s\<rparr>" using run by (simp add: acknowledge_mirror_def)
  moreover have "s = eng_storage e \<or> s = (eng_storage e)\<lparr>st_mirror_cursor := Some head\<rparr>"
    using o outbox_acknowledge_Inl outbox_acknowledge_Inr(2) by (cases r1) blast+
  ultimately show thesis by (rule that)
qed

lemma cursor_reads [simp]:
  "history_reads s (s\<lparr>st_mirror_cursor := c\<rparr>)" "staging_slot (s\<lparr>st_mirror_cursor := c\<rparr>) = staging_slot s"
  by (simp_all add: history_reads_def committed_commit_sequence_def log_counts_def counter_get_def staging_slot_def)

lemma acknowledge_ok:
  assumes run: "acknowledge_mirror env head e = (r, e')" and ok: "engine_ok env e"
  shows "engine_ok env e'"
proof (rule acknowledge_mirror_cases [OF run])
  fix s
  assume e': "e' = e\<lparr>eng_storage := s\<rparr>"
    and s: "s = eng_storage e \<or> s = (eng_storage e)\<lparr>st_mirror_cursor := Some head\<rparr>"
  then show "engine_ok env e'"
    unfolding e' using ok by (intro engine_ok_storage [OF ok]) (auto simp: engine_ok_session)
qed

lemma evolved_catalog_update: "evolved_catalog d e e0 \<Longrightarrow> e0 = e\<lparr>eng_catalog := eng_catalog e0\<rparr>"
  by (cases e; cases e0) (simp add: evolved_catalog_def)

lemma register_table_ok:
  assumes run: "register_table env d e = (r, e')" and ok: "engine_ok env e" and room: "has_room e"
    and addr: "\<And>c. commits_addressable env (e\<lparr>eng_catalog := c\<rparr>)"
  shows "engine_ok env e'"
proof -
  have new: "engine_ok env (e\<lparr>eng_storage := catalog_row_insert name reg (eng_storage e)\<rparr>)" for name reg
    by (rule engine_ok_same_history [OF ok]) simp_all
  have evolve: "keeps (engine_ok env) (evolve_registered_family env d stored step e)"
    if "registered_family e (td_name d) = Inr stored" for stored step
  proof -
    have out: "evolution_outcome env d step e (evolve_registered_family env d stored step e)"
      by (rule evolve_outcome [OF ok has_room_words(1) [OF room] that])
    have landed: "engine_ok env e2" if "evolved_catalog d e e0" "lands_one env e0 e1"
      "maintain_versioned_history env e1 = (r2, e2)" for e0 e1 e2 r2
    proof -
      from evolved_catalog_update [OF that(1)] obtain c where e0: "e0 = e\<lparr>eng_catalog := c\<rparr>" by blast
      show ?thesis
        by (rule maintained_ok [OF that(2) [unfolded e0] _ addr that(3)])
          (use room in \<open>simp add: has_room_def\<close>)
    qed
    from out show ?thesis
      unfolding evolution_outcome_def using ok new landed
      by (auto simp: evolved_catalog_def engine_ok_session)
  qed
  have "keeps (engine_ok env) (register_table env d e)"
    unfolding register_table_def Let_def using ok evolve
    by (auto split: sum.split error.split family_registration.split option.split
        intro!: keeps_bind_reads keeps_bind [of "engine_ok env"] keeps_put new)
  with run show ?thesis by simp
qed

lemma register_identified_table_ok:
  assumes run: "register_identified_table env d e = (r, e')" and ok: "engine_ok env e"
  shows "engine_ok env e'"
proof -
  have new: "engine_ok env (e\<lparr>eng_storage := identified_counter_insert key v
      (catalog_row_insert name reg (eng_storage e))\<rparr>)" for key v name reg
    by (rule engine_ok_same_history [OF ok])
      (simp_all add: same_history_trans [OF same_history_updates(5) same_history_updates(6)])
  have "keeps (engine_ok env) (register_identified_table env d e)"
    unfolding register_identified_table_def Let_def using ok
    by (auto split: family_registration.split
        intro!: keeps_bind_reads keeps_bind [of "engine_ok env"] keeps_put new)
  with run show ?thesis by simp
qed

lemma persist_subscription_reads [simp]:
  "history_reads s (persist_subscription handle f s)"
  "staging_slot (persist_subscription handle f s) = staging_slot s"
  by (simp_all add: history_reads_def persist_subscription_def committed_commit_sequence_def log_counts_def
      staging_slot_def counter_get_insert counter_get_def counter_insert_def table_simps)

text \<open>Subscribing changes nothing but the registry and the subscription rows.\<close>

lemma keeps_subscribe:
  assumes "P e" and "\<And>e g. P e \<Longrightarrow> P (e\<lparr>eng_subscriptions := g\<rparr>)"
    and "\<And>e handle f. P e \<Longrightarrow> P (e\<lparr>eng_storage := persist_subscription handle f (eng_storage e)\<rparr>)"
  shows "keeps P (engine_subscribe env plan snk e)"
  unfolding engine_subscribe_def Let_def using assms(1,2)
  by (auto split: option.split intro!: keeps_bind_reads keeps_bind [of P] keeps_put assms(3))

lemma engine_subscribe_ok:
  assumes run: "engine_subscribe env plan snk e = (r, e')" and ok: "engine_ok env e"
  shows "engine_ok env e'"
proof -
  have "keeps (engine_ok env) (engine_subscribe env plan snk e)"
    using ok by (intro keeps_subscribe [of "engine_ok env"])
      (simp_all add: engine_ok_session history_reads_invariants [OF persist_subscription_reads(1)])
  with run show ?thesis by simp
qed

lemma engine_step_ok: "engine_step env dir e e' \<Longrightarrow> engine_ok env e \<Longrightarrow> engine_ok env e'"
proof (induction rule: engine_step.induct)
  case (step_checkpoint e r e')
  then show ?case using take_checkpoint_ok [OF _ has_room_words(1)] by blast
next
  case (step_compact retention ack e r e')
  then show ?case using compact_versioned_history_ok [OF _ has_room_words(1)] by blast
next
  case (step_maintain e r e')
  then show ?case using maintain_ok [OF _ has_room_words(1)] by blast
next
  case (step_publish intent e r e')
  then show ?case using publish_compaction_ok [OF _ _ has_room_words(1)] by blast
next
  case (step_finish e r e')
  then show ?case using finish_compaction_ok [OF _ _ has_room_words(1)] by blast
next
  case (step_interrupt phase e r e')
  then show ?case using interrupt_ok by blast
next
  case (step_engage e r e')
  then show ?case using begin_staged_group_ok by blast
qed (auto simp: inject_compaction_fault_def
    dest: write_step_ok rebuild_ok acknowledge_ok park_staged_group_ok abandon_ok discard_staged_group_ok
      materialize_ok begin_compaction_ok park_compaction_ok register_identified_table_ok engine_subscribe_ok
    intro: register_table_ok)

section \<open>Reachable engines\<close>

text \<open>The engine over a store that was empty when it was opened.\<close>

definition fresh_engine :: "versioning_policy option \<Rightarrow> 'r engine \<Rightarrow> bool" where
  "fresh_engine policy e \<longleftrightarrow>
     eng_storage e = (counter_insert storage_layout_key storage_layout store_empty)\<lparr>st_policy := policy\<rparr>
     \<and> eng_catalog e = [] \<and> eng_subscriptions e = registry_new \<and> eng_policy e = policy
     \<and> eng_staging e = None \<and> eng_fault e = None"

inductive reachable :: "'r engine_env \<Rightarrow> family_directory \<Rightarrow> versioning_policy option \<Rightarrow> 'r engine \<Rightarrow> bool"
  for env dir policy where
  reachable_fresh: "fresh_engine policy e \<Longrightarrow> reachable env dir policy e"
| reachable_step: "reachable env dir policy e \<Longrightarrow> engine_step env dir e e' \<Longrightarrow> reachable env dir policy e'"

lemma fresh_engine_ok:
  fixes e :: "'r engine"
  assumes fresh: "fresh_engine policy e"
  shows "engine_ok env e"
proof -
  have "counter_get (eng_storage e) k = counter_get (counter_insert storage_layout_key storage_layout (store_empty :: 'r store)) k" for k
    using fresh by (intro counter_get_cong) (simp add: fresh_engine_def)
  then have "history_reads (store_empty :: 'r store) (eng_storage e)"
    using fresh by (simp add: history_reads_def committed_commit_sequence_def log_counts_def)
      (simp add: fresh_engine_def)
  from history_reads_invariants [OF this] history_ok_empty [of env] show ?thesis
    using fresh by (simp add: engine_ok_def fresh_engine_def staging_slot_def)
      (simp add: history_ok_def store_empty_def)
qed

lemma reachable_ok: "reachable env dir policy e \<Longrightarrow> engine_ok env e"
  by (induction rule: reachable.induct) (auto dest: fresh_engine_ok engine_step_ok)

end
