(* ===== verification/Log_Content.thy ===== *)
theory Log_Content
  imports System_Steps
begin

text \<open>
  The abstract content of a versioned store: the map from view keys to payload bytes its checkpoint and
  log stand for.  Every commit applies its operations to it, in order; checkpoints, compaction and every
  other maintenance leave it alone.
\<close>

section \<open>The abstraction\<close>

definition logged_rows :: "'r engine_env \<Rightarrow> 'r store \<Rightarrow> view_key \<Rightarrow> bytes option" where
  "logged_rows env s =
     (case latest_checkpoint env s of
        Inl err \<Rightarrow> (\<lambda>key. None)
      | Inr c \<Rightarrow> after_writes (all_operations (log_suffix s c)) (last_row (fst (resume_point c))))"

lemma logged_rows_folded:
  assumes "latest_checkpoint env s = Inr c"
    and "canonical_fold env (fst (resume_point c)) (log_suffix s c) (resume_head c) = Inr view"
  shows "tbl_get (cv_rows view) = logged_rows env s"
  using canonical_fold_rows [OF assms(2)] assms(1) by (simp add: logged_rows_def)

text \<open>The log suffix by the entries' own sequences.\<close>

lemma log_suffix_entries:
  assumes "logs_ok s"
  shows "log_suffix s c =
    filter (\<lambda>v. commit_sequence_next (resume_after c) \<le> ve_commit_sequence v) (versioned_entries s)"
proof -
  have "\<forall>r \<in> set (st_versioned_log s). ve_commit_sequence (snd r) = fst r"
    using assms by (simp add: logs_ok_def log_indexed_def)
  then have "filter (\<lambda>r. commit_sequence_next (resume_after c) \<le> fst r) (st_versioned_log s) =
      filter (\<lambda>r. commit_sequence_next (resume_after c) \<le> ve_commit_sequence (snd r)) (st_versioned_log s)"
    by (intro filter_cong) auto
  then show ?thesis
    by (simp add: log_suffix_def versioned_entries_from_def versioned_entries_def tbl_from_def tbl_iter_def
        filter_map comp_def)
qed

lemma log_suffix_appended:
  assumes logs: "logs_ok s" "logs_ok t" and c: "resume_after c \<le> committed_commit_sequence s"
    and entries: "versioned_entries t = versioned_entries s @ es"
    and above: "\<forall>v \<in> set es. committed_commit_sequence s < ve_commit_sequence v"
  shows "log_suffix t c = log_suffix s c @ es"
proof -
  have "commit_sequence_next (resume_after c) \<le> ve_commit_sequence v" if "v \<in> set es" for v
  proof -
    have "resume_after c < ve_commit_sequence v" using above that c by (auto intro: le_less_trans)
    then show ?thesis by (simp add: commit_sequence_next_def inc_le)
  qed
  then show ?thesis
    by (simp add: log_suffix_entries [OF logs(1)] log_suffix_entries [OF logs(2)] entries filter_id_conv)
qed

lemma recoverable_appended:
  assumes "logs_ok s" "logs_ok t" and "recoverable env s"
    and "latest_checkpoint env t = latest_checkpoint env s"
    and "versioned_entries t = versioned_entries s @ es"
    and "\<forall>v \<in> set es. committed_commit_sequence s < ve_commit_sequence v"
  obtains c where "latest_checkpoint env s = Inr c" "latest_checkpoint env t = Inr c"
    "log_suffix t c = log_suffix s c @ es"
  using assms log_suffix_appended [OF assms(1,2) _ assms(5,6)] by (auto simp: recoverable_def)

lemma logged_rows_append:
  assumes logs: "logs_ok s" "logs_ok t" and rec: "recoverable env s"
    and latest: "latest_checkpoint env t = latest_checkpoint env s"
    and entries: "versioned_entries t = versioned_entries s @ es"
    and above: "\<forall>v \<in> set es. committed_commit_sequence s < ve_commit_sequence v"
  shows "logged_rows env t = after_writes (all_operations es) (logged_rows env s)"
  by (rule recoverable_appended [OF assms])
    (simp add: logged_rows_def all_operations_append after_writes_append)

section \<open>Commits\<close>

lemma lands_one_content:
  assumes lands: "lands_one env e e1" and ok: "engine_ok env e" and policy: "eng_policy e \<noteq> None"
    and room: "committed_commit_sequence (eng_storage e) \<noteq> - 1"
  shows "\<exists>v. versioned_entries (eng_storage e1) = versioned_entries (eng_storage e) @ [v]
    \<and> logged_rows env (eng_storage e1) = after_writes (ne_list (ve_operations v)) (logged_rows env (eng_storage e))"
proof -
  from lands policy obtain v where v: "versioned_entries (eng_storage e1) = versioned_entries (eng_storage e) @ [v]"
    "ve_commit_sequence v = next_commit_sequence e"
    "latest_checkpoint env (eng_storage e1) = latest_checkpoint env (eng_storage e)"
    by (auto simp: lands_one_def appends_commit_def split: option.splits)
  have "logs_ok (eng_storage e)" "logs_ok (eng_storage e1)" "recoverable env (eng_storage e)"
    using ok lands policy by (auto simp: lands_one_def engine_ok_def history_ok_def)
  from logged_rows_append [OF this v(3,1)] v(1) next_sequence_above [OF room] v(2) show ?thesis
    by (simp add: all_operations_def)
qed

lemma sequences_above:
  "sequences_from sq snap es \<Longrightarrow> unat sq + length es < 2 ^ 64 \<Longrightarrow> \<forall>v \<in> set es. sq < ve_commit_sequence v"
proof (induction es arbitrary: sq snap)
  case (Cons v es)
  have "sq < ve_commit_sequence v" "unat (sq + 1) + length es < 2 ^ 64"
    using sequences_room [OF Cons.prems] Cons.prems(1) by auto
  moreover from this Cons.prems(1) have "\<forall>w \<in> set es. sq + 1 < ve_commit_sequence w"
    by (intro Cons.IH) auto
  ultimately show ?case using Cons.prems(1) by auto
qed simp

lemma group_landed_entries: "group_landed mirror g s t \<Longrightarrow> versioned_entries t = versioned_entries s @ sg_entries g"
  by (simp add: group_landed_def versioned_entries_def tbl_iter_def log_rows_def comp_def)

lemma group_landed_content:
  assumes landed: "group_landed mirror g s t" and logs: "logs_ok s" "logs_ok t"
    and rec: "recoverable env s" and latest: "latest_checkpoint env t = latest_checkpoint env s"
    and seqs: "sequences_from (committed_commit_sequence s) (committed_snapshot s) (sg_entries g)"
    and room: "unat (committed_commit_sequence s) + length (sg_entries g) < 2 ^ 64"
  shows "logged_rows env t = after_writes (all_operations (sg_entries g)) (logged_rows env s)"
  by (rule logged_rows_append [OF logs rec latest group_landed_entries [OF landed] sequences_above [OF seqs room]])

section \<open>Maintenance\<close>

lemma publish_content:
  assumes ok: "history_ok env (eng_storage e)" and prev: "latest_checkpoint env (eng_storage e) = Inr previous"
    and plan: "checkpoint_plan env e policy previous = Inr (m, segs, n)"
    and addr: "addressable env segs" and room: "committed_commit_sequence (eng_storage e) \<noteq> - 1"
  shows "logged_rows env (publish_checkpoint env m segs (eng_storage e)) = logged_rows env (eng_storage e)"
proof -
  let ?c = "\<lparr>ck_metadata = m, ck_segments = segs\<rparr>"
  note keeps = publish_keeps_history [OF ok prev plan addr room]
  obtain view mr where view: "canonical_fold env (fst (resume_point previous))
      (log_suffix (eng_storage e) previous) (resume_head previous) = Inr view"
    and mr: "into_rows view (family_inventory (eng_catalog e)) = Inr mr" "segs = chunk (mr_rows mr)"
    using checkpoint_plan_Inr(7) [OF plan] by blast
  have "logged_rows env (publish_checkpoint env m segs (eng_storage e)) = last_row (mr_rows mr)"
    by (simp add: logged_rows_def keeps all_operations_def resume_point_def checkpoint_rows_def)
      (simp add: mr(2))
  also have "\<dots> = logged_rows env (eng_storage e)"
    using into_rows_refold(1) [OF canonical_fold_ok [OF view] mr(1)] logged_rows_folded [OF prev view] by simp
  finally show ?thesis .
qed

lemma prune_content:
  assumes ok: "history_ok env s" and latest: "latest_checkpoint env s = Inr (Some c)"
    and room: "committed_commit_sequence s \<noteq> - 1"
  shows "logged_rows env (prune_history env (ck_metadata c) s) = logged_rows env s"
  using prune_keeps_history(2,3) [OF assms] latest
  by (simp add: logged_rows_def resume_point_def checkpoint_rows_def)

text \<open>What publishing a checkpoint of the plan and pruning to the latest one do to an engine, every operation that
  shortens the history does.\<close>

locale history_effect =
  fixes env :: "'r engine_env" and R :: "'r engine \<Rightarrow> 'r engine \<Rightarrow> bool"
  assumes refl: "R e e" and trans: "R e e1 \<Longrightarrow> R e1 e2 \<Longrightarrow> R e e2"
    and published: "engine_ok env e \<Longrightarrow> eng_policy e = Some policy \<Longrightarrow>
      latest_checkpoint env (eng_storage e) = Inr previous \<Longrightarrow>
      checkpoint_plan env e policy previous = Inr (m, segs, n) \<Longrightarrow> addressable env segs \<Longrightarrow>
      committed_commit_sequence (eng_storage e) \<noteq> - 1 \<Longrightarrow>
      R e (e\<lparr>eng_storage := publish_checkpoint env m segs (eng_storage e)\<rparr>)"
    and pruned: "engine_ok env e \<Longrightarrow> eng_policy e \<noteq> None \<Longrightarrow>
      latest_checkpoint env (eng_storage e) = Inr (Some c) \<Longrightarrow> committed_commit_sequence (eng_storage e) \<noteq> - 1 \<Longrightarrow>
      R e (e\<lparr>eng_storage := prune_history env (ck_metadata c) (eng_storage e)\<rparr>)"
begin

lemma take_checkpoint_effect:
  assumes ok: "engine_ok env e" and room: "committed_commit_sequence (eng_storage e) \<noteq> - 1"
    and addr: "segments_addressable env e" and run: "take_checkpoint env e = (r, e')"
  shows "R e e'"
proof (cases r)
  case (Inl err)
  with run take_checkpoint_Inl [of env e err e'] refl show ?thesis by simp
next
  case (Inr receipt)
  with run obtain policy previous m segs n where t: "eng_policy e = Some policy"
    "latest_checkpoint env (eng_storage e) = Inr previous"
    "checkpoint_plan env e policy previous = Inr (m, segs, n)"
    "e' = e\<lparr>eng_storage := publish_checkpoint env m segs (eng_storage e)\<rparr>"
    by (metis take_checkpoint_Inr)
  have "addressable env segs" using addr t(1-3) by (auto simp: segments_addressable_def)
  from published [OF ok t(1-3) this room] show ?thesis by (simp add: t(4))
qed

lemma covering_checkpoint_effect:
  assumes ok: "engine_ok env e" and room: "committed_commit_sequence (eng_storage e) \<noteq> - 1"
    and addr: "segments_addressable env e" and run: "covering_checkpoint env e = (r, e')"
  shows "R e e'"
proof -
  have "keeps (R e) (take_checkpoint env e)"
    using take_checkpoint_effect [OF ok room addr] by (cases "take_checkpoint env e") simp
  then have "keeps (R e) (covering_checkpoint env e)"
    unfolding covering_checkpoint_def Let_def
    by (auto simp: refl split: option.split intro!: keeps_bind_reads keeps_bind)
  with run show ?thesis by simp
qed

lemma compact_effect:
  assumes ok: "engine_ok env e" and room: "committed_commit_sequence (eng_storage e) \<noteq> - 1"
    and addr: "segments_addressable env e" and run: "compact_versioned_history env retention ack e = (r, e')"
  shows "R e e'"
proof -
  have covered: "R e e1" if "covering_checkpoint env e = (r1, e1)" for r1 e1
    by (rule covering_checkpoint_effect [OF ok room addr that])
  have prune: "keeps (R e) (engine_put env (prune_history env (ck_metadata c)) e1)"
    if "covering_checkpoint env e = (Inr c, e1)" "eng_policy e \<noteq> None" for c e1
  proof -
    note one = covering_checkpoint_ok [OF ok room addr that(1)] covered [OF that(1)]
    have "eng_policy e1 \<noteq> None" "committed_commit_sequence (eng_storage e1) \<noteq> - 1"
      using one(1) that(2) room by (auto simp: history_only_def)
    then have "R e1 (e1\<lparr>eng_storage := prune_history env (ck_metadata c) (eng_storage e1)\<rparr>)"
      using one(1) by (intro pruned) auto
    with one(2) show ?thesis by (intro keeps_put) (auto intro: trans)
  qed
  have versioned: "eng_policy e \<noteq> None" if "validate_history_acknowledgement e ack = Inr u" for u
    using that by (auto simp: validate_history_acknowledgement_def split: option.splits)
  have "keeps (R e) (compact_versioned_history env retention ack e)"
  proof (cases "validate_history_acknowledgement e ack")
    case (Inl err)
    then show ?thesis by (simp add: compact_versioned_history_def refl)
  next
    case (Inr u)
    show ?thesis
    proof (cases "covering_checkpoint env e")
      case (Pair r1 e1)
      show ?thesis
      proof (cases r1)
        case (Inl err)
        with Pair Inr covered [OF Pair] show ?thesis
          by (auto simp: compact_versioned_history_def Let_def refl intro!: keeps_bind_reads)
      next
        case (Inr c)
        with Pair \<open>validate_history_acknowledgement e ack = Inr u\<close> prune [of c e1] covered [OF Pair] versioned
        show ?thesis
          by (auto simp: compact_versioned_history_def Let_def case_prod_beta refl intro!: keeps_bind_reads keeps_bind)
      qed
    qed
  qed
  with run show ?thesis by simp
qed

lemma configured_effect:
  assumes "engine_ok env e" and "committed_commit_sequence (eng_storage e) \<noteq> - 1"
    and "segments_addressable env e" and "compact_configured_versioned_history env e = (r, e')"
  shows "R e e'"
  using compact_configured_cases [OF assms(4)] compact_effect [OF assms(1-3)] refl by blast

lemma maintain_effect:
  assumes "engine_ok env e" and "committed_commit_sequence (eng_storage e) \<noteq> - 1"
    and "segments_addressable env e" and run: "maintain_versioned_history env e = (r, e')"
  shows "R e e'"
proof -
  have "keeps (R e) (compact_configured_versioned_history env e)"
    using configured_effect [OF assms(1-3)] by (cases "compact_configured_versioned_history env e") simp
  then have "keeps (R e) (maintain_versioned_history env e)"
    unfolding maintain_versioned_history_def by (auto simp: refl intro!: keeps_bind)
  with run show ?thesis by simp
qed

end

interpretation content_effect:
  history_effect env "\<lambda>e e'. logged_rows env (eng_storage e') = logged_rows env (eng_storage e)" for env
proof unfold_locales
  fix e :: "'a engine" and policy previous m segs n
  assume "engine_ok env e" "eng_policy e = Some policy" "latest_checkpoint env (eng_storage e) = Inr previous"
    "checkpoint_plan env e policy previous = Inr (m, segs, n)" "addressable env segs"
    "committed_commit_sequence (eng_storage e) \<noteq> - 1"
  then show "logged_rows env (eng_storage (e\<lparr>eng_storage := publish_checkpoint env m segs (eng_storage e)\<rparr>)) =
      logged_rows env (eng_storage e)"
    by (auto simp: engine_ok_def intro: publish_content)
qed (auto simp: engine_ok_def intro: prune_content)

lemmas take_checkpoint_content = content_effect.take_checkpoint_effect
  and covering_checkpoint_content = content_effect.covering_checkpoint_effect
  and compact_content = content_effect.compact_effect
  and maintain_content = content_effect.maintain_effect

end
