(* ===== verification/Table_Content.thy ===== *)
theory Table_Content
  imports Log_Content
begin

text \<open>
  The typed record tables and the abstract content of the log move in lockstep: every row a family's
  table holds is the decoded payload the content has at that family and key.  The relation is the coupling
  invariant of the engine's two representations of its data; each direct write preserves it.
\<close>

section \<open>The coupling\<close>

text \<open>What the engine relies on of the record serializer: decoding returns what was encoded.\<close>

definition codec :: "'r engine_env \<Rightarrow> bool" where
  "codec env \<longleftrightarrow> (\<forall>table r bs. env_to_bytes env r = Inr bs \<longrightarrow> env_from_bytes env table bs = Inr r)"

definition decoded :: "'r engine_env \<Rightarrow> string \<Rightarrow> bytes option \<Rightarrow> 'r option" where
  "decoded env table x =
     (case x of None \<Rightarrow> None
      | Some bs \<Rightarrow> (case env_from_bytes env table bs of Inl err \<Rightarrow> None | Inr r \<Rightarrow> Some r))"

text \<open>Every family has its own table and its own view keys.\<close>

definition families_apart :: "family_identity list \<Rightarrow> bool" where
  "families_apart fams \<longleftrightarrow> distinct (map family_table_name fams) \<and> distinct (map identity_key_from_identity fams)"

definition typed_row :: "'r store \<Rightarrow> string \<Rightarrow> record_key \<Rightarrow> 'r option" where
  "typed_row s table key = (case key of Domain k \<Rightarrow> tbl_get (st_rows s table) k
     | Identifier i \<Rightarrow> tbl_get (st_identified_rows s table) i)"

definition rows_follow ::
  "'r engine_env \<Rightarrow> family_identity list \<Rightarrow> 'r store \<Rightarrow> (view_key \<Rightarrow> bytes option) \<Rightarrow> bool" where
  "rows_follow env fams s L \<longleftrightarrow>
     (\<forall>f \<in> set fams. \<forall>key. typed_row s (family_table_name f) key =
        decoded env (family_table_name f) (L (view_key_new f key)))"

definition engine_follows :: "'r engine_env \<Rightarrow> 'r engine \<Rightarrow> bool" where
  "engine_follows env e \<longleftrightarrow>
     rows_follow env (family_inventory (eng_catalog e)) (eng_storage e) (logged_rows env (eng_storage e))"

lemma rows_follow_cong:
  "st_rows t = st_rows s \<Longrightarrow> st_identified_rows t = st_identified_rows s \<Longrightarrow>
   rows_follow env fams t L = rows_follow env fams s L"
  by (simp add: rows_follow_def typed_row_def split: record_key.split)

lemma families_apart_table:
  "families_apart fams \<Longrightarrow> f \<in> set fams \<Longrightarrow> g \<in> set fams \<Longrightarrow> family_table_name f = family_table_name g \<Longrightarrow> f = g"
  by (auto simp: families_apart_def distinct_map dest: inj_onD)

lemma families_apart_key:
  "families_apart fams \<Longrightarrow> f \<in> set fams \<Longrightarrow> g \<in> set fams \<Longrightarrow> view_key_new f k = view_key_new g k' \<Longrightarrow>
   f = g \<and> k = k'"
  using inj_onD [of identity_key_from_identity "set fams" f g]
  by (auto simp: families_apart_def distinct_map view_key_new_def identity_key_from_identity_def)

section \<open>One operation\<close>

text \<open>A row change that does in one table what the operation does to the content.\<close>

definition put_row :: "string \<Rightarrow> record_key \<Rightarrow> 'r option \<Rightarrow> 'r store \<Rightarrow> 'r store" where
  "put_row table key r s =
     (case (key, r) of
        (Domain k, Some x) \<Rightarrow> row_insert table k x s
      | (Domain k, None) \<Rightarrow> row_remove table k s
      | (Identifier i, Some x) \<Rightarrow> identified_insert table i x s
      | (Identifier i, None) \<Rightarrow> identified_remove table i s)"

lemma typed_row_put_row:
  "typed_row (put_row table key r s) t k = (if t = table \<and> k = key then r else typed_row s t k)"
  by (cases key; cases k; cases r)
    (auto simp: put_row_def typed_row_def row_insert_def row_remove_def identified_insert_def
      identified_remove_def table_simps)

text \<open>An operation as the engine logs it: a retraction carries a tombstone, the others a record of their
  family that decodes.\<close>

definition op_exact :: "versioned_log_operation \<Rightarrow> bool" where
  "op_exact oper \<longleftrightarrow> (case vop_payload oper of
     Tombstone \<Rightarrow> vop_operation oper = Retract | PayloadRecord bs \<Rightarrow> vop_operation oper \<noteq> Retract)"

definition op_named :: "'r engine_env \<Rightarrow> family_identity list \<Rightarrow> versioned_log_operation \<Rightarrow> bool" where
  "op_named env fams oper \<longleftrightarrow> vop_family oper \<in> set fams \<and> op_exact oper
     \<and> (\<forall>bs. operation_effect oper = Some bs \<longrightarrow>
          (\<exists>r. env_from_bytes env (family_table_name (vop_family oper)) bs = Inr r))"

text \<open>The row an operation leaves at its key.\<close>

definition effect_row :: "'r engine_env \<Rightarrow> versioned_log_operation \<Rightarrow> 'r option" where
  "effect_row env oper = decoded env (family_table_name (vop_family oper)) (operation_effect oper)"

lemma after_write:
  "vop_key oper = Some key \<Longrightarrow> after_writes [oper] L k =
     (if k = view_key_new (vop_family oper) key then operation_effect oper else L k)"
  by (auto simp: after_writes_def last_write_single operation_view_key_def)

definition tracks ::
  "('r store \<Rightarrow> (view_key \<Rightarrow> bytes option) \<Rightarrow> bool) \<Rightarrow> ('r store \<Rightarrow> 'r store)
   \<Rightarrow> versioned_log_operation \<Rightarrow> bool" where
  "tracks Q g oper \<longleftrightarrow> (\<forall>s L. Q s L \<longrightarrow> Q (g s) (after_writes [oper] L))"

text \<open>A relation of the record tables to the content that survives one operation done to both survives
  every way the engine has of doing operations to both.\<close>

locale row_coupling =
  fixes env :: "'r engine_env" and fams :: "family_identity list"
    and Q :: "'r store \<Rightarrow> (view_key \<Rightarrow> bytes option) \<Rightarrow> bool"
  assumes put: "op_named env fams oper \<Longrightarrow> vop_key oper = Some key \<Longrightarrow>
      tracks Q (put_row (family_table_name (vop_family oper)) key (effect_row env oper)) oper"
    and planes: "st_rows t = st_rows s \<Longrightarrow> st_identified_rows t = st_identified_rows s \<Longrightarrow> Q t L = Q s L"
begin

lemma tracks_fold:
  "list_all2 (\<lambda>w oper. tracks Q (g w) oper) ws opers \<Longrightarrow> Q s L \<Longrightarrow> Q (fold g ws s) (after_writes opers L)"
proof (induction arbitrary: s L rule: list_all2_induct)
  case (Cons w ws oper opers)
  then show ?case
    using after_writes_append [of "[oper]" opers L] by (simp add: tracks_def)
qed simp

lemma tracks_single:
  "list_all (tracks Q g) opers \<Longrightarrow> length opers = 1 \<Longrightarrow> Q s L \<Longrightarrow> Q (g s) (after_writes opers L)"
  by (cases opers) (auto simp: tracks_def)

end

interpretation follow: row_coupling env fams "\<lambda>s L. families_apart fams \<and> rows_follow env fams s L"
  for env :: "'r engine_env" and fams
proof
  fix oper key
  assume named: "op_named env fams oper" and key: "vop_key oper = Some key"
  let ?f = "vop_family oper"
  have f: "?f \<in> set fams" using named by (simp add: op_named_def)
  have "rows_follow env fams (put_row (family_table_name ?f) key (effect_row env oper) s) (after_writes [oper] L)"
    if apart: "families_apart fams" and follow: "rows_follow env fams s L" for s :: "'r store" and L
  proof -
    have "(view_key_new g k = view_key_new ?f key) = (family_table_name g = family_table_name ?f \<and> k = key)"
      if "g \<in> set fams" for g k
      using families_apart_key [OF apart that f, of k key] families_apart_table [OF apart that f] by blast
    with follow families_apart_table [OF apart _ f] show ?thesis
      by (auto simp: rows_follow_def typed_row_put_row after_write [OF key] effect_row_def)
  qed
  then show "tracks (\<lambda>s L. families_apart fams \<and> rows_follow env fams s L)
      (put_row (family_table_name ?f) key (effect_row env oper)) oper" by (simp add: tracks_def)
next
  fix t s :: "'r store" and L
  assume "st_rows t = st_rows s" "st_identified_rows t = st_identified_rows s"
  from rows_follow_cong [OF this] show "(families_apart fams \<and> rows_follow env fams t L) =
      (families_apart fams \<and> rows_follow env fams s L)" by (simp only:)
qed

section \<open>The rows of a direct write\<close>

definition catalog_apart :: "'r engine \<Rightarrow> bool" where
  "catalog_apart e \<longleftrightarrow> families_apart (family_inventory (eng_catalog e))"

lemma registered_family_member:
  "registered_family e table = Inr f \<Longrightarrow> f \<in> set (family_inventory (eng_catalog e)) \<and> family_table_name f = table"
  by (auto simp: registered_family_def ok_or_eq_Inr catalog_family_identity_def family_inventory_def
      registration_table_name_def dest!: registration_for_table_name)

lemma logged_op_named:
  assumes logged: "logged_op env e table oper key r vop" and codec: "codec env" and policy: "eng_policy e \<noteq> None"
    and kind: "if r = None then oper = Retract else oper \<in> {Assert, Mutate}"
  shows "op_named env (family_inventory (eng_catalog e)) vop" and "effect_row env vop = r"
    and "family_table_name (vop_family vop) = table" and "vop_key vop = Some key"
proof -
  have "registered_family e table = Inr (vop_family vop)" using logged policy by (simp add: logged_op_def)
  note fam = registered_family_member [OF this]
  then show "family_table_name (vop_family vop) = table" by blast
  show "vop_key vop = Some key" using logged by (simp add: logged_op_def)
  show "op_named env (family_inventory (eng_catalog e)) vop"
  proof (cases r)
    case None
    with logged fam kind show ?thesis by (simp add: op_named_def op_exact_def logged_op_def operation_effect_def)
  next
    case (Some x)
    with logged policy obtain bs where "vop_payload vop = PayloadRecord bs" "env_to_bytes env x = Inr bs"
      by (auto simp: logged_op_def)
    with Some logged fam kind codec show ?thesis
      by (auto simp: op_named_def op_exact_def logged_op_def operation_effect_def codec_def)
  qed
  show "effect_row env vop = r"
    using logged fam codec policy kind
    by (auto simp: effect_row_def decoded_def logged_op_def operation_effect_def codec_def
        split: option.splits if_splits)
qed

fun domain_key :: "record_key \<Rightarrow> bool" where
  "domain_key (Domain k) = True"
| "domain_key (Identifier i) = False"

text \<open>The row changes of each write, and the operations it must have logged.\<close>

fun write_rows :: "'r engine_env \<Rightarrow> 'r direct_write \<Rightarrow> 'r store \<Rightarrow> 'r store" where
  "write_rows env (DirectAssert a) s = row_insert (ka_table a) (to_owned_string (ka_key a)) (ka_record a) s"
| "write_rows env (DirectMutate m) s = row_insert (km_table m) (to_owned_string (km_key m)) (km_record m) s"
| "write_rows env (DirectRetract rt) s = row_remove (rt_table rt) (to_owned_string (rt_key rt)) s"
| "write_rows env (DirectAssertIdentified a) s =
     identified_insert (ia_table a) (next_record_identifier s (ia_table a)) (ia_record a) s"
| "write_rows env (DirectMutateIdentified m) s = identified_insert (im_table m) (im_identifier m) (im_record m) s"
| "write_rows env (DirectRetractIdentified rt) s = identified_remove (irt_table rt) (irt_identifier rt) s"
| "write_rows env (DirectCommit q) s = fold (apply_write env (crq_table q)) (crq_operations q) s"
| "write_rows env (DirectAtomic ws) s = fold atomic_materialize ws s"

fun write_logs :: "'r engine_env \<Rightarrow> 'r engine \<Rightarrow> 'r direct_write \<Rightarrow> versioned_log_operation list \<Rightarrow> bool" where
  "write_logs env e (DirectAssert a) opers \<longleftrightarrow>
     list_all (logged_op env e (ka_table a) Assert (ka_key a) (Some (ka_record a))) opers \<and> length opers = 1"
| "write_logs env e (DirectMutate m) opers \<longleftrightarrow>
     list_all (logged_op env e (km_table m) Mutate (km_key m) (Some (km_record m))) opers \<and> length opers = 1"
| "write_logs env e (DirectRetract rt) opers \<longleftrightarrow>
     list_all (logged_op env e (rt_table rt) Retract (rt_key rt) None) opers \<and> length opers = 1"
| "write_logs env e (DirectAssertIdentified a) opers \<longleftrightarrow>
     list_all (logged_op env e (ia_table a) Assert
       (Identifier (next_record_identifier (eng_storage e) (ia_table a))) (Some (ia_record a))) opers
     \<and> length opers = 1"
| "write_logs env e (DirectMutateIdentified m) opers \<longleftrightarrow>
     list_all (logged_op env e (im_table m) Mutate (Identifier (im_identifier m)) (Some (im_record m))) opers
     \<and> length opers = 1"
| "write_logs env e (DirectRetractIdentified rt) opers \<longleftrightarrow>
     list_all (logged_op env e (irt_table rt) Retract (Identifier (irt_identifier rt)) None) opers
     \<and> length opers = 1"
| "write_logs env e (DirectCommit q) opers \<longleftrightarrow>
     (\<exists>fam. registered_family e (crq_table q) = Inr fam
        \<and> list_all2 (write_logged env (crq_table q) fam) (crq_operations q) opers)"
| "write_logs env e (DirectAtomic ws) opers \<longleftrightarrow> list_all2 (aw_logged env e) ws opers"

text \<open>The keys of a domain-keyed write are domain keys.\<close>

fun domain_keyed :: "'r engine_env \<Rightarrow> 'r direct_write \<Rightarrow> bool" where
  "domain_keyed env (DirectAssert a) = domain_key (ka_key a)"
| "domain_keyed env (DirectMutate m) = domain_key (km_key m)"
| "domain_keyed env (DirectRetract rt) = domain_key (rt_key rt)"
| "domain_keyed env (DirectCommit q) = list_all (\<lambda>w. domain_key (write_key env w)) (crq_operations q)"
| "domain_keyed env (DirectAtomic ws) = list_all (\<lambda>w. domain_key (aw_key w)) ws"
| "domain_keyed env w = True"

lemma domain_key_put:
  "domain_key key \<Longrightarrow> row_insert t (to_owned_string key) r = put_row t key (Some r)"
  "domain_key key \<Longrightarrow> row_remove t (to_owned_string key) = put_row t key None"
  by (cases key; simp add: put_row_def fun_eq_iff)+

lemma identified_put:
  "identified_insert t i r = put_row t (Identifier i) (Some r)"
  "identified_remove t i = put_row t (Identifier i) None"
  by (simp_all add: put_row_def fun_eq_iff)

lemma apply_write_put:
  "domain_key (write_key env w) \<Longrightarrow>
   apply_write env table w = put_row table (write_key env w) (write_record w)"
  by (cases w) (auto simp: fun_eq_iff domain_key_put)

lemma atomic_materialize_put:
  "domain_key (aw_key w) \<Longrightarrow> atomic_materialize w =
   put_row (aw_table w) (aw_key w) (if aw_kind w = AtomicRetract then None else Some (the (aw_record w)))"
  by (auto simp: atomic_materialize_def fun_eq_iff domain_key_put)

lemma write_logged_op:
  "write_logged env table fam w vop \<Longrightarrow> registered_family e table = Inr fam \<Longrightarrow>
   logged_op env e table (write_operation_class w) (write_key env w) (write_record w) vop"
  by (auto simp: write_logged_def logged_op_def split: option.splits)

lemma aw_logged_op:
  "aw_logged env e w vop \<Longrightarrow> logged_op env e (aw_table w) (atomic_operation (aw_kind w)) (aw_key w)
     (if aw_kind w = AtomicRetract then None else Some (the (aw_record w))) vop"
  by (auto simp: aw_logged_def logged_op_def split: if_splits)

context row_coupling
begin

lemma logged_op_tracks:
  assumes "logged_op env e table oper key r vop" and "codec env" and "eng_policy e \<noteq> None"
    and "if r = None then oper = Retract else oper \<in> {Assert, Mutate}"
    and "family_inventory (eng_catalog e) = fams"
  shows "tracks Q (put_row table key r) vop"
  using put [of vop key] logged_op_named [OF assms(1-4)] assms(5) by simp

lemma logged_single:
  assumes "list_all (logged_op env e table oper key r) opers \<and> length opers = 1"
    and "codec env" and "eng_policy e \<noteq> None"
    and "if r = None then oper = Retract else oper \<in> {Assert, Mutate}"
    and "family_inventory (eng_catalog e) = fams" and "Q s L"
  shows "Q (put_row table key r s) (after_writes opers L)"
proof (rule tracks_single [of "put_row table key r"])
  show "list_all (tracks Q (put_row table key r)) opers"
    using assms(1) logged_op_tracks [OF _ assms(2-5)] by (auto simp: list_all_iff)
qed (use assms in auto)

text \<open>Every write changes the rows the way its logged operations change the content.\<close>

lemma write_coupled:
  assumes logs: "write_logs env e w opers" and keys: "domain_keyed env w"
    and codec: "codec env" and policy: "eng_policy e \<noteq> None"
    and fams: "family_inventory (eng_catalog e) = fams" and Q: "Q s L" and s: "s = eng_storage e"
  shows "Q (write_rows env w s) (after_writes opers L)"
proof -
  note single = logged_single [OF _ codec policy _ fams Q]
  note op_tracks = logged_op_tracks [OF _ codec policy _ fams]
  have commit_op: "tracks Q (apply_write env table x) vop"
    if "write_logged env table fam x vop" "registered_family e table = Inr fam" "domain_key (write_key env x)"
    for table fam x vop
    using op_tracks [OF write_logged_op [OF that(1,2)]] that(3)
    by (cases x) (simp_all add: apply_write_put)
  have atomic_op: "tracks Q (atomic_materialize x) vop"
    if "aw_logged env e x vop" "domain_key (aw_key x)" for x vop
    using op_tracks [OF aw_logged_op [OF that(1)]] that(2)
    by (cases "aw_kind x") (simp_all add: atomic_materialize_put)
  show ?thesis
  proof (cases w)
    case (DirectCommit q)
    then obtain fam where fam: "registered_family e (crq_table q) = Inr fam"
      "list_all2 (write_logged env (crq_table q) fam) (crq_operations q) opers"
      using logs by auto
    have "list_all2 (\<lambda>x. tracks Q (apply_write env (crq_table q) x)) (crq_operations q) opers"
      using fam keys commit_op
      by (auto simp: DirectCommit list_all2_conv_all_nth list_all_length)
    from tracks_fold [OF this Q] show ?thesis by (simp add: DirectCommit)
  next
    case (DirectAtomic ws)
    have "list_all2 (\<lambda>x. tracks Q (atomic_materialize x)) ws opers"
      using logs keys atomic_op
      by (auto simp: DirectAtomic list_all2_conv_all_nth list_all_length)
    from tracks_fold [OF this Q] show ?thesis by (simp add: DirectAtomic)
  qed (use logs keys single s in \<open>auto simp: domain_key_put identified_put\<close>)
qed

end

end
