(* ===== verification/Content_Refinement.thy ===== *)
theory Content_Refinement
  imports Table_Content
begin

text \<open>
  Every direct write, with the maintenance that follows it, as one step on the abstract content: what it
  logs, what it does to the typed tables, and that the two stay coupled.
\<close>

section \<open>What a write lands\<close>

text \<open>Asserting into an engine-identified table moves its counter past the identifier; no other write moves one.\<close>

fun write_counters :: "'r direct_write \<Rightarrow> 'r store \<Rightarrow> (string, u64) tbl" where
  "write_counters (DirectAssertIdentified a) s =
     tbl_insert (identified_counter_key (ia_table a)) (record_identifier_next (next_record_identifier s (ia_table a)))
       (st_identified_counters s)"
| "write_counters _ s = st_identified_counters s"

lemma write_rows_counters [simp]: "st_identified_counters (write_rows env w s) = st_identified_counters s"
  by (cases w) simp_all

definition lands_effect :: "'r engine_env \<Rightarrow> 'r engine \<Rightarrow> 'r direct_write \<Rightarrow> 'r engine \<Rightarrow> bool" where
  "lands_effect env e w e1 \<longleftrightarrow> lands_one env e e1
     \<and> st_rows (eng_storage e1) = st_rows (write_rows env w (eng_storage e))
     \<and> st_identified_rows (eng_storage e1) = st_identified_rows (write_rows env w (eng_storage e))
     \<and> st_identified_counters (eng_storage e1) = write_counters w (eng_storage e)
     \<and> (eng_policy e \<noteq> None \<longrightarrow> (\<exists>v. versioned_entries (eng_storage e1) = versioned_entries (eng_storage e) @ [v]
          \<and> write_logs env e w (ne_list (ve_operations v))))"

lemma counter_rows [simp]:
  "st_rows (identified_counter_insert key v s) = st_rows s"
  "st_identified_rows (identified_counter_insert key v s) = st_identified_rows s"
  by (simp_all add: identified_counter_insert_def)

lemma identified_counter_insert_counters [simp]:
  "st_identified_counters (identified_counter_insert key v s) = tbl_insert key v (st_identified_counters s)"
  by (simp add: identified_counter_insert_def)

lemma commits_effect:
  assumes body: "commit_body body post" and commit: "commits env body post opers vopers e e1"
    and lands: "lands_one env e e1" and logs: "logs_ok (eng_storage e)"
    and room: "committed_commit_sequence (eng_storage e) \<noteq> - 1"
    and rows: "body (eng_storage e) = write_rows env w (eng_storage e)"
    and post: "\<And>s. st_rows (post s) = st_rows s" "\<And>s. st_identified_rows (post s) = st_identified_rows s"
      "\<And>s. st_identified_counters s = st_identified_counters (eng_storage e) \<Longrightarrow>
        st_identified_counters (post s) = write_counters w (eng_storage e)"
    and P: "eng_policy e \<noteq> None \<Longrightarrow> write_logs env e w (ne_list vopers)"
  shows "lands_effect env e w e1"
proof -
  have "appends_commit env (ne_list opers) (\<lambda>l. l = ne_list vopers) e e1"
    by (rule commits_appends [OF body commit logs room]) simp
  then have "eng_policy e \<noteq> None \<Longrightarrow> \<exists>v. versioned_entries (eng_storage e1) =
      versioned_entries (eng_storage e) @ [v] \<and> ne_list (ve_operations v) = ne_list vopers"
    by (auto simp: appends_commit_def)
  with P lands show ?thesis
    by (auto simp: lands_effect_def commits_sel(1) [OF commit] landed_def post rows)
qed

lemma lands_keyed_effect:
  fixes e :: "'r engine"
  assumes "lands_keyed env body oper kind table key payload delta e e1"
    and "commit_body body (\<lambda>s. s)" and "lands_one env e e1" and "logs_ok (eng_storage e)"
    and "committed_commit_sequence (eng_storage e) \<noteq> - 1"
    and "body (eng_storage e) = write_rows env w (eng_storage e)"
    and "\<And>s :: 'r store. write_counters w s = st_identified_counters s"
    and "\<And>vop. logged_op env e table oper key payload vop \<Longrightarrow> write_logs env e w [vop]"
  shows "lands_effect env e w e1"
  using assms(1,8) unfolding lands_keyed_def
  by (elim conjE exE) (rule commits_effect [OF assms(2) _ assms(3-6)], auto simp: assms(7))

lemma lands_identified_effect:
  assumes "lands_identified env body post oper table i payload e e1"
    and "commit_body body post" and "lands_one env e e1" and "logs_ok (eng_storage e)"
    and "committed_commit_sequence (eng_storage e) \<noteq> - 1"
    and "body (eng_storage e) = write_rows env w (eng_storage e)"
    and "\<And>s. st_rows (post s) = st_rows s" "\<And>s. st_identified_rows (post s) = st_identified_rows s"
      "\<And>s. st_identified_counters s = st_identified_counters (eng_storage e) \<Longrightarrow>
        st_identified_counters (post s) = write_counters w (eng_storage e)"
    and "\<And>vop. logged_op env e table oper (Identifier i) payload vop \<Longrightarrow> write_logs env e w [vop]"
  shows "lands_effect env e w e1"
  using assms(1,10) unfolding lands_identified_def
  by (elim conjE exE) (rule commits_effect [OF assms(2) _ assms(3-9)], auto)

lemma lands_commit_effect:
  assumes "lands_commit env (crq_table q) (crq_operations q) e e1" and "lands_one env e e1"
    and "logs_ok (eng_storage e)" and "committed_commit_sequence (eng_storage e) \<noteq> - 1"
  shows "lands_effect env e (DirectCommit q) e1"
  using assms(1) unfolding lands_commit_def
  by (elim conjE exE)
    (rule commits_effect [OF commit_request_body.commit_body_axioms _ assms(2-4)], auto)

lemma lands_atomic_effect:
  assumes "lands_atomic env ws e e1" and "lands_one env e e1"
    and "logs_ok (eng_storage e)" and "committed_commit_sequence (eng_storage e) \<noteq> - 1"
  shows "lands_effect env e (DirectAtomic ws) e1"
  using assms(1) unfolding lands_atomic_def
  by (elim conjE exE)
    (rule commits_effect [OF atomic_body.commit_body_axioms _ assms(2-4)], auto)

text \<open>The outcome of a direct write, with its effect.\<close>

definition settles_effect ::
  "'r engine_env \<Rightarrow> 'r engine \<Rightarrow> 'r direct_write \<Rightarrow> ('r, unit) engine_result \<Rightarrow> bool" where
  "settles_effect env e w res \<longleftrightarrow>
     (\<exists>err. res = (Inl err, e))
     \<or> (\<exists>e1. lands_effect env e w e1 \<and> (res = (Inr (), e1) \<or> res = maintain_versioned_history env e1))"

lemma settles_effect_finish:
  "write_outcome e L (finish_write env receipt) res \<Longrightarrow> (\<And>e1. L e1 \<Longrightarrow> lands_effect env e w e1) \<Longrightarrow>
   settles_effect env e w (forget res)"
  unfolding write_outcome_def settles_effect_def
  by (elim disjE exE conjE; simp add: forget_finish; blast)

lemma settles_effect_return:
  "write_outcome e L (\<lambda>e1. (Inr receipt, e1)) res \<Longrightarrow> (\<And>e1. L e1 \<Longrightarrow> lands_effect env e w e1) \<Longrightarrow>
   settles_effect env e w (forget res)"
  unfolding write_outcome_def settles_effect_def by (elim disjE exE conjE; simp; blast)

lemma run_write_effect:
  assumes staging: "eng_staging e = None" and ok: "engine_ok env e"
    and room: "committed_commit_sequence (eng_storage e) \<noteq> - 1"
  shows "settles_effect env e w (run_write env w e)"
proof -
  have logs: "logs_ok (eng_storage e)" using ok by (simp add: engine_ok_def)
  note keyed = lands_keyed_effect [OF _ _ lands_keyed_one logs room]
    and identified = lands_identified_effect [OF _ _ lands_identified_one logs room]
  show ?thesis
  proof (cases w)
    case (DirectAssert a)
    show ?thesis
      unfolding DirectAssert run_write.simps
      by (rule settles_effect_finish [OF assert_keyed_outcome [OF staging]])
        (auto intro!: keyed insert_body.commit_body_axioms ok room)
  next
    case (DirectMutate m)
    show ?thesis
      unfolding DirectMutate run_write.simps
      by (rule settles_effect_finish [OF mutate_keyed_outcome [OF staging]])
        (auto intro!: keyed insert_body.commit_body_axioms ok room)
  next
    case (DirectRetract rt)
    show ?thesis
      unfolding DirectRetract run_write.simps
      by (rule settles_effect_finish [OF engine_retract_outcome [OF staging]])
        (auto intro!: keyed remove_body.commit_body_axioms ok room)
  next
    case (DirectAssertIdentified a)
    show ?thesis
      unfolding DirectAssertIdentified run_write.simps
      by (rule settles_effect_return [OF assert_identified_outcome [OF staging, unfolded Let_def]])
        (auto intro!: identified mint_body.commit_body_axioms ok room)
  next
    case (DirectMutateIdentified m)
    show ?thesis
      unfolding DirectMutateIdentified run_write.simps
      by (rule settles_effect_return [OF mutate_identified_outcome [OF staging]])
        (auto intro!: identified identified_insert_body.commit_body_axioms ok room)
  next
    case (DirectRetractIdentified rt)
    show ?thesis
      unfolding DirectRetractIdentified run_write.simps
      by (rule settles_effect_return [OF retract_identified_outcome [OF staging]])
        (auto intro!: identified identified_remove_body.commit_body_axioms ok room)
  next
    case (DirectCommit q)
    show ?thesis
      unfolding DirectCommit run_write.simps
      by (rule settles_effect_finish [OF engine_commit_outcome [OF staging]])
        (auto intro!: lands_commit_effect lands_commit_one ok room logs)
  next
    case (DirectAtomic ws)
    show ?thesis
      unfolding DirectAtomic run_write.simps
      by (rule settles_effect_finish [OF commit_atomic_outcome])
        (auto intro!: lands_atomic_effect lands_atomic_one ok room logs)
  qed
qed

section \<open>The maintenance leaves the rows alone\<close>

definition same_rows :: "'r engine \<Rightarrow> 'r engine \<Rightarrow> bool" where
  "same_rows e e' \<longleftrightarrow> st_rows (eng_storage e') = st_rows (eng_storage e)
     \<and> st_identified_rows (eng_storage e') = st_identified_rows (eng_storage e)
     \<and> st_catalog (eng_storage e') = st_catalog (eng_storage e)
     \<and> eng_catalog e' = eng_catalog e \<and> eng_policy e' = eng_policy e"

lemma same_rows_refl [simp]: "same_rows e e"
  by (simp add: same_rows_def)

lemma history_rows [simp]:
  "st_rows (publish_checkpoint env m segs s) = st_rows s"
  "st_identified_rows (publish_checkpoint env m segs s) = st_identified_rows s"
  "st_rows (prune_history env m s) = st_rows s"
  "st_identified_rows (prune_history env m s) = st_identified_rows s"
  "st_catalog (publish_checkpoint env m segs s) = st_catalog s" "st_catalog (prune_history env m s) = st_catalog s"
  by (simp_all add: publish_checkpoint_def counter_insert_def prune_history_def Let_def case_prod_beta
      compact_acknowledged_through_def compact_through_def)

text \<open>What publishing a checkpoint and pruning keep, every maintenance keeps.\<close>

locale history_frame =
  fixes env :: "'r engine_env" and P :: "'r engine \<Rightarrow> bool"
  assumes published: "P e \<Longrightarrow> P (e\<lparr>eng_storage := publish_checkpoint env m segs (eng_storage e)\<rparr>)"
    and pruned: "P e \<Longrightarrow> P (e\<lparr>eng_storage := prune_history env m (eng_storage e)\<rparr>)"
begin

lemma take_checkpoint_frame: "P e \<Longrightarrow> keeps P (take_checkpoint env e)"
  unfolding take_checkpoint_def
  by (auto split: option.split intro!: keeps_bind_reads keeps_bind [of P] keeps_put published)

lemma covering_checkpoint_frame: "P e \<Longrightarrow> keeps P (covering_checkpoint env e)"
  unfolding covering_checkpoint_def Let_def
  by (auto split: option.split intro!: keeps_bind_reads keeps_bind [OF take_checkpoint_frame])

lemma compact_frame: "P e \<Longrightarrow> keeps P (compact_versioned_history env retention ack e)"
  unfolding compact_versioned_history_def Let_def case_prod_beta
  by (auto intro!: keeps_bind_reads keeps_bind [of P] covering_checkpoint_frame keeps_put pruned)

lemma maintain_frame: "P e \<Longrightarrow> keeps P (maintain_versioned_history env e)"
  unfolding maintain_versioned_history_def compact_configured_versioned_history_def Let_def
  by (auto split: option.split intro!: keeps_bind_reads keeps_bind [of P] compact_frame)

end

interpretation rows_frame: history_frame env "same_rows e" for env and e :: "'r engine"
  by unfold_locales (simp_all add: same_rows_def)

lemmas take_checkpoint_rows = rows_frame.take_checkpoint_frame
  and compact_rows = rows_frame.compact_frame
  and maintain_rows = rows_frame.maintain_frame

section \<open>One write, one step on the content\<close>

text \<open>What a direct write leaves: nothing changed, or the content after its operations and the rows after
  its row changes.\<close>

definition content_step :: "'r engine_env \<Rightarrow> 'r engine \<Rightarrow> 'r direct_write \<Rightarrow> 'r engine \<Rightarrow> bool" where
  "content_step env e w e' \<longleftrightarrow>
     (\<exists>opers. write_logs env e w opers
        \<and> logged_rows env (eng_storage e') = after_writes opers (logged_rows env (eng_storage e))
        \<and> st_rows (eng_storage e') = st_rows (write_rows env w (eng_storage e))
        \<and> st_identified_rows (eng_storage e') = st_identified_rows (write_rows env w (eng_storage e)))"

lemma lands_effect_content:
  assumes "lands_effect env e w e1" and "engine_ok env e" and "eng_policy e \<noteq> None"
    and "committed_commit_sequence (eng_storage e) \<noteq> - 1"
  shows "content_step env e w e1"
proof -
  from assms(1,3) obtain v where v: "versioned_entries (eng_storage e1) = versioned_entries (eng_storage e) @ [v]"
    "write_logs env e w (ne_list (ve_operations v))" and lands: "lands_one env e e1"
    by (auto simp: lands_effect_def)
  from lands_one_content [OF lands assms(2-4)] v show ?thesis
    using assms(1) by (auto simp: content_step_def lands_effect_def)
qed

lemma maintained_content:
  assumes lands: "lands_one env e e1" and room: "has_room e" and addr: "commits_addressable env e"
    and run: "maintain_versioned_history env e1 = (r, e')"
  shows "logged_rows env (eng_storage e') = logged_rows env (eng_storage e1)"
proof (cases "over_retention e1")
  case True
  have "committed_commit_sequence (eng_storage e1) = committed_commit_sequence (eng_storage e) + 1"
    "engine_ok env e1"
    using lands by (auto simp: lands_one_def appends_commit_def)
  with True has_room_words [OF room] lands addr show ?thesis
    using maintain_content [of env e1 r e'] run by (simp add: commits_addressable_def)
next
  case False
  from maintain_within [OF this run] show ?thesis by simp
qed

lemma run_write_content:
  assumes ok: "engine_ok env e" and idle: "eng_staging e = None" and policy: "eng_policy e \<noteq> None"
    and room: "has_room e" and addr: "commits_addressable env e" and run: "run_write env w e = (r, e')"
  shows "e' = e \<and> r \<noteq> Inr () \<or> content_step env e w e' \<and> eng_catalog e' = eng_catalog e"
proof -
  note seq = has_room_words(1) [OF room]
  from run_write_effect [OF idle ok seq, of w] run
  consider (refused) err where "r = Inl err" "e' = e"
    | (landed) "lands_effect env e w e'"
    | (maintained) e1 where "lands_effect env e w e1" "maintain_versioned_history env e1 = (r, e')"
    by (auto simp: settles_effect_def)
  then show ?thesis
  proof cases
    case landed
    then show ?thesis
      using lands_effect_content [OF landed ok policy seq] by (simp add: lands_effect_def lands_one_def)
  next
    case maintained
    have "lands_one env e e1" using maintained(1) by (simp add: lands_effect_def)
    moreover have "same_rows e1 e'"
      using maintain_rows [of e1 e1 env] maintained(2) by simp
    ultimately show ?thesis
      using lands_effect_content [OF maintained(1) ok policy seq] maintained_content [OF _ room addr maintained(2)]
      by (auto simp: content_step_def same_rows_def lands_one_def)
  qed simp
qed

end
