(* ===== verification/Content_Theorems.thy ===== *)
theory Content_Theorems
  imports Content_Refinement Write_Theorems History_Theorems
begin

text \<open>
  The refinement theorems of the engine: direct writes and history maintenance against the abstract
  content, the coupling of the typed tables to it, and the invariant of every reachable engine.
\<close>

lemma sample_addressable:
  assumes "eng_policy e = Some sample_policy" and "versioned_entries (eng_storage e) = []"
  shows "commits_addressable env e"
proof -
  have "\<not> over_retention e1" if "lands_one env e e1" for e1
    using that assms
    by (auto simp: lands_one_def appends_commit_def over_retention_def sample_policy_def
        versioning_policy_new_def conservative_default_def default_maximum_live_entries_def)
  then show ?thesis by (auto simp: commits_addressable_def)
qed

lemma sample_room: "has_room sample_engine"
  by (simp add: has_room_def)

text \<open>C1 A direct write refines one step on the abstract content of the store: it is refused and nothing
  changed, or the map from view keys to payloads is updated by exactly the operations of the write, in
  order, the record tables by its row changes, and the maintenance that follows (a checkpoint and a
  compaction, when the retention is exceeded) leaves both alone.\<close>

theorem write_refines_content:
  assumes "engine_ok env e" and "eng_staging e = None" and "eng_policy e \<noteq> None"
    and "has_room e" and "commits_addressable env e" and "run_write env w e = (r, e')"
  shows "e' = e \<and> r \<noteq> Inr ()
    \<or> (\<exists>opers. write_logs env e w opers
        \<and> logged_rows env (eng_storage e') = after_writes opers (logged_rows env (eng_storage e))
        \<and> st_rows (eng_storage e') = st_rows (write_rows env w (eng_storage e))
        \<and> st_identified_rows (eng_storage e') = st_identified_rows (write_rows env w (eng_storage e)))"
  using run_write_content [OF assms] by (auto simp: content_step_def)

lemma write_refines_content_witness:
  "\<exists>r e'. run_write sample_env (DirectAssert \<lparr>ka_table = ''notes'', ka_key = Domain ''a'', ka_record = 5\<rparr>)
       sample_engine = (r, e')
     \<and> (e' = sample_engine \<and> r \<noteq> Inr ()
        \<or> (\<exists>opers. write_logs sample_env sample_engine
              (DirectAssert \<lparr>ka_table = ''notes'', ka_key = Domain ''a'', ka_record = 5\<rparr>) opers
            \<and> logged_rows sample_env (eng_storage e') =
                after_writes opers (logged_rows sample_env (eng_storage sample_engine))
            \<and> st_rows (eng_storage e') = st_rows (row_insert ''notes'' ''a'' 5 store_empty)
            \<and> st_identified_rows (eng_storage e') = (\<lambda>t. [])))"
proof -
  let ?w = "DirectAssert \<lparr>ka_table = ''notes'', ka_key = Domain ''a'', ka_record = (5::nat)\<rparr>"
  obtain r e' where run: "run_write sample_env ?w sample_engine = (r, e')" by (metis surj_pair)
  have "versioned_entries (eng_storage sample_engine) = []"
    by (simp add: versioned_entries_def tbl_iter_def)
  from write_refines_content [OF sample_engine_ok _ _ sample_room
      sample_addressable [OF _ this] run] run show ?thesis
    by (intro exI [of _ r] exI [of _ e']) (simp add: row_insert_def fun_eq_iff)
qed

text \<open>The typed tables and the log stay coupled: when every row of every registered family is the
  decoded content at its key, the same holds after any direct write with keys of its table's kind,
  whether it succeeds, is refused, or is followed by maintenance.\<close>

theorem writes_keep_coupling:
  assumes "engine_ok env e" and "eng_staging e = None" and "eng_policy e \<noteq> None"
    and "has_room e" and "commits_addressable env e" and "codec env" and "catalog_apart e"
    and "domain_keyed env w" and "engine_follows env e" and "run_write env w e = (r, e')"
  shows "engine_follows env e'"
  using run_write_content [OF assms(1-5,10)]
proof
  assume step: "content_step env e w e' \<and> eng_catalog e' = eng_catalog e"
  then obtain opers where opers: "write_logs env e w opers"
    "logged_rows env (eng_storage e') = after_writes opers (logged_rows env (eng_storage e))"
    "st_rows (eng_storage e') = st_rows (write_rows env w (eng_storage e))"
    "st_identified_rows (eng_storage e') = st_identified_rows (write_rows env w (eng_storage e))"
    by (auto simp: content_step_def)
  from follow.write_coupled [OF opers(1) assms(8,6,3) refl _ refl] assms(7,9)
  show ?thesis
    by (simp add: engine_follows_def catalog_apart_def step opers(2) rows_follow_cong [OF opers(3,4)])
qed (use assms(9) in simp)

lemma writes_keep_coupling_witness:
  "\<exists>r e'. run_write sample_env (DirectAssert \<lparr>ka_table = ''notes'', ka_key = Domain ''a'', ka_record = 5\<rparr>)
       sample_engine = (r, e') \<and> engine_follows sample_env e'"
proof -
  let ?w = "DirectAssert \<lparr>ka_table = ''notes'', ka_key = Domain ''a'', ka_record = (5::nat)\<rparr>"
  obtain r e' where run: "run_write sample_env ?w sample_engine = (r, e')" by (metis surj_pair)
  have entries: "versioned_entries (eng_storage sample_engine) = []"
    by (simp add: versioned_entries_def tbl_iter_def)
  have codec: "codec sample_env"
    by (auto simp: codec_def sample_env_def unat_of_nat split: if_splits)
  have content: "logged_rows sample_env store_empty = (\<lambda>key. None)"
    by (simp add: logged_rows_def log_suffix_def versioned_entries_from_def tbl_from_def resume_point_def
        all_operations_def)
  have follows: "engine_follows sample_env sample_engine"
    by (auto simp: engine_follows_def rows_follow_def content decoded_def typed_row_def
        split: record_key.split)
  have apart: "catalog_apart sample_engine"
    by (simp add: catalog_apart_def families_apart_def family_inventory_def)
  have "engine_follows sample_env e'"
    by (rule writes_keep_coupling [OF sample_engine_ok _ _ sample_room sample_addressable [OF _ entries]
          codec apart _ follows run]) simp_all
  with run show ?thesis by blast
qed

text \<open>C8 Checkpointing and compaction are invisible to the content: whatever a call of
  \<open>take_checkpoint\<close> or \<open>compact_versioned_history\<close> returns, the map the store stands for and the record
  tables are the ones before, although log rows were pruned.\<close>

theorem maintenance_keeps_content:
  assumes "engine_ok env e" and "committed_commit_sequence (eng_storage e) \<noteq> - 1"
    and "segments_addressable env e"
  shows "logged_rows env (eng_storage (snd (take_checkpoint env e))) = logged_rows env (eng_storage e)
    \<and> st_rows (eng_storage (snd (take_checkpoint env e))) = st_rows (eng_storage e)
    \<and> logged_rows env (eng_storage (snd (compact_versioned_history env retention ack e))) =
        logged_rows env (eng_storage e)
    \<and> st_rows (eng_storage (snd (compact_versioned_history env retention ack e))) = st_rows (eng_storage e)"
  using take_checkpoint_content [OF assms prod.collapse [symmetric]] take_checkpoint_rows [of e e env]
    compact_content [OF assms prod.collapse [symmetric]] compact_rows [of e e env retention ack]
  by (simp add: keeps_def same_rows_def)

lemma maintenance_keeps_content_witness:
  "logged_rows sample_env (eng_storage (snd (take_checkpoint sample_env sample_logged))) =
     logged_rows sample_env (eng_storage sample_logged)
   \<and> logged_rows sample_env (eng_storage (snd (compact_versioned_history sample_env
       \<lparr>maximum_live_entries = 0\<rparr> AckLocalCheckpoint sample_logged))) =
     logged_rows sample_env (eng_storage sample_logged)"
  using maintenance_keeps_content [OF sample_logged_ok _ sample_logged_addressable] by simp

end
