(* ===== verification/Rebuild_Theorems.thy ===== *)
theory Rebuild_Theorems
  imports Content_Theorems
begin

text \<open>
  Rebuilding the typed tables from the log (src/engine.rs \<open>rebuild_from_log\<close>): which rows a faithful
  directory leaves, and that the coupling of the tables to the content is restored.
\<close>

section \<open>Materializing rows of registered families\<close>

text \<open>A directory that applies a row to its family's own table, by the kind of its key.\<close>

definition own_table :: "family_identity \<Rightarrow> record_key \<Rightarrow> materialize_choice" where
  "own_table f key = (case key of Domain k \<Rightarrow> ApplyTo (family_table_name f)
     | Identifier i \<Rightarrow> ApplyIdentifiedTo (family_table_name f))"

definition row_applies :: "'r engine_env \<Rightarrow> family_directory \<Rightarrow> family_identity list \<Rightarrow> view_row \<Rightarrow> bool" where
  "row_applies env dir fams row \<longleftrightarrow> vr_family row \<in> set fams
     \<and> dir_materialize dir (vr_family row) (vr_key row) = own_table (vr_family row) (vr_key row)
     \<and> (\<forall>bs. vr_payload row = PayloadRecord bs \<longrightarrow>
          (\<exists>r. env_from_bytes env (family_table_name (vr_family row)) bs = Inr r))"

lemma materialize_row_put:
  assumes "row_applies env dir fams row"
  shows "materialize_row env dir s row = Inr (put_row (family_table_name (vr_family row)) (vr_key row)
    (decoded env (family_table_name (vr_family row)) (payload_bytes (vr_payload row))) s)"
proof (cases "vr_payload row")
  case (PayloadRecord bs)
  with assms obtain r where r: "env_from_bytes env (family_table_name (vr_family row)) bs = Inr r"
    by (auto simp: row_applies_def)
  with PayloadRecord assms show ?thesis
    by (cases "vr_key row") (simp_all add: row_applies_def own_table_def materialize_row_def
        materializer_apply_def materializer_apply_identified_def check_table_def decode_payload_def
        put_row_def decoded_def)
next
  case Tombstone
  with assms show ?thesis
    by (cases "vr_key row") (simp_all add: row_applies_def own_table_def materialize_row_def
        materializer_apply_def materializer_apply_identified_def check_table_def put_row_def decoded_def)
qed

definition touched_row :: "view_row list \<Rightarrow> view_key \<Rightarrow> bool" where
  "touched_row rows key \<longleftrightarrow> (\<exists>r \<in> set rows. row_view_key r = key)"

text \<open>A list of rows leaves the last payload at every key it mentions and the other rows as they were.\<close>

lemma materialize_rows_typed:
  assumes "list_all (row_applies env dir fams) rows" and apart: "families_apart fams"
  shows "\<exists>t. materialize_rows_in env dir rows s = Inr t \<and> (\<forall>f \<in> set fams. \<forall>key.
    typed_row t (family_table_name f) key =
      (if touched_row rows (view_key_new f key)
       then decoded env (family_table_name f) (last_row rows (view_key_new f key))
       else typed_row s (family_table_name f) key))"
  using assms(1)
proof (induction rows rule: rev_induct)
  case Nil
  then show ?case by (simp add: materialize_rows_in_def touched_row_def)
next
  case (snoc row rows)
  let ?g = "vr_family row"
  from snoc obtain t where t: "materialize_rows_in env dir rows s = Inr t"
    "\<forall>f \<in> set fams. \<forall>key. typed_row t (family_table_name f) key =
      (if touched_row rows (view_key_new f key)
       then decoded env (family_table_name f) (last_row rows (view_key_new f key))
       else typed_row s (family_table_name f) key)" by auto
  have row: "row_applies env dir fams row" using snoc.prems by simp
  then have g: "?g \<in> set fams" by (simp add: row_applies_def)
  let ?u = "put_row (family_table_name ?g) (vr_key row)
    (decoded env (family_table_name ?g) (payload_bytes (vr_payload row))) t"
  have run: "materialize_rows_in env dir (rows @ [row]) s = Inr ?u"
    using t(1) materialize_row_put [OF row, of t] by (simp add: materialize_rows_in_def foldR_append)
  have "typed_row ?u (family_table_name f) key =
      (if touched_row (rows @ [row]) (view_key_new f key)
       then decoded env (family_table_name f) (last_row (rows @ [row]) (view_key_new f key))
       else typed_row s (family_table_name f) key)" if f: "f \<in> set fams" for f key
  proof (cases "f = ?g \<and> key = vr_key row")
    case True
    then show ?thesis
      by (simp add: typed_row_put_row touched_row_def row_view_key_def last_row_def)
  next
    case False
    then have other: "row_view_key row \<noteq> view_key_new f key"
      using families_apart_key [OF apart f g, of key "vr_key row"] by (auto simp: row_view_key_def)
    have "\<not> (family_table_name f = family_table_name ?g \<and> key = vr_key row)"
      using False families_apart_table [OF apart f g] by auto
    with other t(2) f show ?thesis
      by (auto simp: typed_row_put_row touched_row_def last_row_def)
  qed
  with run show ?case by blast
qed

section \<open>Identities of a fold\<close>

lemma declare_identity_values:
  "(\<forall>i g. tbl_get (cv_identities v) i = Some g \<longrightarrow> g \<in> F) \<Longrightarrow> f \<in> F \<Longrightarrow>
   \<forall>i g. tbl_get (cv_identities (declare_identity v f)) i = Some g \<longrightarrow> g \<in> F"
  by (auto simp: declare_identity_def table_simps split: option.splits if_splits)

lemma fold_identities:
  assumes fold: "canonical_fold p rows es head = Inr view"
    and rows: "\<forall>r \<in> set rows. vr_family r \<in> F"
    and ops: "\<forall>oper \<in> set (all_operations es). vop_family oper \<in> F"
  shows "\<forall>i g. tbl_get (cv_identities view) i = Some g \<longrightarrow> g \<in> F"
proof -
  let ?P = "\<lambda>v. \<forall>i g. tbl_get (cv_identities v) i = Some g \<longrightarrow> g \<in> F"
  from fold obtain v s where v: "foldR apply_checkpoint_row view_empty rows = Inr v"
    and s: "foldR (fold_entry p) (v, head) es = Inr s" "view = fst s"
    by (auto simp: canonical_fold_def bindR_eq_Inr)
  have start: "?P w'" if "apply_checkpoint_row w r = Inr w'" "?P w" "r \<in> set rows" for w r w'
  proof -
    have "cv_identities w' = cv_identities (declare_identity w (vr_family r))"
      using that(1) by (auto simp: apply_checkpoint_row_def Let_def split: option.splits)
    then show ?thesis using declare_identity_values [OF that(2), of "vr_family r"] rows that(3) by simp
  qed
  have "?P v"
    by (rule foldR_invariant [OF v, where P = ?P]) (simp add: view_empty_def, rule start)
  have entry: "?P (fst t)" if "fold_entry p u e = Inr t" "?P (fst u)" "e \<in> set es" for u t e
  proof -
    have ops_e: "\<forall>oper \<in> set (ne_list (ve_operations e)). vop_family oper \<in> F"
      using ops that(3) by (auto simp: all_operations_def)
    from that(1) have f: "foldR (apply_operation p) (fst u) (ne_list (ve_operations e)) = Inr (fst t)"
      by (rule fold_entry_Inr)
    show ?thesis
    proof (rule foldR_invariant [OF f, where P = ?P])
      show "?P (fst u)" by (rule that(2))
    next
      fix w oper w'
      assume step: "oper \<in> set (ne_list (ve_operations e))" "?P w" "apply_operation p w oper = Inr w'"
      from step(3) have "cv_identities w' = cv_identities (declare_identity w (vop_family oper))"
        by (rule apply_operation_effect)
      then show "?P w'" using declare_identity_values [OF step(2), of "vop_family oper"] ops_e step(1) by simp
    qed
  qed
  have "?P (fst s)"
    by (rule foldR_invariant [OF s(1), where P = "\<lambda>s. ?P (fst s)"]) (simp add: \<open>?P v\<close>, rule entry)
  then show ?thesis by (simp add: s(2))
qed

section \<open>Rebuilding\<close>

text \<open>What the log of a store says: its verified fold, and the families it names.\<close>

definition log_view :: "'r engine_env \<Rightarrow> 'r store \<Rightarrow> canonical_view \<Rightarrow> bool" where
  "log_view env s view \<longleftrightarrow> (\<exists>c. latest_checkpoint env s = Inr c
     \<and> canonical_fold env (fst (resume_point c)) (log_suffix s c) (resume_head c) = Inr view)"

definition log_names_only :: "'r engine_env \<Rightarrow> 'r store \<Rightarrow> family_identity list \<Rightarrow> bool" where
  "log_names_only env s fams \<longleftrightarrow> (\<forall>c. latest_checkpoint env s = Inr c \<longrightarrow>
     (\<forall>r \<in> set (fst (resume_point c)). vr_family r \<in> set fams)
     \<and> (\<forall>oper \<in> set (all_operations (log_suffix s c)). vop_family oper \<in> set fams))"

definition log_touches :: "'r engine_env \<Rightarrow> 'r store \<Rightarrow> view_key \<Rightarrow> bool" where
  "log_touches env s key \<longleftrightarrow> (\<exists>view. log_view env s view \<and> tbl_get (cv_touched view) key \<noteq> None)"

definition log_decodes :: "'r engine_env \<Rightarrow> family_identity list \<Rightarrow> 'r store \<Rightarrow> bool" where
  "log_decodes env fams s \<longleftrightarrow> (\<forall>f \<in> set fams. \<forall>key bs. logged_rows env s (view_key_new f key) = Some bs \<longrightarrow>
     (\<exists>r. env_from_bytes env (family_table_name f) bs = Inr r))"

lemma rebuild_rows:
  assumes view: "view_ok view" and rows: "into_rows view inventory = Inr m"
    and ids: "\<forall>i g. tbl_get (cv_identities view) i = Some g \<longrightarrow> g \<in> set fams"
    and dir: "\<And>f key. f \<in> set fams \<Longrightarrow> tbl_get (cv_touched view) (view_key_new f key) \<noteq> None \<Longrightarrow>
      dir_materialize dir f key = own_table f key"
    and decode: "\<And>f key bs. f \<in> set fams \<Longrightarrow> tbl_get (cv_rows view) (view_key_new f key) = Some bs \<Longrightarrow>
      \<exists>r. env_from_bytes env (family_table_name f) bs = Inr r"
  shows "list_all (row_applies env dir fams) (materialize_iter m)"
    and "touched_row (materialize_iter m) key = (tbl_get (cv_touched view) key \<noteq> None)"
    and "tbl_get (cv_touched view) key \<noteq> None \<Longrightarrow> last_row (materialize_iter m) key = tbl_get (cv_rows view) key"
proof -
  let ?row = "\<lambda>k pl. view_row_new (resolved view k) (snd (snd k)) pl"
  have m: "mr_rows m = map (\<lambda>x. ?row (fst x) (PayloadRecord (snd x))) (cv_rows view)"
    "mr_cleared m = map (\<lambda>k. ?row k Tombstone) (cleared_keys view)"
    using into_rows_ok [OF view, of inventory] rows by (auto simp: case_prod_beta)
  have touched: "tbl_get (cv_touched view) (fst x) \<noteq> None" if "x \<in> set (cv_rows view)" for x
    using row_touched [OF view, of "fst x"] that by simp
  have cleared: "tbl_get (cv_touched view) k \<noteq> None" "tbl_get (cv_rows view) k = None"
    if "k \<in> set (cleared_keys view)" for k
    using that tbl_get_None_iff [of "cv_touched view" k] by (auto simp: cleared_keys_def tbl_iter_def)
  have vk: "view_key_new (resolved view k) (snd (snd k)) = k" if "tbl_get (cv_touched view) k \<noteq> None" for k
    using resolve_identity_touched [OF view that] by simp
  have fam: "resolved view k \<in> set fams" if "tbl_get (cv_touched view) k \<noteq> None" for k
  proof -
    have "tbl_get (cv_identities view) (identity_key_of k) \<noteq> None"
      using view that unfolding view_ok_def by blast
    then obtain g where g: "tbl_get (cv_identities view) (identity_key_of k) = Some g" by (rule not_None_eq [THEN iffD1, THEN exE])
    from ids [rule_format, OF this] show ?thesis by (simp add: resolved_def g)
  qed
  have ok: "tbl_ok (cv_rows view)" "tbl_ok (cv_touched view)" using view by (simp_all add: view_ok_def)
  have one: "row_applies env dir fams (?row (fst x) (PayloadRecord (snd x)))" if "x \<in> set (cv_rows view)" for x
  proof -
    note t = touched [OF that]
    have "tbl_get (cv_rows view) (fst x) = Some (snd x)" using that ok by (simp add: tbl_get_Some_iff)
    with fam [OF t] vk [OF t] t dir [of "resolved view (fst x)" "snd (snd (fst x))"]
      decode [of "resolved view (fst x)" "snd (snd (fst x))"] show ?thesis
      by (simp add: row_applies_def view_row_new_def)
  qed
  have two: "row_applies env dir fams (?row k Tombstone)" if "k \<in> set (cleared_keys view)" for k
    using fam [OF cleared(1) [OF that]] vk [OF cleared(1) [OF that]] cleared [OF that]
      dir [of "resolved view k" "snd (snd k)"]
    by (simp add: row_applies_def view_row_new_def)
  show "list_all (row_applies env dir fams) (materialize_iter m)"
    using one two by (auto simp: materialize_iter_def m list_all_iff)
  have keys: "row_view_key (?row (fst x) (PayloadRecord (snd x))) = fst x" if "x \<in> set (cv_rows view)" for x
    using vk [OF touched [OF that]] by (simp add: row_view_key_def view_row_new_def)
  have keys': "row_view_key (?row k Tombstone) = k" if "k \<in> set (cleared_keys view)" for k
    using vk [OF cleared(1) [OF that]] by (simp add: row_view_key_def view_row_new_def)
  have rows_touch: "touched_row (mr_rows m) key = (tbl_get (cv_rows view) key \<noteq> None)"
    using keys tbl_get_None_iff [of "cv_rows view" key] by (auto simp: touched_row_def m)
  have clear_touch: "touched_row (mr_cleared m) key =
      (tbl_get (cv_touched view) key \<noteq> None \<and> tbl_get (cv_rows view) key = None)"
    using keys' tbl_get_None_iff [of "cv_touched view" key]
    by (auto simp: touched_row_def m cleared_keys_def tbl_iter_def)
  have sub: "tbl_get (cv_rows view) key \<noteq> None \<Longrightarrow> tbl_get (cv_touched view) key \<noteq> None"
    using view unfolding view_ok_def by blast
  show "touched_row (materialize_iter m) key = (tbl_get (cv_touched view) key \<noteq> None)"
    using rows_touch clear_touch sub by (auto simp: materialize_iter_def touched_row_def)
  show "last_row (materialize_iter m) key = tbl_get (cv_rows view) key"
    if "tbl_get (cv_touched view) key \<noteq> None"
  proof (cases "tbl_get (cv_rows view) key")
    case None
    then have "filter (\<lambda>r. row_view_key r = key) (mr_rows m) = []"
      using rows_touch by (auto simp: touched_row_def filter_empty_conv)
    moreover have "\<forall>r \<in> set (mr_cleared m). payload_bytes (vr_payload r) = None"
      by (auto simp: m view_row_new_def)
    ultimately show ?thesis
      using None last_in_set [of "filter (\<lambda>r. row_view_key r = key) (mr_cleared m)"]
      by (auto simp: last_row_def materialize_iter_def Let_def)
  next
    case (Some bs)
    then have "filter (\<lambda>r. row_view_key r = key) (mr_rows m) \<noteq> []"
      using rows_touch by (auto simp: touched_row_def filter_empty_conv)
    then have "last_row (materialize_iter m) key = last_row (mr_rows m) key"
      by (simp add: last_row_def materialize_iter_def)
    then show ?thesis using into_rows_refold(1) [OF view rows] by simp
  qed
qed

lemma rebuild_follows:
  assumes c: "latest_checkpoint env s = Inr c"
    and view: "canonical_fold env (fst (resume_point c)) (log_suffix s c) (resume_head c) = Inr view"
    and m: "into_rows view fams = Inr m" and apart: "families_apart fams"
    and names: "log_names_only env s fams" and decodes: "log_decodes env fams s"
    and dir: "\<forall>f \<in> set fams. \<forall>key.
      log_touches env s (view_key_new f key) \<longrightarrow> dir_materialize dir f key = own_table f key"
    and stale: "\<forall>f \<in> set fams. \<forall>key.
      \<not> log_touches env s (view_key_new f key) \<longrightarrow> typed_row s (family_table_name f) key = None"
  shows "\<exists>t. materialize_rows_in env dir (materialize_iter m) s = Inr t \<and> same_history s t
    \<and> rows_follow env fams t (logged_rows env s)"
proof -
  note content = logged_rows_folded [OF c view]
  have touches: "log_touches env s key = (tbl_get (cv_touched view) key \<noteq> None)" for key
    using c view by (auto simp: log_touches_def log_view_def)
  have ids: "\<forall>i g. tbl_get (cv_identities view) i = Some g \<longrightarrow> g \<in> set fams"
    using names c by (intro fold_identities [OF view]) (auto simp: log_names_only_def)
  note rows = rebuild_rows [OF canonical_fold_ok [OF view] m ids, of dir env]
  have applies: "list_all (row_applies env dir fams) (materialize_iter m)"
    using dir decodes by (intro rows(1)) (auto simp: touches content log_decodes_def)
  from materialize_rows_typed [OF applies apart, of s] obtain t where
    t: "materialize_rows_in env dir (materialize_iter m) s = Inr t"
    and typed: "\<forall>f \<in> set fams. \<forall>key. typed_row t (family_table_name f) key =
      (if touched_row (materialize_iter m) (view_key_new f key)
       then decoded env (family_table_name f) (last_row (materialize_iter m) (view_key_new f key))
       else typed_row s (family_table_name f) key)" by auto
  have "typed_row t (family_table_name f) key =
      decoded env (family_table_name f) (logged_rows env s (view_key_new f key))" if f: "f \<in> set fams" for f key
  proof (cases "tbl_get (cv_touched view) (view_key_new f key) = None")
    case True
    then have "tbl_get (cv_rows view) (view_key_new f key) = None"
      using canonical_fold_ok [OF view] unfolding view_ok_def by blast
    moreover have "\<not> touched_row (materialize_iter m) (view_key_new f key)"
      using rows(2) dir decodes True by (auto simp: touches content log_decodes_def)
    ultimately show ?thesis
      using typed stale f True by (simp add: touches content [symmetric] decoded_def)
  next
    case False
    have "touched_row (materialize_iter m) (view_key_new f key)"
      "last_row (materialize_iter m) (view_key_new f key) = tbl_get (cv_rows view) (view_key_new f key)"
      using rows(2,3) dir decodes False by (auto simp: touches content log_decodes_def)
    with typed f show ?thesis by (simp add: content)
  qed
  with t same_planes_history [OF materialize_rows_planes [OF t]] show ?thesis
    by (auto simp: rows_follow_def)
qed

text \<open>C5 A rebuild restores the coupling: on a versioned engine whose log names registered families
  only, whose payloads decode, whose directory applies each row to its family's table and whose tables
  hold no row at a key the log never mentions, \<open>rebuild_from_log\<close> succeeds whatever the rows at the other
  keys were (lost, stale or altered), and afterwards every row is the decoded content at its key.\<close>

theorem rebuild_restores:
  assumes ok: "engine_ok env e" and policy: "eng_policy e \<noteq> None" and apart: "catalog_apart e"
    and names: "log_names_only env (eng_storage e) (family_inventory (eng_catalog e))"
    and decodes: "log_decodes env (family_inventory (eng_catalog e)) (eng_storage e)"
    and dir: "\<forall>f \<in> set (family_inventory (eng_catalog e)). \<forall>key.
      log_touches env (eng_storage e) (view_key_new f key) \<longrightarrow> dir_materialize dir f key = own_table f key"
    and stale: "\<forall>f \<in> set (family_inventory (eng_catalog e)). \<forall>key.
      \<not> log_touches env (eng_storage e) (view_key_new f key) \<longrightarrow>
      typed_row (eng_storage e) (family_table_name f) key = None"
    and no_fault: "\<forall>s. env_commit_fault env s = None"
  shows "\<exists>receipt e'. rebuild_from_log env dir e = (Inr receipt, e') \<and> engine_follows env e'
    \<and> same_history (eng_storage e) (eng_storage e')"
proof -
  let ?s = "eng_storage e" and ?fams = "family_inventory (eng_catalog e)"
  from rebuild_runs [OF ok policy, of dir] obtain c view m where
    c: "latest_checkpoint env ?s = Inr c"
    and view: "canonical_fold env (fst (resume_point c)) (log_suffix ?s c) (resume_head c) = Inr view"
    and m: "into_rows view ?fams = Inr m"
    and run: "rebuild_from_log env dir e =
        bindS (engine_write env
                 (\<lambda>s. bindR (lift_storage (materialize_rows_in env dir (materialize_iter m) s))
                        (\<lambda>s'. Inr ((), s'))) e)
          (\<lambda>_ e'. (Inr \<lparr>rr_view_digest = view_digest env view, rr_row_count = length (mr_rows m),
                        rr_cleared_count = length (mr_cleared m),
                        rr_folded_entry_count = length (log_suffix ?s c)\<rparr>, e'))" by blast
  from rebuild_follows [OF c view m _ names decodes dir stale] apart obtain t where
    t: "materialize_rows_in env dir (materialize_iter m) ?s = Inr t" and history: "same_history ?s t"
    and follow: "rows_follow env ?fams t (logged_rows env ?s)" by (auto simp: catalog_apart_def)
  have "logged_rows env t = logged_rows env ?s"
    using c by (simp add: logged_rows_def same_history_reads [OF history])
  with follow have "engine_follows env (e\<lparr>eng_storage := t\<rparr>)" by (simp add: engine_follows_def)
  moreover have "engine_write env (\<lambda>s. bindR (lift_storage (materialize_rows_in env dir (materialize_iter m) s))
      (\<lambda>s'. Inr ((), s'))) e = (Inr (), e\<lparr>eng_storage := t\<rparr>)"
    by (simp add: engine_write_def store_write_def t lift_storage_def no_fault)
  ultimately show ?thesis using run history by simp
qed

text \<open>The engine with one commit whose record tables were lost, and a directory for its family.\<close>

definition sample_lost :: "nat engine" where
  "sample_lost = sample_logged\<lparr>eng_storage := (eng_storage sample_logged)\<lparr>st_rows := \<lambda>t. []\<rparr>\<rparr>"

definition sample_directory :: family_directory where
  "sample_directory = \<lparr>dir_materialize = own_table, dir_announce = (\<lambda>f key. AnnounceNothing)\<rparr>"

lemma sample_lost_history: "same_history (eng_storage sample_logged) (eng_storage sample_lost)"
  by (simp add: sample_lost_def same_history_def)

lemma sample_lost_ok: "engine_ok sample_env sample_lost"
  by (rule engine_ok_same_history [OF sample_logged_ok sample_lost_history]) (simp_all add: sample_lost_def)

lemma sample_lost_log:
  "latest_checkpoint sample_env (eng_storage sample_lost) = Inr None"
  "all_operations (log_suffix (eng_storage sample_lost) None) = [sample_versioned_operation]"
proof -
  note reads = same_history_reads [OF sample_lost_history]
  obtain v where v: "versioned_entries_from (eng_storage sample_logged) (commit_sequence_next 0) = [v]"
    "ne_list (ve_operations v) = [sample_versioned_operation]" by (rule sample_logged_entries)
  then show "all_operations (log_suffix (eng_storage sample_lost) None) = [sample_versioned_operation]"
    by (simp only: reads(6)) (simp add: log_suffix_def resume_after_def resume_point_def
        commit_sequence_genesis_def all_operations_def)
  show "latest_checkpoint sample_env (eng_storage sample_lost) = Inr None" by (simp add: reads)
qed

lemma sample_lost_content:
  "logged_rows sample_env (eng_storage sample_lost) =
    (\<lambda>key. if key = view_key_new sample_family (Domain ''a'') then Some [5] else None)"
  by (auto simp: logged_rows_def sample_lost_log resume_point_def after_writes_def last_write_single
      operation_view_key_def operation_effect_def sample_versioned_operation_def sample_operation_def fun_eq_iff)

lemma rebuild_restores_witness:
  "\<exists>receipt e'. rebuild_from_log sample_env sample_directory sample_lost = (Inr receipt, e')
    \<and> engine_follows sample_env e' \<and> same_history (eng_storage sample_lost) (eng_storage e')"
proof (rule rebuild_restores [OF sample_lost_ok])
  have cat: "eng_catalog sample_lost = [registration_new sample_family]" by (simp add: sample_lost_def)
  then have fams: "family_inventory (eng_catalog sample_lost) = [sample_family]"
    by (simp add: family_inventory_def registration_new_def)
  show "catalog_apart sample_lost" by (simp add: catalog_apart_def fams families_apart_def)
  show "log_names_only sample_env (eng_storage sample_lost) (family_inventory (eng_catalog sample_lost))"
    by (simp add: log_names_only_def sample_lost_log fams resume_point_def sample_versioned_operation_def
        sample_operation_def)
  show "log_decodes sample_env (family_inventory (eng_catalog sample_lost)) (eng_storage sample_lost)"
    unfolding log_decodes_def fams sample_lost_content by (simp add: sample_env_def)
  show "\<forall>f \<in> set (family_inventory (eng_catalog sample_lost)). \<forall>key.
      \<not> log_touches sample_env (eng_storage sample_lost) (view_key_new f key) \<longrightarrow>
      typed_row (eng_storage sample_lost) (family_table_name f) key = None"
    by (auto simp: typed_row_def sample_lost_def sample_logged_def deliver_def row_insert_def
        split: record_key.split)
qed (simp_all add: sample_lost_def sample_directory_def)

end
