(* ===== verification/System_Theorems.thy ===== *)
theory System_Theorems
  imports Content_Theorems
begin

text \<open>
  What holds of every engine that operations can reach from a freshly opened store.
\<close>

section \<open>A concrete run\<close>

definition sample_fresh :: "nat engine" where
  "sample_fresh =
     \<lparr>eng_storage = (counter_insert storage_layout_key storage_layout store_empty)\<lparr>st_policy := Some sample_policy\<rparr>,
      eng_catalog = [], eng_subscriptions = registry_new, eng_policy = Some sample_policy,
      eng_staging = None, eng_fault = None\<rparr>"

definition sample_descriptor :: "nat table_descriptor" where
  "sample_descriptor = table_descriptor_new ''notes'' (family sample_family) (family_schema_hash sample_family)"

definition sample_opened :: "nat engine" where
  "sample_opened = snd (register_table sample_env sample_descriptor sample_fresh)"

lemma sample_fresh_fresh: "fresh_engine (Some sample_policy) sample_fresh"
  by (simp add: fresh_engine_def sample_fresh_def)

lemma sample_fresh_reads [simp]:
  "eng_policy sample_fresh = Some sample_policy" "eng_catalog sample_fresh = []" "eng_staging sample_fresh = None"
  "versioned_entries (eng_storage sample_fresh) = []" "has_room sample_fresh"
  by (simp_all add: sample_fresh_def versioned_entries_def counter_insert_def store_empty_def tbl_iter_def
      has_room_def committed_commit_sequence_def counter_get_def commit_sequence_genesis_def storage_layout_key_def
      latest_commit_sequence_key_def tbl_get_def)

lemma sample_opened_engine:
  "sample_opened = sample_fresh\<lparr>eng_storage := catalog_row_insert ''notes''
       (registration_new (td_family_identity sample_descriptor)) (eng_storage sample_fresh),
     eng_catalog := [registration_new (td_family_identity sample_descriptor)]\<rparr>"
  by (simp add: sample_opened_def register_table_def Let_def sample_descriptor_def table_descriptor_new_def
      td_family_identity_def family_registration_state_def registration_for_table_def registration_for_family_def
      engine_put_def engine_write_def store_write_def catalog_insert_def registration_new_def)

lemma sample_opened_reads [simp]:
  "eng_policy sample_opened = Some sample_policy" "eng_staging sample_opened = None"
  "versioned_entries (eng_storage sample_opened) = []" "has_room sample_opened"
  using sample_fresh_reads
  by (simp_all add: sample_opened_engine has_room_def same_history_reads [OF same_history_updates(5)])

lemma sample_opened_reachable: "reachable sample_env dir (Some sample_policy) sample_opened"
proof (rule reachable_step [OF reachable_fresh [OF sample_fresh_fresh]])
  show "engine_step sample_env dir sample_fresh sample_opened"
    by (rule step_register [of sample_env sample_descriptor _ "fst (register_table sample_env sample_descriptor sample_fresh)"])
      (simp_all add: sample_opened_def sample_addressable)
qed

section \<open>The invariant of reachable engines\<close>

text \<open>C3 Every engine reachable from a freshly opened store by any sequence of operations, with any of
  their results (writes, staging, checkpoints, compaction in all its phases, interruptions, rebuilds,
  acknowledgements, registrations, evolutions, subscriptions), is recoverable: the two logs are indexed by
  strictly rising sequences no greater than the committed one, the cached counts are their lengths, and
  when the store is versioned the latest checkpoint verifies, the log after it folds to a view whose chain
  head is the cached one, and the metadata log is the projection of the versioned log.\<close>

theorem reachable_recoverable:
  assumes "reachable env dir policy e"
  shows "logs_ok (eng_storage e)
    \<and> (eng_policy e \<noteq> None \<longrightarrow>
        (\<exists>c view. latest_checkpoint env (eng_storage e) = Inr c
           \<and> canonical_fold env (fst (resume_point c)) (log_suffix (eng_storage e) c) (resume_head c) = Inr view
           \<and> chain_head (eng_storage e) = chain_end (resume_head c) (log_suffix (eng_storage e) c)
           \<and> tbl_get (cv_rows view) = logged_rows env (eng_storage e))
        \<and> commit_entries (eng_storage e) = map entry_of_versioned (versioned_entries (eng_storage e)))"
proof -
  have ok: "engine_ok env e" by (rule reachable_ok [OF assms])
  have "\<exists>c view. latest_checkpoint env (eng_storage e) = Inr c
      \<and> canonical_fold env (fst (resume_point c)) (log_suffix (eng_storage e) c) (resume_head c) = Inr view
      \<and> chain_head (eng_storage e) = chain_end (resume_head c) (log_suffix (eng_storage e) c)
      \<and> tbl_get (cv_rows view) = logged_rows env (eng_storage e)" if "eng_policy e \<noteq> None"
  proof -
    have rec: "recoverable env (eng_storage e)" using ok that by (simp add: engine_ok_def history_ok_def)
    then obtain c view where c: "latest_checkpoint env (eng_storage e) = Inr c"
      "canonical_fold env (fst (resume_point c)) (log_suffix (eng_storage e) c) (resume_head c) = Inr view"
      by (rule recoverable_folds)
    with rec logged_rows_folded [OF c] show ?thesis by (auto simp: recoverable_def)
  qed
  moreover have "commit_entries (eng_storage e) = map entry_of_versioned (versioned_entries (eng_storage e))"
    if "eng_policy e \<noteq> None"
    using ok that by (auto simp: engine_ok_def history_ok_def logs_agree_def commit_entries_def
        versioned_entries_def tbl_iter_def)
  ultimately show ?thesis using ok by (simp add: engine_ok_def)
qed

lemma run_write_policy:
  assumes "engine_ok env e" and "eng_staging e = None" and "has_room e" and "run_write env w e = (r, e')"
  shows "eng_policy e' = eng_policy e"
proof -
  from run_write_effect [OF assms(2,1) has_room_words(1) [OF assms(3)], of w] assms(4)
  consider "e' = e" | "lands_one env e e'"
    | e1 where "lands_one env e e1" "maintain_versioned_history env e1 = (r, e')"
    by (auto simp: settles_effect_def lands_effect_def)
  then show ?thesis
  proof cases
    case (3 e1)
    with maintain_rows [of e1 e1 env] show ?thesis by (simp add: lands_one_def same_rows_def)
  qed (simp_all add: lands_one_def)
qed

lemma reachable_recoverable_witness:
  "\<exists>r e' c view. run_write sample_env
       (DirectAssert \<lparr>ka_table = ''notes'', ka_key = Domain ''a'', ka_record = 5\<rparr>) sample_opened = (r, e')
     \<and> latest_checkpoint sample_env (eng_storage e') = Inr c
     \<and> canonical_fold sample_env (fst (resume_point c)) (log_suffix (eng_storage e') c) (resume_head c) = Inr view
     \<and> tbl_get (cv_rows view) = logged_rows sample_env (eng_storage e')"
proof -
  let ?w = "DirectAssert \<lparr>ka_table = ''notes'', ka_key = Domain ''a'', ka_record = (5::nat)\<rparr>"
  obtain r e' where run: "run_write sample_env ?w sample_opened = (r, e')" by (metis surj_pair)
  have reach: "reachable sample_env dir (Some sample_policy) e'" for dir
    by (rule reachable_step [OF sample_opened_reachable step_write [OF run]])
      (simp_all add: sample_addressable)
  have "eng_policy e' \<noteq> None"
    using run_write_policy [OF reachable_ok [OF sample_opened_reachable] _ _ run] by simp
  with reachable_recoverable [OF reach] run show ?thesis by blast
qed

end
