(* ===== verification/Resume_Theorems.thy ===== *)
theory Resume_Theorems
  imports System_Steps
begin

text \<open>
  Resuming a compaction (src/engine.rs \<open>resume_compaction\<close>): every successful phase stores the next one, so
  the recursion ends within its fuel whatever the store holds.
\<close>

section \<open>What each phase stores\<close>

lemma land_group_intent:
  assumes "land_group env dir mirror counts g completes s = Inr t" and completes
  shows "\<exists>sq. st_compaction_intent t = Some (intent_applied sq)"
  using assms by (auto simp: land_group_def bindR_eq_Inr Let_def clear_in_def)

lemma materialize_applies:
  assumes run: "materialize_staged_group env dir e = (Inr receipt, e')" and planned: "intent_planned_pending (eng_storage e)"
  shows "\<exists>sq. compaction_intent_of e' = Some (intent_applied sq)"
proof -
  from run obtain g s where "land_group env dir (writes_mirror_outbox (eng_policy e)) (log_counts (eng_storage e)) g
      True (eng_storage e) = Inr s" and e': "eng_storage e' = s"
    by (auto simp: materialize_staged_group_def Let_def planned bindS_eq_Inr bindR_eq_Inr reads_def
        engine_write_Inr lift_storage_def split: option.splits if_splits sum.splits prod.splits)
  from land_group_intent [OF this(1)] show ?thesis by (simp add: compaction_intent_of_def e')
qed

lemma publish_checkpoints:
  assumes "publish_compaction_checkpoint env intent e = (Inr u, e')"
  shows "\<exists>sq. compaction_intent_of e' = Some (intent_checkpointed sq)"
  using assms
  by (auto simp: publish_compaction_checkpoint_def Let_def bindS_eq_Inr engine_put_def engine_write_Inr
      compaction_intent_of_def put_intent_def elim!: interrupt_cases split: if_splits)

lemma finish_clears:
  assumes "finish_compaction env e = (Inr u, e')"
  shows "compaction_intent_of e' = None"
  using assms
  by (auto simp: finish_compaction_def bindS_eq_Inr engine_put_def engine_write_Inr compaction_intent_of_def
      put_intent_def)

section \<open>The recursion ends\<close>

text \<open>The calls a phase still needs.\<close>

fun phases_left :: "compaction_phase \<Rightarrow> nat" where
  "phases_left Planned = 3"
| "phases_left Applied = 2"
| "phases_left Checkpointed = 1"

definition calls_left :: "'r engine \<Rightarrow> nat" where
  "calls_left e = (case compaction_intent_of e of None \<Rightarrow> 0 | Some intent \<Rightarrow> phases_left (intent_phase intent))"

lemma resume_loop_returns:
  "calls_left e < n \<Longrightarrow> \<exists>r e'. resume_loop n env dir e = (Some r, e') \<and> (r = Inr () \<longrightarrow> compaction_intent_of e' = None)"
proof (induction n arbitrary: e)
  case (Suc n)
  show ?case
  proof (cases "compaction_intent_of e")
    case (Some intent)
    show ?thesis
    proof (cases "intent_phase intent")
      case Planned
      let ?step = "bindS (materialize_staged_group env dir e) (\<lambda>_ e. interrupt_compaction_at AfterRetractionsApplied e)"
      show ?thesis
      proof (cases "fst ?step")
        case (Inl err)
        then have "resume_loop (Suc n) env dir e = (Some (Inl err), snd ?step)"
          using Some Planned by (cases ?step) simp
        then show ?thesis by blast
      next
        case (Inr u)
        then obtain e1 where e1: "?step = (Inr u, e1)" by (metis prod.collapse)
        then obtain receipt where "materialize_staged_group env dir e = (Inr receipt, e1)"
          by (auto simp: bindS_eq_Inr elim!: interrupt_cases)
        moreover have "intent_planned_pending (eng_storage e)"
          using Some Planned by (simp add: intent_planned_pending_def compaction_intent_of_def intent_is_planned_def)
        ultimately have "calls_left e1 = 2"
          using materialize_applies by (fastforce simp: calls_left_def intent_applied_def)
        moreover have "calls_left e = 3" using Some Planned by (simp add: calls_left_def)
        ultimately show ?thesis using Suc.IH [of e1] Suc.prems Some Planned e1 by simp
      qed
    next
      case Applied
      show ?thesis
      proof (cases "fst (publish_compaction_checkpoint env intent e)")
        case (Inl err)
        then have "resume_loop (Suc n) env dir e = (Some (Inl err), snd (publish_compaction_checkpoint env intent e))"
          using Some Applied by (cases "publish_compaction_checkpoint env intent e") simp
        then show ?thesis by blast
      next
        case (Inr u)
        then obtain e1 where e1: "publish_compaction_checkpoint env intent e = (Inr u, e1)" by (metis prod.collapse)
        then have "calls_left e1 = 1"
          using publish_checkpoints by (fastforce simp: calls_left_def intent_checkpointed_def)
        moreover have "calls_left e = 2" using Some Applied by (simp add: calls_left_def)
        ultimately show ?thesis using Suc.IH [of e1] Suc.prems Some Applied e1 by simp
      qed
    next
      case Checkpointed
      then show ?thesis
        using Some finish_clears [of env e] by (cases "finish_compaction env e") auto
    qed
  qed simp
qed simp

text \<open>C16 Resuming a compaction always ends: in every state of the engine and with every directory,
  \<open>resume_compaction\<close> returns a result within its four calls (one per phase and one to see that nothing is
  left), and when it returns \<open>Ok\<close> no compaction intent is left; so \<open>open_recovering\<close> always returns too.\<close>

theorem resume_returns:
  "(\<exists>r e'. resume_compaction env dir e = (Some r, e')
      \<and> (case r of Inl err \<Rightarrow> True | Inr u \<Rightarrow> compaction_intent_of e' = None))
   \<and> (\<exists>r s'. open_recovering env dir policy s = (Some r, s'))"
proof -
  have "phases_left p < 4" for p by (cases p) simp_all
  then have four: "calls_left e < 4" for e :: "'a engine"
    by (simp add: calls_left_def split: option.split)
  have resumes: "\<exists>r e'. resume_compaction env dir e = (Some r, e')
      \<and> (case r of Inl err \<Rightarrow> True | Inr u \<Rightarrow> compaction_intent_of e' = None)" for e :: "'a engine"
  proof -
    obtain r e' where "resume_loop 4 env dir e = (Some r, e')" "r = Inr () \<longrightarrow> compaction_intent_of e' = None"
      using resume_loop_returns [OF four [of e], of env dir] by blast
    then show ?thesis by (intro exI [of _ r] exI [of _ e']) (cases r; simp add: resume_compaction_def)
  qed
  have "\<exists>r s'. open_recovering env dir policy s = (Some r, s')"
  proof (cases "open_unrecovered env policy s")
    case (Pair r1 s1)
    show ?thesis
    proof (cases r1)
      case (Inr e1)
      obtain r e2 where "resume_compaction env dir e1 = (Some r, e2)" using resumes by blast
      with Pair Inr show ?thesis
        by (cases r; cases "maintain_versioned_history env e2"; cases "fst (maintain_versioned_history env e2)")
          (auto simp: open_recovering_def split: prod.splits sum.splits)
    qed (simp add: open_recovering_def Pair)
  qed
  with resumes show ?thesis by blast
qed

end
