(* ===== verification/Evolution_Theorems.thy ===== *)
theory Evolution_Theorems
  imports System_Theorems
begin

text \<open>
  Registration and in-place evolution of families (src/engine.rs \<open>register_table\<close>,
  \<open>evolve_registered_family\<close>; src/catalog.rs; src/table.rs): the catalog they leave, the rows an evolution
  carries, and where the one-table-per-family rule has a gap.
\<close>

section \<open>The carried rows\<close>

lemma rows_fold_insert:
  "st_rows (fold (\<lambda>(key, row). row_insert name key row) rows s) =
     (st_rows s)(name := fold (\<lambda>r. tbl_insert (fst r) (snd r)) rows (st_rows s name))"
  by (induction rows arbitrary: s) (auto simp: row_insert_def)

lemma carry_rows_map_of:
  "mapR (carry_row step) rows = Inr carried \<Longrightarrow>
   map_option Inr (map_of carried k) = map_option (step_convert step) (map_of rows k)"
  by (induction rows arbitrary: carried) (auto simp: bindR_eq_Inr carry_row_def)

lemma carried_rows_get:
  assumes "tbl_ok t" and "carry_rows step t = Inr carried"
  shows "map_option Inr (tbl_get (fold (\<lambda>r. tbl_insert (fst r) (snd r)) carried t) k) =
    map_option (step_convert step) (tbl_get t k)"
proof -
  have keys: "map fst carried = map fst t"
    using carry_rows_Inr(1) [OF assms(2)] by (simp add: tbl_iter_def)
  have "map_of (rev carried) = map_of carried"
    using tbl_ok_distinct [OF assms(1)]
    by (subst map_of_inject_set) (simp_all add: rev_map [symmetric] keys)
  then have "tbl_get (fold (\<lambda>r. tbl_insert (fst r) (snd r)) carried t) k =
      (case map_of carried k of None \<Rightarrow> tbl_get t k | Some v \<Rightarrow> Some v)"
    by (simp add: tbl.get_insert_all map_add_def)
  moreover have "map_option Inr (map_of carried k) = map_option (step_convert step) (tbl_get t k)"
    using assms(2) carry_rows_map_of [of step t carried k] by (simp add: carry_rows_def tbl_iter_def tbl_get_def)
  ultimately show ?thesis by (auto split: option.split)
qed

section \<open>Evolving a family\<close>

text \<open>The rows of an evolution: the family's table converted key by key, every other table as it was, and
  the evolved identity as the table's catalog row.\<close>

definition migrated :: "'r table_descriptor \<Rightarrow> 'r evolution_step \<Rightarrow> 'r store \<Rightarrow> 'r store \<Rightarrow> bool" where
  "migrated d step s t \<longleftrightarrow>
     (\<forall>k. map_option Inr (tbl_get (st_rows t (td_name d)) k) =
        map_option (step_convert step) (tbl_get (st_rows s (td_name d)) k))
     \<and> (\<forall>other. other \<noteq> td_name d \<longrightarrow> st_rows t other = st_rows s other)
     \<and> st_identified_rows t = st_identified_rows s
     \<and> tbl_get (st_catalog t) (td_name d) = Some (registration_new (td_family_identity d))"

lemma carried_migrated:
  assumes "carried_store (td_name d) (registration_new (td_family_identity d))
      carried s t" and "tbl_ok (st_rows s (td_name d))" and "carry_rows step (st_rows s (td_name d)) = Inr carried"
  shows "migrated d step s t"
  using assms carried_rows_get [OF assms(2,3)]
  by (simp add: migrated_def carried_store_def rows_fold_insert table_simps)

lemma migrated_empty:
  "tbl_iter (st_rows s (td_name d)) = [] \<Longrightarrow>
   migrated d step s (catalog_row_insert (td_name d) (registration_new (td_family_identity d)) s)"
  by (simp add: migrated_def catalog_row_insert_def tbl_iter_def table_simps)

lemma same_rows_migrated: "migrated d step s (eng_storage e1) \<Longrightarrow> same_rows e1 e2 \<Longrightarrow> migrated d step s (eng_storage e2)"
  by (simp add: migrated_def same_rows_def)


definition sample_next_descriptor :: "nat table_descriptor" where
  "sample_next_descriptor = with_prior (table_descriptor_new ''notes'' ''note'' [2]) [1] Inr Suc"

definition sample_step :: "nat evolution_step" where
  "sample_step = from_prior [1] Inr Suc"

lemma sample_next_name [simp]: "td_name sample_next_descriptor = ''notes''"
  by (simp add: sample_next_descriptor_def with_prior_def table_descriptor_new_def)


section \<open>The catalog of a registration\<close>

text \<open>What a registration can make of the catalog.\<close>

definition registration_outcome :: "'r table_descriptor \<Rightarrow> 'r engine \<Rightarrow> (error + string) \<Rightarrow> 'r engine \<Rightarrow> bool" where
  "registration_outcome d e r e' \<longleftrightarrow>
     (case r of
        Inl err \<Rightarrow> eng_catalog e' = eng_catalog e
      | Inr name \<Rightarrow> name = td_name d \<and> registered_family e' (td_name d) = Inr (td_family_identity d)
          \<and> (eng_catalog e' = eng_catalog e
             \<or> registration_for_family (eng_catalog e) (td_family_identity d) = None
               \<and> catalog_insert (eng_catalog e) (registration_new (td_family_identity d)) = Inr (eng_catalog e')
             \<or> catalog_evolve (eng_catalog e) (td_name d) (registration_new (td_family_identity d)) =
                 Inr (eng_catalog e')))"

lemma registration_identity_new [simp]: "registration_identity (registration_new f) = f"
  "registration_table_name (registration_new f) = family_table_name f"
  by (simp_all add: registration_new_def registration_table_name_def)

lemma td_identity_name [simp]: "family_table_name (td_family_identity d) = td_name d"
  by (simp add: td_family_identity_def)

lemma evolved_registered:
  "catalog_evolve (eng_catalog e) (td_name d) (registration_new (td_family_identity d)) = Inr (eng_catalog e') \<Longrightarrow>
   registered_family e' (td_name d) = Inr (td_family_identity d)"
  by (simp add: registered_lookup catalog_evolve_lookup)

lemma evolution_catalog:
  assumes "evolution_outcome env d step e (r, e')"
  shows "case r of Inl err \<Rightarrow> eng_catalog e' = eng_catalog e
    | Inr u \<Rightarrow> catalog_evolve (eng_catalog e) (td_name d) (registration_new (td_family_identity d)) =
        Inr (eng_catalog e')"
  using assms maintain_catalog
  by (fastforce simp: evolution_outcome_def evolved_catalog_def lands_one_def)

lemma register_table_catalog:
  assumes ok: "engine_ok env e" and room: "committed_commit_sequence (eng_storage e) \<noteq> - 1"
    and run: "register_table env d e = (r, e')"
  shows "registration_outcome d e r e'"
proof (cases "family_registration_state (eng_catalog e) (td_family_identity d)")
  case (Inr state)
  show ?thesis
  proof (cases state)
    case Existing
    with Inr have "registered_family e (td_name d) = Inr (td_family_identity d)"
      by (cases "registration_for_table (eng_catalog e) (td_name d)")
        (auto simp: family_registration_state_def registered_family_def catalog_family_identity_def
          split: option.splits if_splits)
    with run Inr Existing show ?thesis by (auto simp: register_table_def registration_outcome_def)
  next
    case (NewRegistration registration)
    with Inr have new: "registration = registration_new (td_family_identity d)"
      "registration_for_family (eng_catalog e) (td_family_identity d) = None"
      by (auto simp: family_registration_state_def split: option.splits if_splits)
    have "registered_family e1 (td_name d) = Inr (td_family_identity d)"
      if "catalog_insert (eng_catalog e) registration = Inr (eng_catalog e1)" for e1 :: "'a engine"
      using that new(1) by (simp add: registered_lookup catalog_insert_lookup)
    with run Inr NewRegistration new show ?thesis
      by (cases rule: engine_put_cases [of env "catalog_row_insert (td_name d) registration" e])
        (auto simp: register_table_def Let_def registration_outcome_def bindS_reads split: sum.splits)
  qed
next
  case (Inl err)
  show ?thesis
  proof (cases "\<exists>a b c stored step. err = FamilyIdentityMismatch a b c
      \<and> registered_family e (td_name d) = Inr stored \<and> evolution_step_for d stored = Some step")
    case True
    then obtain a b c stored step where err: "err = FamilyIdentityMismatch a b c"
      and stored: "registered_family e (td_name d) = Inr stored" and step: "evolution_step_for d stored = Some step"
      by blast
    obtain r1 e1 where evolve: "evolve_registered_family env d stored step e = (r1, e1)" by (metis surj_pair)
    have "evolution_outcome env d step e (r1, e1)"
      using evolve_outcome [OF ok room stored, of step] evolve by simp
    note cat = evolution_catalog [OF this]
    show ?thesis
      using run Inl err stored step evolve cat evolved_registered [of e d e1]
      by (cases r1) (auto simp: register_table_def registration_outcome_def)
  next
    case False
    with run Inl show ?thesis
      by (cases "registered_family e (td_name d)"; cases err)
        (auto simp: register_table_def registration_outcome_def split: option.splits)
  qed
qed

lemma shares_identity_key: "shares_family f g \<longleftrightarrow> identity_key_from_identity f = identity_key_from_identity g"
  by (auto simp: shares_family_def identity_key_from_identity_def)

lemma inventory_replace:
  "map registration_identity (replace_first P r c) =
   replace_first P' (registration_identity r) (map registration_identity c)"
  if "\<And>x. P x = P' (registration_identity x)"
  by (induction c) (auto simp: that)

lemma replace_apart:
  assumes apart: "families_apart fams" and f: "\<forall>g \<in> set fams. shares_family g f \<longrightarrow> family_table_name g = family_table_name f"
  shows "families_apart (replace_first (\<lambda>g. family_table_name g = family_table_name f) f fams)"
  using assms
proof (induction fams)
  case (Cons g fams)
  have tail: "families_apart fams" using Cons.prems(1) by (simp add: families_apart_def)
  show ?case
  proof (cases "family_table_name g = family_table_name f")
    case True
    then have fresh: "family_table_name f \<notin> family_table_name ` set fams"
      using Cons.prems(1) by (auto simp: families_apart_def)
    have "identity_key_from_identity f \<notin> identity_key_from_identity ` set fams"
    proof
      assume "identity_key_from_identity f \<in> identity_key_from_identity ` set fams"
      then obtain h where "h \<in> set fams" "shares_family h f" by (auto simp: shares_identity_key)
      with Cons.prems(2) have "h \<in> set fams" "family_table_name h = family_table_name f" by auto
      with fresh show False by (auto simp: image_iff)
    qed
    with True fresh Cons.prems(1) show ?thesis by (simp add: families_apart_def)
  next
    case False
    let ?P = "\<lambda>g. family_table_name g = family_table_name f"
    have sub: "set (replace_first ?P f fams) \<subseteq> insert f (set fams)" by (induction fams) auto
    have "families_apart (replace_first ?P f fams)" using Cons tail by simp
    moreover have "g \<noteq> h \<and> family_table_name g \<noteq> family_table_name h
        \<and> identity_key_from_identity g \<noteq> identity_key_from_identity h" if "h \<in> set (replace_first ?P f fams)" for h
      using that sub False Cons.prems by (auto simp: families_apart_def shares_identity_key)
    ultimately show ?thesis using False by (auto simp: families_apart_def)
  qed
qed (simp add: families_apart_def)

text \<open>The inventory and the well-formedness of a catalog with one more family, and with one evolved.\<close>

lemma inserted_inventory:
  assumes "catalog_insert (eng_catalog e) (registration_new f) = Inr c"
  shows "family_inventory c = family_inventory (eng_catalog e) @ [f]"
    and "family_table_name f \<notin> family_table_name ` set (family_inventory (eng_catalog e))"
proof -
  have "c = eng_catalog e @ [registration_new f]"
    "family_table_name f \<notin> registration_table_name ` set (eng_catalog e)"
    using assms by (auto simp: catalog_insert_def registration_for_table_None split: if_splits)
  then show "family_inventory c = family_inventory (eng_catalog e) @ [f]"
    "family_table_name f \<notin> family_table_name ` set (family_inventory (eng_catalog e))"
    by (simp_all add: family_inventory_def image_image registration_table_name_def)
qed

lemma unbound_shares:
  "registration_for_family c f = None \<Longrightarrow> g \<in> set (family_inventory c) \<Longrightarrow> \<not> shares_family g f"
  by (auto simp: registration_for_family_def find_None_iff family_inventory_def)

lemma inserted_apart:
  assumes "catalog_insert (eng_catalog e) (registration_new f) = Inr c"
    and "registration_for_family (eng_catalog e) f = None" and "catalog_apart e"
  shows "families_apart (family_inventory c)"
proof -
  have "identity_key_from_identity f \<notin> identity_key_from_identity ` set (family_inventory (eng_catalog e))"
    using unbound_shares [OF assms(2)] by (metis imageE shares_identity_key)
  then show ?thesis
    using inserted_inventory [OF assms(1)] assms(3) by (simp add: catalog_apart_def families_apart_def)
qed

lemma evolved_inventory:
  assumes "catalog_evolve c (family_table_name f) (registration_new f) = Inr c'"
  shows "family_inventory c' =
    replace_first (\<lambda>g. family_table_name g = family_table_name f) f (family_inventory c)"
proof -
  have "c' = replace_first (\<lambda>x. registration_table_name x = family_table_name f) (registration_new f) c"
    using assms by (auto simp: catalog_evolve_def split: option.splits)
  then show ?thesis
    by (simp add: family_inventory_def registration_table_name_def
        inventory_replace [of _ "\<lambda>g. family_table_name g = family_table_name f"])
qed

lemma evolved_apart:
  assumes "catalog_evolve (eng_catalog e) (family_table_name f) (registration_new f) = Inr c" and "catalog_apart e"
    and "\<forall>g \<in> set (family_inventory (eng_catalog e)). shares_family g f \<longrightarrow> family_table_name g = family_table_name f"
  shows "families_apart (family_inventory c)"
  using replace_apart [of "family_inventory (eng_catalog e)" f] evolved_inventory [OF assms(1)] assms(2,3)
  by (simp add: catalog_apart_def)



text \<open>The gap: an evolution does not ask whether another table is bound to the identity it evolves to, so
  two tables can end under one family identity, where a new registration would have been refused.\<close>

definition gap_engine :: "nat engine" where
  "gap_engine = sample_engine\<lparr>eng_catalog :=
     [registration_new \<lparr>family = ''note'', family_schema_hash = [2], family_table_name = ''first''\<rparr>,
      registration_new sample_family]\<rparr>"

lemma evolution_binds_family_twice:
  "catalog_apart gap_engine
   \<and> fst (register_table sample_env sample_next_descriptor gap_engine) = Inr ''notes''
   \<and> \<not> catalog_apart (snd (register_table sample_env sample_next_descriptor gap_engine))"
proof -
  have "catalog_apart gap_engine"
    by (simp add: catalog_apart_def families_apart_def family_inventory_def gap_engine_def
        identity_key_from_identity_def sample_family_def)
  moreover have "register_table sample_env sample_next_descriptor gap_engine = (Inr ''notes'',
      gap_engine\<lparr>eng_storage := catalog_row_insert ''notes'' (registration_new (td_family_identity sample_next_descriptor))
          store_empty,
        eng_catalog := [registration_new \<lparr>family = ''note'', family_schema_hash = [2], family_table_name = ''first''\<rparr>,
          registration_new (td_family_identity sample_next_descriptor)]\<rparr>)"
    by (simp add: register_table_def Let_def family_registration_state_def registration_for_table_def gap_engine_def
        sample_family_def sample_next_descriptor_def with_prior_def from_prior_def table_descriptor_new_def
        td_family_identity_def registered_family_def catalog_family_identity_def evolution_step_for_def evolve_registered_family_def
        catalog_evolve_def persist_family_evolution_def carry_rows_def store_read_def tbl_iter_def engine_put_def engine_write_def
        store_write_def)
  ultimately show ?thesis
    by (simp add: catalog_apart_def families_apart_def family_inventory_def identity_key_from_identity_def
        td_family_identity_def sample_next_descriptor_def with_prior_def table_descriptor_new_def)
qed

end
