(* ===== verification/Staging_Theorems.thy ===== *)
theory Staging_Theorems
  imports Rebuild_Theorems
begin

text \<open>
  The staging lifecycle of src/engine.rs and src/staging.rs: what an engaged session keeps away from the
  store, and what materializing a parked group makes durable.
\<close>

section \<open>Sessions\<close>

text \<open>C15 An engaged session isolates: every write of the API except the atomic group goes to the session
  only.  The store, the catalog, the subscribers and the armed fault stay as they are; a refused write
  leaves the buffered entries alone and an accepted one appends exactly one, so that the entries stay one
  digest chain of consecutive sequences over the base the session began at.\<close>

theorem session_isolates:
  assumes "engine_ok env e" and "eng_staging e = Some ss" and "\<nexists>ws. w = DirectAtomic ws"
    and "run_write env w e = (r, e')"
  shows "\<exists>ss'. e' = e\<lparr>eng_staging := Some ss'\<rparr> \<and> engine_ok env e'
    \<and> (case r of Inl err \<Rightarrow> ss_entries ss' = ss_entries ss
       | Inr u \<Rightarrow> \<exists>v. ss_entries ss' = ss_entries ss @ [v])
    \<and> chain_verified env (sb_chain_head (ss_base ss)) (ss_entries ss')
    \<and> sequences_from (sb_commit_sequence (ss_base ss)) (sb_snapshot (ss_base ss)) (ss_entries ss')"
proof -
  have w: "session_writes op_applicable env ss e (r, e')"
    using session_write [OF assms(2,3), of env] assms(4) by simp
  from session_writes_ok(1,3) [OF w assms(1,2)] obtain ss' where ss': "engine_ok env e'"
    "e' = e\<lparr>eng_staging := Some ss'\<rparr>" "staged_outcome op_applicable env ss (r, ss')" by blast
  have good: "session_good env ss'" using ss'(1,2) by (simp add: engine_ok_session)
  have base: "sb_chain_head (ss_base ss') = sb_chain_head (ss_base ss)"
    "sb_commit_sequence (ss_base ss') = sb_commit_sequence (ss_base ss)"
    "sb_snapshot (ss_base ss') = sb_snapshot (ss_base ss)"
    and entries: "case r of Inl err \<Rightarrow> ss_entries ss' = ss_entries ss
       | Inr u \<Rightarrow> \<exists>v. ss_entries ss' = ss_entries ss @ [v]"
    using ss'(3) by (cases r; simp add: staged_outcome_def session_grows_def)+
  have "chain_verified env (sb_chain_head (ss_base ss)) (ss_entries ss')"
    "sequences_from (sb_commit_sequence (ss_base ss)) (sb_snapshot (ss_base ss)) (ss_entries ss')"
    using good by (simp_all add: session_good_def session_ok_def base)
  with ss'(1,2) entries show ?thesis by blast
qed

definition sample_session :: staging_session where
  "sample_session = staging_session_new
     \<lparr>sb_chain_head = None, sb_commit_sequence = 0, sb_snapshot = 0, sb_identified_counters = []\<rparr> ''store'' [7]"

definition sample_engaged :: "nat engine" where
  "sample_engaged = sample_full\<lparr>eng_staging := Some sample_session\<rparr>"

lemma sample_engaged_ok: "engine_ok env sample_engaged"
proof -
  have "session_good env sample_session"
    using session_ok_new [of env] by (simp add: session_good_def sample_session_def)
      (simp add: staging_session_new_def all_operations_def)
  then show ?thesis using sample_full_ok [of env] by (simp add: engine_ok_session sample_engaged_def)
qed

lemma session_isolates_witness:
  "\<exists>r e' ss'. run_write sample_env
       (DirectAssert \<lparr>ka_table = ''notes'', ka_key = Domain ''b'', ka_record = 6\<rparr>) sample_engaged = (r, e')
     \<and> e' = sample_engaged\<lparr>eng_staging := Some ss'\<rparr> \<and> chain_verified sample_env None (ss_entries ss')"
proof -
  let ?w = "DirectAssert \<lparr>ka_table = ''notes'', ka_key = Domain ''b'', ka_record = (6::nat)\<rparr>"
  obtain r e' where run: "run_write sample_env ?w sample_engaged = (r, e')" by (metis surj_pair)
  have "eng_staging sample_engaged = Some sample_session" by (simp add: sample_engaged_def)
  from session_isolates [OF sample_engaged_ok this _ run] run show ?thesis
    by (auto simp: sample_session_def staging_session_new_def)
qed

section \<open>Landing a group, row by row\<close>

definition own_directory :: "family_directory \<Rightarrow> family_identity list \<Rightarrow> bool" where
  "own_directory dir fams \<longleftrightarrow> (\<forall>f \<in> set fams. \<forall>key. dir_materialize dir f key = own_table f key)"

lemma materialize_operation_put:
  assumes run: "materialize_operation env dir s oper = Inr t"
    and dir: "own_directory dir fams" and f: "vop_family oper \<in> set fams" and exact: "op_exact oper"
  obtains key where "vop_key oper = Some key" "op_named env fams oper"
    "t = put_row (family_table_name (vop_family oper)) key (effect_row env oper) s"
proof -
  let ?f = "vop_family oper"
  from run obtain key where key: "vop_key oper = Some key"
    and row: "materialize_row env dir s (view_row_new ?f key (vop_payload oper)) = Inr t"
    by (auto simp: materialize_operation_def bindR_eq_Inr ok_or_eq_Inr)
  have own: "dir_materialize dir ?f key = own_table ?f key" using dir f by (simp add: own_directory_def)
  have applies: "row_applies env dir fams (view_row_new ?f key (vop_payload oper))"
    using row own f
    by (cases key) (auto simp: row_applies_def view_row_new_def own_table_def materialize_row_def
        materializer_apply_def materializer_apply_identified_def bindR_eq_Inr decode_payload_def
        split: versioned_payload.splits sum.splits)
  have effect: "operation_effect oper = payload_bytes (vop_payload oper)"
    using exact by (auto simp: op_exact_def operation_effect_def split: versioned_payload.splits)
  have "op_named env fams oper"
    using applies exact f
    by (cases "vop_payload oper") (auto simp: op_named_def effect row_applies_def view_row_new_def)
  moreover from materialize_row_put [OF applies, of s] row
  have "t = put_row (family_table_name ?f) key (effect_row env oper) s"
    by (simp add: view_row_new_def effect_row_def effect)
  ultimately show thesis using key that by blast
qed

lemma append_commit_planes [simp]:
  "st_rows (append_commit en n s) = st_rows s" "st_identified_rows (append_commit en n s) = st_identified_rows s"
  by (simp_all add: append_commit_def counter_insert_def)

context row_coupling
begin

lemma materialize_operation_coupled:
  assumes "materialize_operation env dir s oper = Inr t" and "own_directory dir fams"
    and "vop_family oper \<in> set fams \<and> op_exact oper" and "Q s L"
  shows "Q t (after_writes [oper] L)"
proof (rule materialize_operation_put [OF assms(1,2)])
  fix key
  assume "vop_key oper = Some key" "op_named env fams oper"
    "t = put_row (family_table_name (vop_family oper)) key (effect_row env oper) s"
  with put [of oper key] assms(4) show ?thesis by (simp add: tracks_def)
qed (use assms in auto)

lemma materialize_operations_coupled:
  assumes "foldR (materialize_operation env dir) s opers = Inr t" and "own_directory dir fams"
    and "\<forall>oper \<in> set opers. vop_family oper \<in> set fams \<and> op_exact oper" and "Q s L"
  shows "Q t (after_writes opers L)"
  using assms(1,3,4)
proof (induction opers arbitrary: s L)
  case (Cons oper opers)
  then obtain u where u: "materialize_operation env dir s oper = Inr u"
    "foldR (materialize_operation env dir) u opers = Inr t" by (auto simp: bindR_eq_Inr)
  have "Q u (after_writes [oper] L)"
    using Cons.prems by (intro materialize_operation_coupled [OF u(1) assms(2)]) auto
  with Cons.IH [OF u(2)] Cons.prems(2) show ?case
    using after_writes_append [of "[oper]" opers L] by simp
qed simp

lemma land_group_entries_coupled:
  assumes "foldR (land_group_entry env dir mirror) (n, s) es = Inr (n', t)" and "own_directory dir fams"
    and "\<forall>oper \<in> set (all_operations es). vop_family oper \<in> set fams \<and> op_exact oper" and "Q s L"
  shows "Q t (after_writes (all_operations es) L)"
  using assms(1,3,4)
proof (induction es arbitrary: n s L)
  case (Cons e es)
  from Cons.prems(1) obtain m u where u: "land_group_entry env dir mirror (n, s) e = Inr (m, u)"
    "foldR (land_group_entry env dir mirror) (m, u) es = Inr (n', t)" by (auto simp: bindR_eq_Inr)
  then obtain s1 where s1: "foldR (materialize_operation env dir) s (ne_list (ve_operations e)) = Inr s1"
    and rows: "st_rows u = st_rows s1" "st_identified_rows u = st_identified_rows s1"
    by (auto simp: land_group_entry_def bindR_eq_Inr Let_def split: prod.splits if_splits)
  have "Q s1 (after_writes (ne_list (ve_operations e)) L)"
    using Cons.prems by (intro materialize_operations_coupled [OF s1 assms(2)]) (auto simp: all_operations_def)
  then have "Q u (after_writes (ne_list (ve_operations e)) L)"
    by (simp add: planes [OF rows])
  with Cons.IH [OF u(2)] Cons.prems(2) show ?case
    by (simp add: all_operations_def after_writes_append)
qed (simp add: all_operations_def)

end

definition same_checkpoints :: "'r store \<Rightarrow> 'r store \<Rightarrow> bool" where
  "same_checkpoints s t \<longleftrightarrow> st_checkpoints t = st_checkpoints s \<and> st_segments t = st_segments s
     \<and> counter_get t latest_checkpoint_key = counter_get s latest_checkpoint_key"

lemma land_group_entry_checkpoints:
  "land_group_entry env dir mirror acc e = Inr acc' \<Longrightarrow> same_checkpoints (snd acc) (snd acc')"
proof -
  assume run: "land_group_entry env dir mirror acc e = Inr acc'"
  then obtain s1 where s1: "foldR (materialize_operation env dir) (snd acc) (ne_list (ve_operations e)) = Inr s1"
    and t: "snd acc' = (let s2 = append_versioned e (snd (fst acc) + 1)
              (append_commit (entry_of_versioned e) (fst (fst acc) + 1) s1)
            in if mirror then outbox_record e s2 else s2)"
    by (auto simp: land_group_entry_def Let_def bindR_eq_Inr case_prod_beta)
  note planes = same_planes_sel [OF materialize_operations_planes [OF s1]]
  then have get: "counter_get s1 = counter_get (snd acc)" by (simp add: counter_get_def fun_eq_iff)
  have "same_checkpoints s1 (snd acc')"
    by (simp add: t Let_def same_checkpoints_def append_commit_def) (simp add: counter_get_def)
  with planes get show ?thesis by (simp add: same_checkpoints_def)
qed

lemma land_group_facts:
  assumes land: "land_group env dir mirror counts g completes s = Inr t"
  obtains n u where "foldR (land_group_entry env dir mirror) ((lc_commits counts, lc_versioned counts), s)
      (sg_entries g) = Inr (n, u)" "st_rows t = st_rows u" "st_identified_rows t = st_identified_rows u"
    "same_checkpoints s t"
proof -
  obtain n s1 where s1: "foldR (land_group_entry env dir mirror) ((lc_commits counts, lc_versioned counts), s)
      (sg_entries g) = Inr (n, s1)"
    and t: "t = clear_in (let s3 = fold (\<lambda>(key, v). identified_counter_insert key v) (tbl_iter (identified_advances g))
          (seal (ve_commit_sequence (last (sg_entries g))) (ve_snapshot (last (sg_entries g))) s1) in
        if completes then s3\<lparr>st_compaction_intent := Some (intent_applied (ve_commit_sequence (last (sg_entries g))))\<rparr>
        else s3)"
    using land by (auto simp: land_group_def bindR_eq_Inr Let_def seal_def)
  have adv: "st_rows (fold (\<lambda>(key, v). identified_counter_insert key v) xs u) = st_rows u"
    "st_identified_rows (fold (\<lambda>(key, v). identified_counter_insert key v) xs u) = st_identified_rows u"
    "st_checkpoints (fold (\<lambda>(key, v). identified_counter_insert key v) xs u) = st_checkpoints u"
    "st_segments (fold (\<lambda>(key, v). identified_counter_insert key v) xs u) = st_segments u"
    "st_counters (fold (\<lambda>(key, v). identified_counter_insert key v) xs u) = st_counters u"
    for xs and u :: "'a store"
    by (induction xs arbitrary: u) (auto simp: identified_counter_insert_def)
  have "same_checkpoints s (snd (n, s1))"
    by (rule foldR_invariant [OF s1, where P = "\<lambda>acc. same_checkpoints s (snd acc)"])
      (auto simp: same_checkpoints_def dest!: land_group_entry_checkpoints)
  moreover have "same_checkpoints s1 t"
    by (simp add: t clear_in_def adv Let_def same_checkpoints_def seal_def counter_insert_def
        counter_get_def table_simps)
  ultimately have "same_checkpoints s t" by (simp add: same_checkpoints_def)
  moreover have "st_rows t = st_rows s1" "st_identified_rows t = st_identified_rows s1"
    by (simp_all add: t clear_in_def adv Let_def)
  ultimately show thesis using that s1 by blast
qed

context row_coupling
begin

lemma land_group_coupled:
  assumes "land_group env dir mirror counts g completes s = Inr t" and "own_directory dir fams"
    and "\<forall>oper \<in> set (all_operations (sg_entries g)). vop_family oper \<in> set fams \<and> op_exact oper" and "Q s L"
  shows "Q t (after_writes (all_operations (sg_entries g)) L)"
proof (rule land_group_facts [OF assms(1)])
  fix n u
  assume u: "foldR (land_group_entry env dir mirror) ((lc_commits counts, lc_versioned counts), s)
      (sg_entries g) = Inr (n, u)" and rows: "st_rows t = st_rows u" "st_identified_rows t = st_identified_rows u"
  from land_group_entries_coupled [OF u assms(2-4)] show ?thesis by (simp add: planes [OF rows])
qed

end

section \<open>Materializing a parked group\<close>

lemma keeps_bind_pair: "P e \<Longrightarrow> (\<And>x. keeps P (f x e)) \<Longrightarrow> keeps P (bindS (r, e) f)"
  by (cases r) simp_all

lemma keeps_materialize:
  assumes "P e" and "\<And>e1 subs. P e1 \<Longrightarrow> P (e1\<lparr>eng_subscriptions := subs\<rparr>)"
    and "\<And>g mirror counts completes. staging_slot (eng_storage e) = Some g \<Longrightarrow>
      keeps P (engine_write env (\<lambda>s. bindR (lift_storage (land_group env dir mirror counts g completes s))
        (\<lambda>s'. Inr ((), s'))) e)"
  shows "keeps P (materialize_staged_group env dir e)"
  unfolding materialize_staged_group_def Let_def
  by (auto simp: assms(1,2) split: option.split prod.split
      intro!: keeps_bind_reads keeps_bind [OF assms(3)] keeps_bind_pair)

definition landed_or_same ::
  "'r engine_env \<Rightarrow> family_directory \<Rightarrow> staged_group \<Rightarrow> 'r engine \<Rightarrow> 'r engine \<Rightarrow> bool" where
  "landed_or_same env dir g e e1 \<longleftrightarrow> eng_storage e1 = eng_storage e
     \<or> (\<exists>mirror counts completes. land_group env dir mirror counts g completes (eng_storage e) = Inr (eng_storage e1))"

lemma materialize_landed_store:
  assumes run: "materialize_staged_group env dir e = (r, e')" and g: "staging_slot (eng_storage e) = Some g"
  shows "landed_or_same env dir g e e'"
proof -
  have "keeps (landed_or_same env dir g e) (engine_write env (\<lambda>s. bindR (lift_storage
      (land_group env dir mirror counts g completes s)) (\<lambda>s'. Inr ((), s'))) e)" for mirror counts completes
    by (auto simp: keeps_def engine_write_def store_write_def bindR_def lift_storage_def landed_or_same_def
        split: sum.splits option.splits)
  then have "keeps (landed_or_same env dir g e) (materialize_staged_group env dir e)"
    using g by (intro keeps_materialize) (auto simp: landed_or_same_def)
  with run show ?thesis by simp
qed

lemma materialize_sequences:
  assumes run: "materialize_staged_group env dir e = (r, e')" and g: "staging_slot (eng_storage e) = Some g"
    and changed: "eng_storage e' \<noteq> eng_storage e"
  shows "sequences_from (committed_commit_sequence (eng_storage e)) (committed_snapshot (eng_storage e)) (sg_entries g)"
proof (rule ccontr)
  assume bad: "\<not> ?thesis"
  have "\<exists>err. verify_group_entries env (committed_commit_sequence (eng_storage e)) (chain_head (eng_storage e))
      (committed_commit_sequence (eng_storage e)) (committed_snapshot (eng_storage e)) (sg_entries g) = Inl err"
    using bad verify_group_entries_Inr by (metis sum.exhaust)
  then have "eng_storage e' = eng_storage e"
    using run g by (auto simp: materialize_staged_group_def Let_def split: if_splits)
  with changed show False by simp
qed

text \<open>A call that does not leave the engine alone has landed the group.\<close>

lemma materialize_lands:
  assumes ok: "engine_ok env e" and fits: "group_fits e" and policy: "eng_policy e \<noteq> None"
    and g: "staging_slot (eng_storage e) = Some g" and run: "materialize_staged_group env dir e = (r, e')"
  obtains (failed) err where "r = Inl err" "e' = e"
  | (landed) mirror counts completes where "group_materialized env dir g e r e'"
    "land_group env dir mirror counts g completes (eng_storage e) = Inr (eng_storage e')"
    "logged_rows env (eng_storage e') = after_writes (all_operations (sg_entries g)) (logged_rows env (eng_storage e))"
proof -
  from materialize_outcome [OF run ok fits] g show thesis
  proof (elim disjE exE conjE)
    fix g'
    assume "staging_slot (eng_storage e) = Some g'" and "group_materialized env dir g' e r e'"
    with g have m: "group_materialized env dir g e r e'" by simp
    then have landed: "group_landed (writes_mirror_outbox (eng_policy e)) g (eng_storage e) (eng_storage e')"
      and ok': "engine_ok env e'" and session: "same_session e e'"
      by (simp_all add: group_materialized_def)
    have "eng_storage e' \<noteq> eng_storage e" using landed g by (auto simp: group_landed_def)
    with materialize_landed_store [OF run g] obtain mirror counts completes where
      land: "land_group env dir mirror counts g completes (eng_storage e) = Inr (eng_storage e')"
      by (auto simp: landed_or_same_def)
    have latest: "latest_checkpoint env (eng_storage e') = latest_checkpoint env (eng_storage e)"
      by (rule land_group_facts [OF land], rule latest_checkpoint_cong) (simp_all add: same_checkpoints_def)
    have seqs: "sequences_from (committed_commit_sequence (eng_storage e)) (committed_snapshot (eng_storage e))
        (sg_entries g)"
      using materialize_sequences [OF run g \<open>eng_storage e' \<noteq> eng_storage e\<close>] .
    have "logged_rows env (eng_storage e') =
        after_writes (all_operations (sg_entries g)) (logged_rows env (eng_storage e))"
      using ok ok' policy session fits g
      by (intro group_landed_content [OF landed _ _ _ latest seqs])
        (auto simp: engine_ok_def history_ok_def same_session_def group_fits_def)
    with m land show thesis by (rule that(2))
  qed (rule that(1))
qed

text \<open>C6 Materializing the parked group is all or nothing, and refines the content: the call fails and the
  engine is as it was, or both logs grow by exactly the parked entries, in order, whatever the announcement
  of the deltas then returns; the counters advance by their number, the chain head is the group's, the slot
  is empty, and the content is the old one after the group's operations.  With a directory that applies
  each row to its family's table, tables coupled to the content stay coupled.\<close>

theorem materialize_lands_group:
  assumes ok: "engine_ok env e" and fits: "group_fits e" and policy: "eng_policy e \<noteq> None"
    and g: "staging_slot (eng_storage e) = Some g" and run: "materialize_staged_group env dir e = (r, e')"
  shows "(\<exists>err. r = Inl err \<and> e' = e)
    \<or> engine_ok env e'
      \<and> group_landed (writes_mirror_outbox (eng_policy e)) g (eng_storage e) (eng_storage e')
      \<and> logged_rows env (eng_storage e') =
          after_writes (all_operations (sg_entries g)) (logged_rows env (eng_storage e))
      \<and> (engine_follows env e \<longrightarrow> catalog_apart e \<longrightarrow> own_directory dir (family_inventory (eng_catalog e)) \<longrightarrow>
          (\<forall>oper \<in> set (all_operations (sg_entries g)).
             vop_family oper \<in> set (family_inventory (eng_catalog e)) \<and> op_exact oper) \<longrightarrow>
          engine_follows env e')"
  using ok fits policy g run
proof (cases rule: materialize_lands)
  case (landed mirror counts completes)
  from landed(1) have session: "same_session e e'" by (simp add: group_materialized_def)
  have "engine_follows env e'" if "engine_follows env e" "catalog_apart e"
    "own_directory dir (family_inventory (eng_catalog e))"
    "\<forall>oper \<in> set (all_operations (sg_entries g)).
       vop_family oper \<in> set (family_inventory (eng_catalog e)) \<and> op_exact oper"
    using follow.land_group_coupled [OF landed(2) that(3,4)] that(1,2) session landed(3)
    by (simp add: engine_follows_def catalog_apart_def same_session_def)
  with landed(1,3) show ?thesis by (simp add: group_materialized_def)
qed blast

definition sample_parked_entry :: versioned_entry where
  "sample_parked_entry = versioned_entry_new sample_env ''store'' [7] 1 1 None (ne_single sample_versioned_operation)"

definition sample_parked :: "nat engine" where
  "sample_parked = sample_engine\<lparr>eng_storage :=
     park_in \<lparr>sg_entries = [sample_parked_entry], sg_retract_pre_images = []\<rparr> store_empty\<rparr>"

lemma sample_parked_ok: "engine_ok env sample_parked"
proof -
  have "op_applicable sample_versioned_operation"
    by (simp add: op_applicable_def sample_versioned_operation_def sample_operation_def)
  then show ?thesis
    using sample_engine_ok [of env]
    by (intro engine_ok_storage [OF sample_engine_ok])
      (auto simp: sample_parked_def all_operations_def sample_parked_entry_def versioned_entry_new_def ne_single_def)
qed

lemma announce_nothing: "announce_all env sample_directory as g = (Inr (), g)"
  by (induction as arbitrary: g) (simp_all add: directory_announce_def sample_directory_def)

lemma sample_parked_entry_sel [simp]:
  "ve_previous_entry_digest sample_parked_entry = None" "ve_commit_sequence sample_parked_entry = 1"
  "ve_snapshot sample_parked_entry = 1" "ne_list (ve_operations sample_parked_entry) = [sample_versioned_operation]"
  "recomputed_digest sample_env sample_parked_entry = ve_entry_digest sample_parked_entry"
proof -
  show "recomputed_digest sample_env sample_parked_entry = ve_entry_digest sample_parked_entry"
    unfolding sample_parked_entry_def by simp
qed (simp_all add: sample_parked_entry_def versioned_entry_new_def ne_single_def)

lemma sample_parked_lands:
  "\<exists>t. land_group sample_env sample_directory mirror counts
     \<lparr>sg_entries = [sample_parked_entry], sg_retract_pre_images = []\<rparr> completes s = Inr t"
proof -
  have "\<exists>u. materialize_operation sample_env sample_directory s sample_versioned_operation = Inr u"
    by (simp add: materialize_operation_def sample_versioned_operation_def sample_operation_def materialize_row_def
        sample_directory_def own_table_def view_row_new_def materializer_apply_def check_table_def decode_payload_def
        sample_env_def)
  then show ?thesis by (auto simp: land_group_def land_group_entry_def Let_def)
qed

lemma sample_parked_materializes:
  "\<exists>receipt e'. materialize_staged_group sample_env sample_directory sample_parked = (Inr receipt, e')"
proof -
  let ?g = "\<lparr>sg_entries = [sample_parked_entry], sg_retract_pre_images = []\<rparr>" and ?s = "eng_storage sample_parked"
  have reads: "staging_slot ?s = Some ?g" "eng_staging sample_parked = None" "chain_head ?s = None"
    "committed_commit_sequence ?s = 0" "committed_snapshot ?s = 0"
    by (simp_all add: sample_parked_def park_in_def staging_slot_def chain_head_def store_empty_def
        committed_commit_sequence_def committed_snapshot_def counter_get_def commit_sequence_genesis_def
        snapshot_genesis_def)
  have head: "base_predecessor ?g = None" "prospective_head ?g = Some (ve_entry_digest sample_parked_entry)"
    by (simp_all add: base_predecessor_def prospective_head_def first_entry_def last_entry_def)
  have verify: "verify_group_entries sample_env 0 None 0 0 [sample_parked_entry] =
      Inr (Some (ve_entry_digest sample_parked_entry))"
    by (simp add: Let_def commit_sequence_next_def snapshot_next_def)
  obtain t where "land_group sample_env sample_directory (writes_mirror_outbox (eng_policy sample_parked))
      (log_counts ?s) ?g (intent_planned_pending ?s) ?s = Inr t" using sample_parked_lands by blast
  then show ?thesis
    by (simp add: materialize_staged_group_def Let_def reads head verify announce_nothing engine_write_def
        store_write_def lift_storage_def commit_sequence_next_def snapshot_next_def)
qed

lemma materialize_lands_group_witness:
  "\<exists>receipt e'. materialize_staged_group sample_env sample_directory sample_parked = (Inr receipt, e')
     \<and> logged_rows sample_env (eng_storage e') =
         after_writes [sample_versioned_operation] (logged_rows sample_env (eng_storage sample_parked))"
proof -
  obtain receipt e' where run: "materialize_staged_group sample_env sample_directory sample_parked = (Inr receipt, e')"
    using sample_parked_materializes by blast
  have slot: "staging_slot (eng_storage sample_parked) =
      Some \<lparr>sg_entries = [sample_parked_entry], sg_retract_pre_images = []\<rparr>"
    by (simp add: sample_parked_def)
  have fits: "group_fits sample_parked"
    by (simp add: group_fits_def slot)
      (simp add: sample_parked_def park_in_def committed_commit_sequence_def counter_get_def store_empty_def
        commit_sequence_genesis_def)
  have "eng_policy sample_parked \<noteq> None" by (simp add: sample_parked_def)
  from materialize_lands_group [OF sample_parked_ok fits this slot run] run show ?thesis
    by (auto simp: all_operations_def)
qed

end
