(* ===== verification/Coupling_Laws.thy ===== *)
theory Coupling_Laws
  imports Evolution_Theorems Staging_Theorems
begin

text \<open>
  The typed tables and the log as one system: what ties them together beyond the rows being the decoded
  content, and that one operation done to both, a maintenance, a rebuild and an evolution keep it.
\<close>

section \<open>The full coupling\<close>

text \<open>The content names registered families only and decodes; no table but theirs holds a row; the tables
  are sorted by key.\<close>

definition content_closed :: "'r engine_env \<Rightarrow> family_identity list \<Rightarrow> (view_key \<Rightarrow> bytes option) \<Rightarrow> bool" where
  "content_closed env fams L \<longleftrightarrow> (\<forall>key bs. L key = Some bs \<longrightarrow>
     (\<exists>f \<in> set fams. \<exists>k. key = view_key_new f k \<and> (\<exists>r. env_from_bytes env (family_table_name f) bs = Inr r)))"

definition rows_homed :: "family_identity list \<Rightarrow> 'r store \<Rightarrow> bool" where
  "rows_homed fams s \<longleftrightarrow> (\<forall>t key. t \<notin> family_table_name ` set fams \<longrightarrow> typed_row s t key = None)"

definition tables_sorted :: "'r store \<Rightarrow> bool" where
  "tables_sorted s \<longleftrightarrow> (\<forall>t. tbl_ok (st_rows s t) \<and> tbl_ok (st_identified_rows s t))"

definition coupled_content ::
  "'r engine_env \<Rightarrow> family_identity list \<Rightarrow> 'r store \<Rightarrow> (view_key \<Rightarrow> bytes option) \<Rightarrow> bool" where
  "coupled_content env fams s L \<longleftrightarrow> families_apart fams \<and> rows_follow env fams s L
     \<and> content_closed env fams L \<and> rows_homed fams s \<and> tables_sorted s"

lemma typed_row_cong:
  "st_rows t = st_rows s \<Longrightarrow> st_identified_rows t = st_identified_rows s \<Longrightarrow> typed_row t = typed_row s"
  by (auto simp: typed_row_def fun_eq_iff split: record_key.split)

lemma tables_sorted_put_row: "tables_sorted s \<Longrightarrow> tables_sorted (put_row table key r s)"
  by (cases key; cases r) (auto simp: tables_sorted_def put_row_def row_insert_def row_remove_def
      identified_insert_def identified_remove_def table_simps)

lemma content_closed_write:
  assumes named: "op_named env fams oper" and key: "vop_key oper = Some key" and closed: "content_closed env fams L"
  shows "content_closed env fams (after_writes [oper] L)"
  unfolding content_closed_def
proof (intro allI impI)
  fix k bs
  assume bs: "after_writes [oper] L k = Some bs"
  show "\<exists>f \<in> set fams. \<exists>key. k = view_key_new f key \<and> (\<exists>r. env_from_bytes env (family_table_name f) bs = Inr r)"
  proof (cases "k = view_key_new (vop_family oper) key")
    case True
    with bs named show ?thesis by (auto simp: after_write [OF key] op_named_def)
  next
    case False
    with bs have "L k = Some bs" by (simp add: after_write [OF key])
    with closed show ?thesis unfolding content_closed_def by blast
  qed
qed

interpretation content: row_coupling env fams "coupled_content env fams"
  for env :: "'r engine_env" and fams
proof
  fix oper key
  assume named: "op_named env fams oper" and key: "vop_key oper = Some key"
  let ?put = "put_row (family_table_name (vop_family oper)) key (effect_row env oper)"
  show "tracks (coupled_content env fams) ?put oper"
    unfolding tracks_def
  proof (intro allI impI)
    fix s :: "'r store" and L
    assume c: "coupled_content env fams s L"
    then have "rows_follow env fams (?put s) (after_writes [oper] L)"
      using follow.put [OF named key] by (simp add: tracks_def coupled_content_def)
    moreover have "rows_homed fams (?put s)"
      using c named by (auto simp: coupled_content_def rows_homed_def typed_row_put_row op_named_def)
    ultimately show "coupled_content env fams (?put s) (after_writes [oper] L)"
      using c by (simp add: coupled_content_def content_closed_write [OF named key] tables_sorted_put_row)
  qed
next
  fix t s :: "'r store" and L
  assume rows: "st_rows t = st_rows s" "st_identified_rows t = st_identified_rows s"
  then show "coupled_content env fams t L = coupled_content env fams s L"
    by (simp add: coupled_content_def rows_follow_cong [OF rows] rows_homed_def tables_sorted_def
        typed_row_cong [OF rows])
qed

section \<open>The identities of the log\<close>

definition log_names :: "'r engine_env \<Rightarrow> 'r store \<Rightarrow> family_identity set \<Rightarrow> bool" where
  "log_names env s F \<longleftrightarrow> (\<forall>c. latest_checkpoint env s = Inr c \<longrightarrow>
     (\<forall>r \<in> set (fst (resume_point c)). vr_family r \<in> F)
     \<and> (\<forall>oper \<in> set (all_operations (log_suffix s c)). vop_family oper \<in> F))"

text \<open>The identities that agree with a catalog: one that shares a registered family is that family.\<close>

definition agreeing :: "family_identity list \<Rightarrow> family_identity set" where
  "agreeing fams = {g. \<forall>f \<in> set fams. shares_family g f \<longrightarrow> g = f}"

lemma registered_agreeing: "families_apart fams \<Longrightarrow> f \<in> set fams \<Longrightarrow> f \<in> agreeing fams"
  by (auto simp: agreeing_def families_apart_def distinct_map shares_identity_key dest: inj_onD)

lemma log_names_appended:
  assumes "logs_ok s" "logs_ok t" and "recoverable env s"
    and "latest_checkpoint env t = latest_checkpoint env s"
    and "versioned_entries t = versioned_entries s @ es"
    and "\<forall>v \<in> set es. committed_commit_sequence s < ve_commit_sequence v"
    and names: "log_names env s F" and ops: "\<forall>oper \<in> set (all_operations es). vop_family oper \<in> F"
  shows "log_names env t F"
proof (rule recoverable_appended [OF assms(1-6)])
  fix c
  assume "latest_checkpoint env s = Inr c" "latest_checkpoint env t = Inr c"
    "log_suffix t c = log_suffix s c @ es"
  with names ops show ?thesis by (auto simp: log_names_def all_operations_append)
qed

lemma resolved_in:
  assumes view: "view_ok view" and touched: "tbl_get (cv_touched view) k \<noteq> None"
    and ids: "\<forall>i g. tbl_get (cv_identities view) i = Some g \<longrightarrow> g \<in> F"
  shows "resolved view k \<in> F"
proof -
  have "tbl_get (cv_identities view) (identity_key_of k) \<noteq> None"
    using view touched unfolding view_ok_def by blast
  then obtain g where g: "tbl_get (cv_identities view) (identity_key_of k) = Some g" by blast
  from ids [rule_format, OF this] show ?thesis by (simp add: resolved_def g)
qed

lemma into_rows_families:
  assumes view: "view_ok view" and rows: "into_rows view inventory = Inr m"
    and ids: "\<forall>i g. tbl_get (cv_identities view) i = Some g \<longrightarrow> g \<in> F" and row: "row \<in> set (materialize_iter m)"
  shows "vr_family row \<in> F"
proof -
  have "tbl_get (cv_touched view) (fst x) \<noteq> None" if "x \<in> set (cv_rows view)" for x
    using row_touched [OF view, of "fst x"] that by simp
  moreover have "tbl_get (cv_touched view) k \<noteq> None" if "k \<in> set (cleared_keys view)" for k
    using that tbl_get_None_iff [of "cv_touched view" k] by (auto simp: cleared_keys_def tbl_iter_def)
  ultimately show ?thesis
    using row into_rows_ok [OF view, of inventory] rows resolved_in [OF view _ ids]
    by (auto simp: materialize_iter_def case_prod_beta view_row_new_def)
qed

section \<open>The coupled engine\<close>

text \<open>What is buffered or parked may land: every operation names a registered family and decodes.\<close>

definition pending_named :: "'r engine_env \<Rightarrow> 'r engine \<Rightarrow> bool" where
  "pending_named env e \<longleftrightarrow>
     (\<forall>ss. eng_staging e = Some ss \<longrightarrow>
        list_all (op_named env (family_inventory (eng_catalog e))) (all_operations (ss_entries ss)))
     \<and> (\<forall>g. staging_slot (eng_storage e) = Some g \<longrightarrow>
        list_all (op_named env (family_inventory (eng_catalog e))) (all_operations (sg_entries g)))"

definition coupled :: "'r engine_env \<Rightarrow> 'r engine \<Rightarrow> bool" where
  "coupled env e \<longleftrightarrow> eng_policy e \<noteq> None
     \<and> coupled_content env (family_inventory (eng_catalog e)) (eng_storage e) (logged_rows env (eng_storage e))
     \<and> log_names env (eng_storage e) (agreeing (family_inventory (eng_catalog e)))
     \<and> pending_named env e"

section \<open>Maintenance\<close>

text \<open>Nothing the coupling reads changes, and the log names no new identity.\<close>

definition quiet :: "'r engine_env \<Rightarrow> 'r engine \<Rightarrow> 'r engine \<Rightarrow> bool" where
  "quiet env e e' \<longleftrightarrow> eng_catalog e' = eng_catalog e \<and> eng_policy e' = eng_policy e
     \<and> eng_staging e' = eng_staging e \<and> staging_slot (eng_storage e') = staging_slot (eng_storage e)
     \<and> st_rows (eng_storage e') = st_rows (eng_storage e)
     \<and> st_identified_rows (eng_storage e') = st_identified_rows (eng_storage e)
     \<and> logged_rows env (eng_storage e') = logged_rows env (eng_storage e)
     \<and> (\<forall>F. log_names env (eng_storage e) F \<longrightarrow> log_names env (eng_storage e') F)"

lemma quiet_coupled: "quiet env e e' \<Longrightarrow> coupled env e \<Longrightarrow> coupled env e'"
  using content.planes [of "eng_storage e'" "eng_storage e" env]
  by (simp add: quiet_def coupled_def pending_named_def)

lemma publish_names:
  assumes ok: "history_ok env (eng_storage e)" and prev: "latest_checkpoint env (eng_storage e) = Inr previous"
    and plan: "checkpoint_plan env e policy previous = Inr (m, segs, n)"
    and addr: "addressable env segs" and room: "committed_commit_sequence (eng_storage e) \<noteq> - 1"
    and names: "log_names env (eng_storage e) F"
  shows "log_names env (publish_checkpoint env m segs (eng_storage e)) F"
proof -
  note keeps = publish_keeps_history [OF ok prev plan addr room]
  obtain view mr where view: "canonical_fold env (fst (resume_point previous))
      (log_suffix (eng_storage e) previous) (resume_head previous) = Inr view"
    and mr: "into_rows view (family_inventory (eng_catalog e)) = Inr mr" "segs = chunk (mr_rows mr)"
    using checkpoint_plan_Inr(7) [OF plan] by blast
  have "\<forall>i g. tbl_get (cv_identities view) i = Some g \<longrightarrow> g \<in> F"
    using names prev by (intro fold_identities [OF view]) (auto simp: log_names_def)
  from into_rows_families [OF canonical_fold_ok [OF view] mr(1) this]
  have "\<forall>r \<in> set (mr_rows mr). vr_family r \<in> F" by (simp add: materialize_iter_def)
  moreover have "concat (map seg_rows segs) = mr_rows mr" by (simp add: mr(2))
  ultimately show ?thesis
    by (simp add: log_names_def keeps all_operations_def resume_point_def checkpoint_rows_def del: set_concat)
qed

lemma prune_names:
  assumes ok: "history_ok env s" and latest: "latest_checkpoint env s = Inr (Some c)"
    and room: "committed_commit_sequence s \<noteq> - 1" and names: "log_names env s F"
  shows "log_names env (prune_history env (ck_metadata c) s) F"
  using prune_keeps_history(2,3) [OF ok latest room] names latest
  by (simp add: log_names_def resume_point_def checkpoint_rows_def)

lemma history_slot [simp]:
  "staging_slot (publish_checkpoint env m segs s) = staging_slot s"
  "staging_slot (prune_history env m s) = staging_slot s"
  by (simp_all add: staging_slot_def publish_checkpoint_def counter_insert_def prune_history_def Let_def
      case_prod_beta compact_acknowledged_through_def compact_through_def)

text \<open>A relation that history maintenance stays in and that the compaction's own bookkeeping does not leave.\<close>

locale compaction_effect = history_effect +
  assumes intent: "R e (e\<lparr>eng_storage := put_intent i (eng_storage e)\<rparr>)"
    and fault: "R e (e\<lparr>eng_fault := f\<rparr>)"
begin

lemma interrupt_effect: "R e e1 \<Longrightarrow> keeps (R e) (interrupt_compaction_at phase e1)"
  by (auto simp: interrupt_compaction_at_def intro: trans fault)

lemma publish_compaction_effect:
  assumes run: "publish_compaction_checkpoint env i e = (r, e')" and ok: "engine_ok env e"
    and room: "committed_commit_sequence (eng_storage e) \<noteq> - 1" and addr: "segments_addressable env e"
  shows "R e e'"
proof -
  have taken: "keeps (R e) (take_checkpoint env e)"
    using take_checkpoint_effect [OF ok room addr] by (cases "take_checkpoint env e") simp
  have "keeps (R e) (publish_compaction_checkpoint env i e)"
    unfolding publish_compaction_checkpoint_def Let_def
    by (intro keeps_bind_reads keeps_bind [of "R e"] refl)
      (auto simp: refl intro!: keeps_bind [OF taken] keeps_bind keeps_put interrupt_effect intro: trans [OF _ intent])
  with run show ?thesis by simp
qed

lemma finish_compaction_effect:
  assumes run: "finish_compaction env e = (r, e')" and ok: "engine_ok env e"
    and room: "committed_commit_sequence (eng_storage e) \<noteq> - 1" and addr: "segments_addressable env e"
  shows "R e e'"
proof -
  have "keeps (R e) (compact_configured_versioned_history env e)"
    using configured_effect [OF ok room addr] by (cases "compact_configured_versioned_history env e") simp
  then have "keeps (R e) (finish_compaction env e)"
    unfolding finish_compaction_def
    by (auto intro!: keeps_bind keeps_put interrupt_effect intro: trans [OF _ intent])
  with run show ?thesis by simp
qed

end

text \<open>A store that reads the same history has the same content and names the same identities.\<close>

lemma history_reads_content:
  assumes "history_reads s t"
  shows "logged_rows env t = logged_rows env s" and "log_names env t F = log_names env s F"
proof -
  have "latest_checkpoint env t = latest_checkpoint env s"
    using assms by (intro latest_checkpoint_cong) (simp_all add: history_reads_def)
  moreover have "log_suffix t c = log_suffix s c" for c
    using assms by (simp add: history_reads_def log_suffix_def versioned_entries_from_def)
  ultimately show "logged_rows env t = logged_rows env s" "log_names env t F = log_names env s F"
    by (cases "latest_checkpoint env s"; simp add: logged_rows_def log_names_def)+
qed

lemmas same_history_content = history_reads_content [OF history_reads_same]

interpretation quiet: compaction_effect env "quiet env" for env :: "'r engine_env"
proof
  fix e :: "'r engine" and policy previous m segs n
  assume "engine_ok env e" "eng_policy e = Some policy" and plan: "latest_checkpoint env (eng_storage e) = Inr previous"
    "checkpoint_plan env e policy previous = Inr (m, segs, n)" "addressable env segs"
    "committed_commit_sequence (eng_storage e) \<noteq> - 1"
  then have ok: "history_ok env (eng_storage e)" by (simp add: engine_ok_def)
  show "quiet env e (e\<lparr>eng_storage := publish_checkpoint env m segs (eng_storage e)\<rparr>)"
    using publish_content [OF ok plan] publish_names [OF ok plan] by (simp add: quiet_def)
next
  fix e :: "'r engine" and c
  assume "engine_ok env e" "eng_policy e \<noteq> None" and latest: "latest_checkpoint env (eng_storage e) = Inr (Some c)"
    "committed_commit_sequence (eng_storage e) \<noteq> - 1"
  then have ok: "history_ok env (eng_storage e)" by (simp add: engine_ok_def)
  show "quiet env e (e\<lparr>eng_storage := prune_history env (ck_metadata c) (eng_storage e)\<rparr>)"
    using prune_content [OF ok latest] prune_names [OF ok latest] by (simp add: quiet_def)
next
  fix e :: "'r engine" and i
  have intent: "same_history (eng_storage e) (put_intent i (eng_storage e))" by simp
  show "quiet env e (e\<lparr>eng_storage := put_intent i (eng_storage e)\<rparr>)"
    using same_history_content [OF intent] same_history_reads(8) [OF intent]
    by (simp add: quiet_def) (simp add: put_intent_def)
qed (simp_all add: quiet_def)

end
