(* ===== verification/Coupling_Steps.thy ===== *)
theory Coupling_Steps
  imports Coupling_Laws
begin

text \<open>
  Every operation of the engine keeps the coupling of the record tables to the log: direct writes and
  buffered ones, landing a parked group, rebuilding, registering a family and evolving one.
\<close>

section \<open>Direct writes\<close>

lemma write_logs_named:
  assumes logs: "write_logs env e w opers" and codec: "codec env" and policy: "eng_policy e \<noteq> None"
  shows "list_all (op_named env (family_inventory (eng_catalog e))) opers"
proof -
  note named = logged_op_named(1) [OF _ codec policy]
  show ?thesis
  proof (cases w)
    case (DirectCommit q)
    then obtain fam where fam: "registered_family e (crq_table q) = Inr fam"
      "list_all2 (write_logged env (crq_table q) fam) (crq_operations q) opers"
      using logs by auto
    have "op_named env (family_inventory (eng_catalog e)) vop" if "write_logged env (crq_table q) fam x vop" for x vop
      using named [OF write_logged_op [OF that fam(1)]] by (cases x) auto
    with fam(2) show ?thesis by (auto simp: list_all2_conv_all_nth list_all_length)
  next
    case (DirectAtomic ws)
    have "op_named env (family_inventory (eng_catalog e)) vop" if "aw_logged env e x vop" for x vop
      using named [OF aw_logged_op [OF that]] by (cases "aw_kind x") auto
    with logs DirectAtomic show ?thesis by (auto simp: list_all2_conv_all_nth list_all_length)
  qed (use logs named in \<open>auto simp: list_all_iff\<close>)
qed

lemma lands_names:
  assumes lands: "lands_one env e e1" and ok: "engine_ok env e" and policy: "eng_policy e \<noteq> None"
    and room: "committed_commit_sequence (eng_storage e) \<noteq> - 1"
    and entries: "versioned_entries (eng_storage e1) = versioned_entries (eng_storage e) @ [v]"
    and names: "log_names env (eng_storage e) F"
    and ops: "\<forall>oper \<in> set (ne_list (ve_operations v)). vop_family oper \<in> F"
  shows "log_names env (eng_storage e1) F"
proof (rule log_names_appended)
  show "\<forall>x \<in> set [v]. committed_commit_sequence (eng_storage e) < ve_commit_sequence x"
    using lands policy entries next_sequence_above [OF room]
    by (auto simp: lands_one_def appends_commit_def split: option.splits)
  show "latest_checkpoint env (eng_storage e1) = latest_checkpoint env (eng_storage e)"
    using lands by (auto simp: lands_one_def appends_commit_def)
  show "logs_ok (eng_storage e)" "logs_ok (eng_storage e1)" "recoverable env (eng_storage e)"
    using ok lands policy by (auto simp: lands_one_def engine_ok_def history_ok_def)
qed (use assms in \<open>auto simp: all_operations_def\<close>)

lemma lands_effect_coupled:
  assumes effect: "lands_effect env e w e1" and ok: "engine_ok env e"
    and room: "committed_commit_sequence (eng_storage e) \<noteq> - 1" and coupled: "coupled env e"
    and codec: "codec env" and keyed: "domain_keyed env w"
  shows "coupled env e1"
proof -
  let ?fams = "family_inventory (eng_catalog e)"
  have policy: "eng_policy e \<noteq> None" and content: "coupled_content env ?fams (eng_storage e) (logged_rows env (eng_storage e))"
    and names: "log_names env (eng_storage e) (agreeing ?fams)" and pending: "pending_named env e"
    using coupled by (simp_all add: coupled_def)
  have lands: "lands_one env e e1" using effect by (simp add: lands_effect_def)
  from lands_one_content [OF lands ok policy room] effect policy obtain v where
    v: "versioned_entries (eng_storage e1) = versioned_entries (eng_storage e) @ [v]"
    "logged_rows env (eng_storage e1) = after_writes (ne_list (ve_operations v)) (logged_rows env (eng_storage e))"
    "write_logs env e w (ne_list (ve_operations v))"
    by (auto simp: lands_effect_def)
  have "coupled_content env ?fams (write_rows env w (eng_storage e)) (logged_rows env (eng_storage e1))"
    using content.write_coupled [OF v(3) keyed codec policy refl content refl] v(2) by simp
  then have "coupled_content env ?fams (eng_storage e1) (logged_rows env (eng_storage e1))"
    using effect content.planes [of "eng_storage e1" "write_rows env w (eng_storage e)"] by (simp add: lands_effect_def)
  moreover have "log_names env (eng_storage e1) (agreeing ?fams)"
  proof (rule lands_names [OF lands ok policy room v(1) names])
    have "families_apart ?fams" using content by (simp add: coupled_content_def)
    with write_logs_named [OF v(3) codec policy]
    show "\<forall>oper \<in> set (ne_list (ve_operations v)). vop_family oper \<in> agreeing ?fams"
      by (auto simp: list_all_iff op_named_def intro: registered_agreeing)
  qed
  ultimately show ?thesis
    using lands policy pending by (simp add: coupled_def pending_named_def lands_one_def)
qed

lemma quiet_maintained:
  assumes lands: "lands_one env e e1" and room: "has_room e" and addr: "commits_addressable env e"
    and run: "maintain_versioned_history env e1 = (r, e')"
  shows "quiet env e1 e'"
proof (cases "over_retention e1")
  case True
  have "committed_commit_sequence (eng_storage e1) = committed_commit_sequence (eng_storage e) + 1"
    "engine_ok env e1"
    using lands by (auto simp: lands_one_def appends_commit_def)
  with True has_room_words [OF room] lands addr show ?thesis
    using quiet.maintain_effect [of env e1 r e'] run by (simp add: commits_addressable_def)
next
  case False
  from maintain_within [OF this run] show ?thesis by (simp add: quiet.refl)
qed

lemma settles_coupled:
  assumes "settles_effect env e w (r, e')" and ok: "engine_ok env e" and room: "has_room e"
    and addr: "commits_addressable env e" and coupled: "coupled env e" and codec: "codec env"
    and keyed: "domain_keyed env w"
  shows "coupled env e'"
proof -
  note landed = lands_effect_coupled [OF _ ok has_room_words(1) [OF room] coupled codec keyed]
  consider "e' = e" | "lands_effect env e w e'"
    | e1 where "lands_effect env e w e1" "maintain_versioned_history env e1 = (r, e')"
    using assms(1) by (auto simp: settles_effect_def)
  then show ?thesis
  proof cases
    case (3 e1)
    then have "quiet env e1 e'" using quiet_maintained [OF _ room addr] by (simp add: lands_effect_def)
    with landed [OF 3(1)] show ?thesis by (rule quiet_coupled [rotated])
  qed (use coupled landed in auto)
qed

lemma atomic_settles_effect:
  assumes ok: "engine_ok env e" and room: "committed_commit_sequence (eng_storage e) \<noteq> - 1"
  shows "settles_effect env e (DirectAtomic ws) (run_write env (DirectAtomic ws) e)"
  unfolding run_write.simps
  by (rule settles_effect_finish [OF commit_atomic_outcome])
    (use ok in \<open>auto intro!: lands_atomic_effect lands_atomic_one room simp: engine_ok_def\<close>)

section \<open>Buffered writes\<close>

interpretation named: staged_writes env e "\<lambda>oper. codec env \<longrightarrow> op_named env (family_inventory (eng_catalog e)) oper"
  for env and e :: "'r engine"
proof
  fix table fam r payload oper key
  assume fam: "registered_family e table = Inr fam" and payload: "versioned_record_payload env table r = Inr payload"
    and oper: "oper \<in> {Assert, Mutate}"
  from payload obtain bs where bs: "env_to_bytes env r = Inr bs" "payload = PayloadRecord bs"
    by (auto simp: versioned_record_payload_Inr)
  then show "codec env \<longrightarrow> op_named env (family_inventory (eng_catalog e))
      \<lparr>vop_operation = oper, vop_family = fam, vop_key = Some key, vop_payload = payload\<rparr>"
    using registered_family_member [OF fam] oper
    by (auto simp: op_named_def op_exact_def operation_effect_def codec_def)
next
  fix table fam key
  assume "registered_family e table = Inr fam"
  from registered_family_member [OF this]
  show "codec env \<longrightarrow> op_named env (family_inventory (eng_catalog e))
      \<lparr>vop_operation = Retract, vop_family = fam, vop_key = Some key, vop_payload = Tombstone\<rparr>"
    by (simp add: op_named_def op_exact_def operation_effect_def)
qed

lemma session_coupled:
  assumes run: "run_write env w e = (r, e')" and ss: "eng_staging e = Some ss" and w: "\<nexists>ws. w = DirectAtomic ws"
    and ok: "engine_ok env e" and coupled: "coupled env e" and codec: "codec env"
  shows "coupled env e'"
proof -
  let ?fams = "family_inventory (eng_catalog e)"
  from named.session_write [OF ss w, of env] run obtain ss' where e': "e' = e\<lparr>eng_staging := Some ss'\<rparr>"
    and grows: "session_grows (\<lambda>oper. codec env \<longrightarrow> op_named env ?fams oper) env ss ss'"
    by (auto simp: session_writes_def staged_outcome_def)
  have "session_ok env ss" using ok ss by (simp add: engine_ok_def)
  with grows coupled ss codec have "list_all (op_named env ?fams) (all_operations (ss_entries ss'))"
    by (simp add: session_grows_def session_holds_def coupled_def pending_named_def)
  with coupled show ?thesis by (simp add: e' coupled_def pending_named_def)
qed

lemma direct_write_coupled:
  assumes run: "run_write env w e = (r, e')" and room: "has_room e" and addr: "commits_addressable env e"
    and ok: "engine_ok env e" and coupled: "coupled env e" and codec: "codec env" and keyed: "domain_keyed env w"
  shows "coupled env e'"
proof (cases "eng_staging e = None \<or> (\<exists>ws. w = DirectAtomic ws)")
  case True
  then have "settles_effect env e w (r, e')"
    using run_write_effect [OF _ ok has_room_words(1) [OF room]]
      atomic_settles_effect [OF ok has_room_words(1) [OF room]] run by metis
  then show ?thesis by (rule settles_coupled [OF _ ok room addr coupled codec keyed])
next
  case False
  then obtain ss where "eng_staging e = Some ss" by auto
  with False session_coupled [OF run _ _ ok coupled codec] show ?thesis by blast
qed

section \<open>The staging lifecycle\<close>

text \<open>An operation that leaves the history, the rows and the catalog alone keeps the coupling when what it
  buffers or parks names registered families.\<close>

lemma coupled_frame:
  assumes "coupled env e" and history: "history_reads (eng_storage e) (eng_storage e')"
    and rows: "st_rows (eng_storage e') = st_rows (eng_storage e)"
      "st_identified_rows (eng_storage e') = st_identified_rows (eng_storage e)"
    and "eng_catalog e' = eng_catalog e" and "eng_policy e' = eng_policy e" and "pending_named env e'"
  shows "coupled env e'"
  using assms by (simp add: coupled_def history_reads_content [OF history] content.planes [OF rows])

lemma park_in_rows [simp]:
  "st_rows (park_in g s) = st_rows s" "st_identified_rows (park_in g s) = st_identified_rows s"
  "st_rows (clear_in s) = st_rows s" "st_identified_rows (clear_in s) = st_identified_rows s"
  "st_rows (put_intent i s) = st_rows s" "st_identified_rows (put_intent i s) = st_identified_rows s"
  by (simp_all add: park_in_def clear_in_def put_intent_def)

lemma coupled_pending: "coupled env e \<Longrightarrow> pending_named env e"
  by (simp add: coupled_def)

lemma begin_coupled:
  assumes run: "begin_staged_group env e = (r, e')" and coupled: "coupled env e"
  shows "coupled env e'"
proof (rule coupled_frame [OF coupled])
  show "pending_named env e'"
    using run coupled_pending [OF coupled]
    by (auto simp: begin_staged_group_def pending_named_def staging_session_new_def all_operations_def
        split: option.splits if_splits)
qed (use run in \<open>auto simp: begin_staged_group_def split: option.splits if_splits\<close>)

lemma parked_coupled:
  assumes coupled: "coupled env e" and ss: "eng_staging e = Some ss"
    and s: "history_reads (eng_storage e) s" "staging_slot s = Some (into_group ss)"
      "st_rows s = st_rows (eng_storage e)" "st_identified_rows s = st_identified_rows (eng_storage e)"
  shows "coupled env (e\<lparr>eng_staging := None, eng_storage := s\<rparr>)"
  using s coupled_pending [OF coupled] ss
  by (intro coupled_frame [OF coupled]) (simp_all add: pending_named_def into_group_def)

lemma closed_coupled: "coupled env e \<Longrightarrow> coupled env (e\<lparr>eng_staging := None\<rparr>)"
  by (simp add: coupled_def pending_named_def)

lemma coupled_fault [simp]: "coupled env (e\<lparr>eng_fault := f\<rparr>) = coupled env e"
  by (simp add: coupled_def pending_named_def)

lemma park_coupled:
  assumes run: "park_staged_group env e = (r, e')" and coupled: "coupled env e"
  shows "coupled env e'"
  using run
proof (cases rule: park_staged_group_cases)
  case (parked ss)
  with parked_coupled [OF coupled parked(1), of "park_in (into_group ss) (eng_storage e)"] show ?thesis by simp
qed (use coupled closed_coupled in auto)

lemma park_compaction_coupled:
  assumes run: "park_compaction env e = (r, e')" and coupled: "coupled env e"
  shows "coupled env e'"
  using run
proof (cases rule: park_compaction_cases)
  case (parked ss f)
  with parked_coupled [OF coupled parked(1), of "put_intent (Some intent_planned) (park_in (into_group ss) (eng_storage e))"]
  show ?thesis by (simp only: coupled_fault planned_in_reads park_in_rows)
qed (use coupled closed_coupled in auto)

lemma discard_coupled:
  assumes run: "discard_staged_group env e = (r, e')" and coupled: "coupled env e"
  shows "coupled env e'"
proof -
  have "coupled env (e\<lparr>eng_storage := clear_in (eng_storage e)\<rparr>)"
    using coupled_pending [OF coupled] by (intro coupled_frame [OF coupled]) (simp_all add: pending_named_def)
  with discard_staged_group_cases [OF run] coupled show ?thesis by auto
qed

section \<open>Landing a parked group\<close>

lemma materialize_coupled:
  assumes run: "materialize_staged_group env dir e = (r, e')" and ok: "engine_ok env e" and fits: "group_fits e"
    and coupled: "coupled env e" and dir: "own_directory dir (family_inventory (eng_catalog e))"
  shows "coupled env e'"
proof (cases "staging_slot (eng_storage e)")
  case None
  with materialize_outcome [OF run ok fits] coupled show ?thesis by auto
next
  case (Some g)
  let ?fams = "family_inventory (eng_catalog e)"
  have policy: "eng_policy e \<noteq> None" and content: "coupled_content env ?fams (eng_storage e) (logged_rows env (eng_storage e))"
    and names: "log_names env (eng_storage e) (agreeing ?fams)" and pending: "pending_named env e"
    using coupled by (simp_all add: coupled_def)
  have ops: "\<forall>oper \<in> set (all_operations (sg_entries g)). op_named env ?fams oper"
    using pending Some by (simp add: pending_named_def list_all_iff)
  show ?thesis
    using ok fits policy Some run
  proof (cases rule: materialize_lands)
    case (landed mirror counts completes)
    from landed(1) have m: "group_landed (writes_mirror_outbox (eng_policy e)) g (eng_storage e) (eng_storage e')"
      "same_session e e'" "engine_ok env e'"
      by (simp_all add: group_materialized_def)
    have "coupled_content env ?fams (eng_storage e') (logged_rows env (eng_storage e'))"
      unfolding landed(3)
      by (rule content.land_group_coupled [OF landed(2) dir _ content]) (use ops in \<open>auto simp: op_named_def\<close>)
    moreover have "log_names env (eng_storage e') (agreeing ?fams)"
    proof (rule log_names_appended)
      show "versioned_entries (eng_storage e') = versioned_entries (eng_storage e) @ sg_entries g"
        by (rule group_landed_entries [OF m(1)])
      have "eng_storage e' \<noteq> eng_storage e" using m(1) Some by (auto simp: group_landed_def)
      from materialize_sequences [OF run Some this]
      show "\<forall>v \<in> set (sg_entries g). committed_commit_sequence (eng_storage e) < ve_commit_sequence v"
        using fits Some by (intro sequences_above) (simp_all add: group_fits_def)
      show "latest_checkpoint env (eng_storage e') = latest_checkpoint env (eng_storage e)"
        by (rule land_group_facts [OF landed(2)], rule latest_checkpoint_cong) (simp_all add: same_checkpoints_def)
      have "families_apart ?fams" using content by (simp add: coupled_content_def)
      with ops show "\<forall>oper \<in> set (all_operations (sg_entries g)). vop_family oper \<in> agreeing ?fams"
        by (auto simp: op_named_def intro: registered_agreeing)
    qed (use ok m policy names in \<open>auto simp: engine_ok_def history_ok_def same_session_def\<close>)
    moreover have "pending_named env e'"
      using m pending by (simp add: pending_named_def same_session_def group_landed_def)
    ultimately show ?thesis using m policy by (simp add: coupled_def same_session_def)
  qed (use coupled in simp)
qed

section \<open>Other bookkeeping\<close>

lemma acknowledge_coupled:
  assumes run: "acknowledge_mirror env head e = (r, e')" and coupled: "coupled env e"
  shows "coupled env e'"
proof -
  obtain s where e': "e' = e\<lparr>eng_storage := s\<rparr>" and
    s: "s = eng_storage e \<or> s = (eng_storage e)\<lparr>st_mirror_cursor := Some head\<rparr>"
    using run by (rule acknowledge_mirror_cases)
  have "history_reads (eng_storage e) s" "st_rows s = st_rows (eng_storage e)"
    "st_identified_rows s = st_identified_rows (eng_storage e)" "staging_slot s = staging_slot (eng_storage e)"
    using s by (auto simp: history_reads_def staging_slot_def committed_commit_sequence_def log_counts_def counter_get_def)
  then show ?thesis
    unfolding e' using coupled_pending [OF coupled]
    by (intro coupled_frame [OF coupled]) (simp_all add: pending_named_def)
qed

end
