(* ===== verification/Coupling_Rebuild.thy ===== *)
theory Coupling_Rebuild
  imports Coupling_Steps
begin

text \<open>
  Rebuilding a coupled engine (src/engine.rs \<open>rebuild_from_log\<close>): the tombstones of the fold may name
  retired identities and clear rows of the table a live family took over, but the live rows come after
  them and put everything back, so the store is the one before.
\<close>

section \<open>Stores by their rows\<close>

lemma typed_rows_ext:
  assumes sorted: "tables_sorted s" "tables_sorted t" and rows: "\<And>tab key. typed_row t tab key = typed_row s tab key"
  shows "st_rows t = st_rows s" and "st_identified_rows t = st_identified_rows s"
proof -
  have "st_rows t tab = st_rows s tab" for tab
    using sorted rows [of tab "Domain k" for k]
    by (intro tbl_ext) (auto simp: tables_sorted_def typed_row_def fun_eq_iff)
  moreover have "st_identified_rows t tab = st_identified_rows s tab" for tab
    using sorted rows [of tab "Identifier i" for i]
    by (intro tbl_ext) (auto simp: tables_sorted_def typed_row_def fun_eq_iff)
  ultimately show "st_rows t = st_rows s" "st_identified_rows t = st_identified_rows s" by auto
qed

lemma rows_homedD: "rows_homed fams s \<Longrightarrow> typed_row s tab key = Some r \<Longrightarrow> \<exists>f \<in> set fams. tab = family_table_name f"
  by (cases "tab \<in> family_table_name ` set fams") (auto simp: rows_homed_def)

text \<open>Every row is the one of \<open>s0\<close> or missing.\<close>

definition thinned :: "'r store \<Rightarrow> 'r store \<Rightarrow> bool" where
  "thinned s0 t \<longleftrightarrow> tables_sorted t
     \<and> (\<forall>tab key. typed_row t tab key = typed_row s0 tab key \<or> typed_row t tab key = None)"

lemma thinned_put:
  "thinned s0 t \<Longrightarrow> r = None \<or> r = typed_row s0 table key \<Longrightarrow> thinned s0 (put_row table key r t)"
  by (auto simp: thinned_def tables_sorted_put_row typed_row_put_row)

section \<open>Directories\<close>

text \<open>What a component's directory may do: the rows of a registered family go to its table; those of an
  identity the catalog no longer carries go to the table it names or nowhere.\<close>

definition faithful_directory :: "family_directory \<Rightarrow> family_identity list \<Rightarrow> bool" where
  "faithful_directory dir fams \<longleftrightarrow> (\<forall>f key. dir_materialize dir f key = own_table f key
     \<or> f \<notin> set fams \<and> dir_materialize dir f key = MaterializeNothing)"

lemma faithful_own: "faithful_directory dir fams \<Longrightarrow> own_directory dir fams"
  by (auto simp: faithful_directory_def own_directory_def)

lemma clear_row_thins:
  assumes "faithful_directory dir fams" and "vr_payload row = Tombstone" and "thinned s0 t"
  shows "\<exists>u. materialize_row env dir t row = Inr u \<and> thinned s0 u"
proof (cases "dir_materialize dir (vr_family row) (vr_key row) = own_table (vr_family row) (vr_key row)")
  case True
  with assms(2) have "row_applies env dir [vr_family row] row" by (simp add: row_applies_def)
  from materialize_row_put [OF this, of t] assms(2,3) show ?thesis by (simp add: decoded_def thinned_put)
next
  case False
  with assms(1) have "dir_materialize dir (vr_family row) (vr_key row) = MaterializeNothing"
    unfolding faithful_directory_def by blast
  with assms(3) show ?thesis by (simp add: materialize_row_def)
qed

lemma clear_rows_thin:
  assumes "faithful_directory dir fams" and "\<forall>row \<in> set rows. vr_payload row = Tombstone" and "thinned s0 t"
  shows "\<exists>u. materialize_rows_in env dir rows t = Inr u \<and> thinned s0 u"
  using assms(2,3)
proof (induction rows arbitrary: t)
  case (Cons row rows)
  from clear_row_thins [OF assms(1), of row s0 t env] Cons.prems obtain u where
    u: "materialize_row env dir t row = Inr u" "thinned s0 u" by auto
  with Cons.IH [of u] Cons.prems show ?case by (simp add: materialize_rows_in_def)
qed (simp add: materialize_rows_in_def)

text \<open>Rows with the payloads of \<open>s0\<close> put its rows back at every key they mention.\<close>

definition own_row :: "'r engine_env \<Rightarrow> 'r store \<Rightarrow> view_row \<Rightarrow> bool" where
  "own_row env s0 row \<longleftrightarrow> typed_row s0 (family_table_name (vr_family row)) (vr_key row) =
     decoded env (family_table_name (vr_family row)) (payload_bytes (vr_payload row))"

lemma restore_rows:
  assumes "list_all (\<lambda>row. row_applies env dir fams row \<and> own_row env s0 row) rows" and "thinned s0 t"
  shows "\<exists>u. materialize_rows_in env dir rows t = Inr u \<and> thinned s0 u
    \<and> (\<forall>row \<in> set rows. typed_row u (family_table_name (vr_family row)) (vr_key row) =
         typed_row s0 (family_table_name (vr_family row)) (vr_key row))"
  using assms(1)
proof (induction rows rule: rev_induct)
  case Nil
  with assms(2) show ?case by (simp add: materialize_rows_in_def)
next
  case (snoc row rows)
  from snoc obtain u where u: "materialize_rows_in env dir rows t = Inr u" "thinned s0 u"
    "\<forall>row \<in> set rows. typed_row u (family_table_name (vr_family row)) (vr_key row) =
       typed_row s0 (family_table_name (vr_family row)) (vr_key row)" by auto
  let ?r = "typed_row s0 (family_table_name (vr_family row)) (vr_key row)"
  let ?w = "put_row (family_table_name (vr_family row)) (vr_key row) ?r u"
  have "row_applies env dir fams row" "own_row env s0 row" using snoc.prems by auto
  with materialize_row_put [of env dir fams row u] have "materialize_row env dir u row = Inr ?w"
    by (simp add: own_row_def)
  with u(1) have "materialize_rows_in env dir (rows @ [row]) t = Inr ?w"
    by (simp add: materialize_rows_in_def foldR_append)
  with u(2,3) show ?case by (auto simp: thinned_put typed_row_put_row)
qed

section \<open>The rows a rebuild applies\<close>

lemma agreeing_resolved:
  assumes "g \<in> agreeing fams" and "f \<in> set fams" and "view_key_new g k = view_key_new f k'"
  shows "g = f"
  using assms by (auto simp: agreeing_def view_key_new_def shares_family_def)

lemma rebuild_same:
  assumes content: "coupled_content env fams s (tbl_get (cv_rows view))" and view: "view_ok view"
    and rows: "into_rows view fams = Inr m" and dir: "faithful_directory dir fams"
    and ids: "\<forall>i g. tbl_get (cv_identities view) i = Some g \<longrightarrow> g \<in> agreeing fams"
  shows "materialize_rows_in env dir (materialize_iter m) s = Inr s"
proof -
  let ?row = "\<lambda>k pl. view_row_new (resolved view k) (snd (snd k)) pl"
  have m: "mr_rows m = map (\<lambda>x. ?row (fst x) (PayloadRecord (snd x))) (cv_rows view)"
    "mr_cleared m = map (\<lambda>k. ?row k Tombstone) (cleared_keys view)"
    using into_rows_ok [OF view, of fams] rows by (auto simp: case_prod_beta)
  have sorted: "tables_sorted s" and follow: "rows_follow env fams s (tbl_get (cv_rows view))"
    using content by (simp_all add: coupled_content_def)
  then have "thinned s s" by (simp add: thinned_def)
  with clear_rows_thin [OF dir, of "mr_cleared m" s s env] obtain t where
    t: "materialize_rows_in env dir (mr_cleared m) s = Inr t" "thinned s t" by (auto simp: m(2) view_row_new_def)
  have live: "\<exists>f \<in> set fams. \<exists>key. fst x = view_key_new f key \<and> resolved view (fst x) = f \<and> snd (snd (fst x)) = key
      \<and> (\<exists>r. env_from_bytes env (family_table_name f) (snd x) = Inr r)" if x: "x \<in> set (cv_rows view)" for x
  proof -
    have bs: "tbl_get (cv_rows view) (fst x) = Some (snd x)"
      using x view by (simp add: view_ok_def tbl_get_Some_iff)
    with content obtain f key where f: "f \<in> set fams" "fst x = view_key_new f key"
      "\<exists>r. env_from_bytes env (family_table_name f) (snd x) = Inr r"
      unfolding coupled_content_def content_closed_def by blast
    have touched: "tbl_get (cv_touched view) (fst x) \<noteq> None" using row_touched [OF view, of "fst x"] x by simp
    have "resolved view (fst x) \<in> agreeing fams" by (rule resolved_in [OF view touched ids])
    moreover have "view_key_new (resolved view (fst x)) (snd (snd (fst x))) = view_key_new f key"
      using resolve_identity_touched [OF view touched] f(2) by simp
    ultimately have "resolved view (fst x) = f" using agreeing_resolved f(1) by blast
    with f show ?thesis by (auto simp: view_key_new_def)
  qed
  have "list_all (\<lambda>row. row_applies env dir fams row \<and> own_row env s row) (mr_rows m)"
    unfolding m(1) list_all_iff set_map
  proof (rule ballI, erule imageE)
    fix row x
    assume row: "row = ?row (fst x) (PayloadRecord (snd x))" and x: "x \<in> set (cv_rows view)"
    from live [OF x] obtain f key where f: "f \<in> set fams" "fst x = view_key_new f key" "resolved view (fst x) = f"
      "snd (snd (fst x)) = key" "\<exists>r. env_from_bytes env (family_table_name f) (snd x) = Inr r" by blast
    have "tbl_get (cv_rows view) (view_key_new f key) = Some (snd x)"
      using x view f(2) by (metis view_ok_def tbl_get_Some_iff prod.collapse)
    then have "typed_row s (family_table_name f) key = decoded env (family_table_name f) (Some (snd x))"
      using follow f(1) by (simp add: rows_follow_def)
    with f faithful_own [OF dir] show "row_applies env dir fams row \<and> own_row env s row"
      by (simp add: row row_applies_def own_row_def view_row_new_def own_directory_def)
  qed
  from restore_rows [OF this t(2)] obtain u where u: "materialize_rows_in env dir (mr_rows m) t = Inr u" "thinned s u"
    "\<forall>row \<in> set (mr_rows m). typed_row u (family_table_name (vr_family row)) (vr_key row) =
       typed_row s (family_table_name (vr_family row)) (vr_key row)" by blast
  have run: "materialize_rows_in env dir (materialize_iter m) s = Inr u"
    using t(1) u(1) by (simp add: materialize_rows_in_def materialize_iter_def foldR_append)
  have "typed_row u tab key = typed_row s tab key" for tab key
  proof (cases "typed_row s tab key")
    case None
    with u(2) show ?thesis unfolding thinned_def by metis
  next
    case (Some r)
    with rows_homedD [of fams s tab key r] content obtain f where f: "f \<in> set fams" "tab = family_table_name f"
      by (auto simp: coupled_content_def)
    with follow Some obtain bs where "tbl_get (cv_rows view) (view_key_new f key) = Some bs"
      by (auto simp: rows_follow_def decoded_def split: option.splits)
    then have x: "(view_key_new f key, bs) \<in> set (cv_rows view)"
      using view by (simp add: view_ok_def tbl_get_Some_iff)
    from live [OF this] obtain g k where g: "g \<in> set fams" "view_key_new f key = view_key_new g k"
      "resolved view (view_key_new f key) = g" "snd (snd (view_key_new f key)) = k" by auto
    have "g = f \<and> k = key"
      using families_apart_key [of fams g f k key] content g f(1) by (simp add: coupled_content_def)
    then have "?row (view_key_new f key) (PayloadRecord bs) = view_row_new f key (PayloadRecord bs)"
      using g by simp
    with x have "view_row_new f key (PayloadRecord bs) \<in> set (mr_rows m)"
      by (auto simp: m(1) intro!: image_eqI [of _ _ "(view_key_new f key, bs)"])
    with u(3) f(2) show ?thesis by (auto simp: view_row_new_def)
  qed
  then have "st_rows u = st_rows s" "st_identified_rows u = st_identified_rows s"
    using typed_rows_ext [OF sorted, of u] u(2) by (auto simp: thinned_def)
  with materialize_rows_planes [OF run] have "u = s" by (simp add: same_planes_def)
  with run show ?thesis by simp
qed

section \<open>The call\<close>

lemma rebuild_unchanged:
  assumes ok: "engine_ok env e" and coupled: "coupled env e"
    and dir: "faithful_directory dir (family_inventory (eng_catalog e))" and run: "rebuild_from_log env dir e = (r, e')"
  shows "e' = e" and "env_commit_fault env (eng_storage e) = None \<Longrightarrow> \<exists>receipt. r = Inr receipt"
proof -
  let ?s = "eng_storage e" and ?fams = "family_inventory (eng_catalog e)"
  have policy: "eng_policy e \<noteq> None" and content: "coupled_content env ?fams ?s (logged_rows env ?s)"
    and names: "log_names env ?s (agreeing ?fams)"
    using coupled by (simp_all add: coupled_def)
  from rebuild_runs [OF ok policy, of dir] obtain c view m where
    c: "latest_checkpoint env ?s = Inr c"
    and view: "canonical_fold env (fst (resume_point c)) (log_suffix ?s c) (resume_head c) = Inr view"
    and m: "into_rows view ?fams = Inr m"
    and rebuild: "rebuild_from_log env dir e =
        bindS (engine_write env
                 (\<lambda>s. bindR (lift_storage (materialize_rows_in env dir (materialize_iter m) s))
                        (\<lambda>s'. Inr ((), s'))) e)
          (\<lambda>_ e'. (Inr \<lparr>rr_view_digest = view_digest env view, rr_row_count = length (mr_rows m),
                        rr_cleared_count = length (mr_cleared m),
                        rr_folded_entry_count = length (log_suffix ?s c)\<rparr>, e'))" by blast
  have ids: "\<forall>i g. tbl_get (cv_identities view) i = Some g \<longrightarrow> g \<in> agreeing ?fams"
    using names c by (intro fold_identities [OF view]) (auto simp: log_names_def)
  have same: "materialize_rows_in env dir (materialize_iter m) ?s = Inr ?s"
    using content logged_rows_folded [OF c view] by (intro rebuild_same [OF _ canonical_fold_ok [OF view] m dir ids]) simp
  show "e' = e" "env_commit_fault env ?s = None \<Longrightarrow> \<exists>receipt. r = Inr receipt"
    using run rebuild same
    by (cases "env_commit_fault env ?s"; auto simp: engine_write_def store_write_def lift_storage_def)+
qed

end
