(* ===== verification/Coupling_Registration.thy ===== *)
theory Coupling_Registration
  imports Coupling_Rebuild
begin

text \<open>
  Registering a family and evolving one (src/engine.rs \<open>register_table\<close>, \<open>register_identified_table\<close>,
  \<open>evolve_registered_family\<close>) keep the coupling: a new family starts with no row and no content; an
  evolution retracts every row of the old identity and asserts every carried one under the new.
\<close>

section \<open>A declared identity\<close>

text \<open>No other family and no entry of the log uses the identity a descriptor declares.\<close>

definition declarable :: "'r engine_env \<Rightarrow> 'r engine \<Rightarrow> family_identity \<Rightarrow> bool" where
  "declarable env e f \<longleftrightarrow> log_names env (eng_storage e) (agreeing [f])
     \<and> (\<forall>g \<in> set (family_inventory (eng_catalog e)). shares_family g f \<longrightarrow> g = f)"

lemma agreeing_subset: "set fams' \<subseteq> insert f (set fams) \<Longrightarrow> agreeing fams \<inter> agreeing [f] \<subseteq> agreeing fams'"
  by (auto simp: agreeing_def)

lemma log_names_both: "log_names env s F \<Longrightarrow> log_names env s G \<Longrightarrow> F \<inter> G \<subseteq> H \<Longrightarrow> log_names env s H"
  by (simp add: log_names_def) blast

lemma op_named_mono: "set fams \<subseteq> set fams' \<Longrightarrow> op_named env fams oper \<Longrightarrow> op_named env fams' oper"
  by (auto simp: op_named_def)

text \<open>An identity no family shares has no content.\<close>

lemma no_content:
  assumes "content_closed env fams L" and "\<forall>g \<in> set fams. \<not> shares_family g f"
  shows "L (view_key_new f key) = None"
proof (rule ccontr)
  assume "L (view_key_new f key) \<noteq> None"
  then obtain bs where "L (view_key_new f key) = Some bs" by blast
  with assms(1) obtain g k where "g \<in> set fams" "view_key_new f key = view_key_new g k"
    unfolding content_closed_def by blast
  with assms(2) show False by (auto simp: view_key_new_def shares_family_def)
qed

section \<open>A new family\<close>

lemma coupled_content_new:
  assumes content: "coupled_content env fams s L" and fresh: "family_table_name f \<notin> family_table_name ` set fams"
    and unshared: "\<forall>g \<in> set fams. \<not> shares_family g f" and apart: "families_apart (fams @ [f])"
  shows "coupled_content env (fams @ [f]) s L"
proof -
  have "L (view_key_new f key) = None" for key
    using no_content [OF _ unshared, of env L key] content by (simp add: coupled_content_def)
  moreover have "typed_row s (family_table_name f) key = None" for key
    using content fresh by (simp add: coupled_content_def rows_homed_def)
  ultimately have "rows_follow env (fams @ [f]) s L"
    using content by (auto simp: coupled_content_def rows_follow_def decoded_def)
  moreover have "content_closed env (fams @ [f]) L"
    unfolding content_closed_def
  proof (intro allI impI)
    fix key bs
    assume "L key = Some bs"
    with content obtain g k where "g \<in> set fams" "key = view_key_new g k"
      "\<exists>r. env_from_bytes env (family_table_name g) bs = Inr r"
      unfolding coupled_content_def content_closed_def by blast
    then show "\<exists>g \<in> set (fams @ [f]). \<exists>k. key = view_key_new g k
        \<and> (\<exists>r. env_from_bytes env (family_table_name g) bs = Inr r)" by auto
  qed
  ultimately show ?thesis using content apart by (simp add: coupled_content_def rows_homed_def)
qed

lemma new_family_coupled:
  assumes coupled: "coupled env e" and f: "declarable env e f"
    and insert: "catalog_insert (eng_catalog e) (registration_new f) = Inr (eng_catalog e')"
    and unbound: "registration_for_family (eng_catalog e) f = None"
    and history: "same_history (eng_storage e) (eng_storage e')"
    and rows: "st_rows (eng_storage e') = st_rows (eng_storage e)"
      "st_identified_rows (eng_storage e') = st_identified_rows (eng_storage e)"
    and frame: "eng_policy e' = eng_policy e" "eng_staging e' = eng_staging e"
  shows "coupled env e'"
proof -
  let ?fams = "family_inventory (eng_catalog e)"
  have content: "coupled_content env ?fams (eng_storage e) (logged_rows env (eng_storage e))"
    and names: "log_names env (eng_storage e) (agreeing ?fams)" and pending: "pending_named env e"
    and policy: "eng_policy e \<noteq> None"
    using coupled by (simp_all add: coupled_def)
  note inventory = inserted_inventory [OF insert]
  have "coupled_content env (?fams @ [f]) (eng_storage e) (logged_rows env (eng_storage e))"
    using inserted_apart [OF insert unbound] unbound_shares [OF unbound] content inventory
    by (intro coupled_content_new) (auto simp: catalog_apart_def coupled_content_def)
  then have "coupled_content env (?fams @ [f]) (eng_storage e') (logged_rows env (eng_storage e'))"
    by (simp add: content.planes [OF rows] same_history_content [OF history])
  moreover have "log_names env (eng_storage e') (agreeing (?fams @ [f]))"
    unfolding same_history_content [OF history]
    by (rule log_names_both [OF names _ agreeing_subset]) (use f in \<open>auto simp: declarable_def\<close>)
  moreover have "op_named env (?fams @ [f]) oper" if "op_named env ?fams oper" for oper
    by (rule op_named_mono [OF _ that]) auto
  with pending have "pending_named env e'"
    by (simp add: pending_named_def inventory frame same_history_reads [OF history] list_all_iff)
  ultimately show ?thesis using policy frame by (simp add: coupled_def inventory)
qed

section \<open>An evolved family\<close>

text \<open>The evolution's commit in three steps: retract every row, swap the identity of the empty table, assert
  every carried row.\<close>

lemma retracts_coupled:
  fixes rows :: "(string \<times> 'x) list"
  assumes "coupled_content env fams s L" and f: "f \<in> set fams"
  shows "coupled_content env fams (fold (\<lambda>r. put_row (family_table_name f) (Domain (fst r)) None) rows s)
    (after_writes (map (\<lambda>r. \<lparr>vop_operation = Retract, vop_family = f, vop_key = Some (Domain (fst r)),
       vop_payload = Tombstone\<rparr>) rows) L)"
proof (rule content.tracks_fold [OF _ assms(1)])
  let ?op = "\<lambda>r. \<lparr>vop_operation = Retract, vop_family = f, vop_key = Some (Domain (fst r)), vop_payload = Tombstone\<rparr>"
  have "tracks (coupled_content env fams) (put_row (family_table_name f) (Domain (fst r)) None) (?op r)" for r :: "string \<times> 'x"
    using content.put [of env fams "?op r" "Domain (fst r)"] f
    by (simp add: op_named_def op_exact_def operation_effect_def effect_row_def decoded_def)
  then show "list_all2 (\<lambda>r oper. tracks (coupled_content env fams) (put_row (family_table_name f) (Domain (fst r)) None) oper)
      rows (map ?op rows)"
    by (simp add: list_all2_map2 list_all2_same)
qed

lemma asserts_coupled:
  assumes content: "coupled_content env fams s L" and f: "f \<in> set fams" and codec: "codec env"
    and asserts: "mapR (\<lambda>(key, row). bindR (versioned_record_payload env name row) (\<lambda>payload.
        Inr \<lparr>vop_operation = Assert, vop_family = f, vop_key = Some (Domain key), vop_payload = payload\<rparr>)) rows = Inr opers"
  shows "coupled_content env fams (fold (\<lambda>r. put_row (family_table_name f) (Domain (fst r)) (Some (snd r))) rows s)
    (after_writes opers L)"
proof (rule content.tracks_fold [OF _ content])
  have op: "tracks (coupled_content env fams) (put_row (family_table_name f) (Domain key) (Some row))
      \<lparr>vop_operation = Assert, vop_family = f, vop_key = Some (Domain key), vop_payload = payload\<rparr>"
    if payload: "versioned_record_payload env name row = Inr payload" for key row payload
  proof -
    from payload obtain bs where "env_to_bytes env row = Inr bs" "payload = PayloadRecord bs"
      by (auto simp: versioned_record_payload_Inr)
    with codec f content.put [of env fams "\<lparr>vop_operation = Assert, vop_family = f, vop_key = Some (Domain key),
        vop_payload = payload\<rparr>" "Domain key"]
    show ?thesis by (simp add: op_named_def op_exact_def operation_effect_def effect_row_def decoded_def codec_def)
  qed
  from asserts show "list_all2 (\<lambda>r oper. tracks (coupled_content env fams)
      (put_row (family_table_name f) (Domain (fst r)) (Some (snd r))) oper) rows opers"
  proof (induction rows arbitrary: opers)
    case (Cons r rows)
    then show ?case by (cases r) (auto simp: bindR_eq_Inr op)
  qed simp
qed

lemma typed_row_removed:
  "typed_row (fold (\<lambda>r. put_row tab (Domain (fst r)) None) rows s) t key =
     (if t = tab \<and> key \<in> Domain ` fst ` set rows then None else typed_row s t key)"
  by (induction rows arbitrary: s) (auto simp: typed_row_put_row)

text \<open>The rows a list of insertions writes do not depend on what was there.\<close>

lemma typed_row_inserted:
  "typed_row s t key = typed_row s' t key \<or> t = tab \<and> key \<in> Domain ` fst ` set rows \<Longrightarrow>
   typed_row (fold (\<lambda>r. put_row tab (Domain (fst r)) (Some (snd r))) rows s) t key =
   typed_row (fold (\<lambda>r. put_row tab (Domain (fst r)) (Some (snd r))) rows s') t key"
proof (induction rows arbitrary: s s')
  case (Cons r rows)
  show ?case
    using Cons.prems by (simp, intro Cons.IH) (auto simp: typed_row_put_row)
qed simp

lemma tables_sorted_fold: "tables_sorted s \<Longrightarrow> tables_sorted (fold (\<lambda>r. put_row tab (Domain (fst r)) (g r)) rows s)"
  by (induction rows arbitrary: s) (simp_all add: tables_sorted_put_row)

lemma replaced_families:
  assumes "families_apart fams" and "stored \<in> set fams" and "family_table_name stored = family_table_name f"
  shows "set (replace_first (\<lambda>g. family_table_name g = family_table_name f) f fams) = insert f (set fams - {stored})"
  using assms
proof (induction fams)
  case (Cons g fams)
  show ?case
  proof (cases "g = stored")
    case True
    with Cons.prems show ?thesis by (auto simp: families_apart_def)
  next
    case False
    with Cons.prems have "stored \<in> set fams" "families_apart fams"
      and fresh: "family_table_name g \<notin> family_table_name ` set fams"
      by (auto simp: families_apart_def)
    moreover from this have "family_table_name g \<noteq> family_table_name f"
      using Cons.prems(3) by (metis image_eqI)
    ultimately show ?thesis using Cons.IH Cons.prems(3) False by auto
  qed
qed simp

text \<open>A table with no row takes over another identity.\<close>

lemma coupled_content_swap:
  assumes content: "coupled_content env fams s L" and stored: "stored \<in> set fams"
    "family_table_name stored = family_table_name f"
    and empty: "\<And>key. typed_row s (family_table_name f) key = None"
    and unshared: "\<forall>g \<in> set fams. \<not> shares_family g f"
    and fams': "families_apart fams'" "set fams' = insert f (set fams - {stored})"
  shows "coupled_content env fams' s L"
proof -
  have apart: "families_apart fams" and follow: "rows_follow env fams s L" and closed: "content_closed env fams L"
    and homed: "rows_homed fams s"
    using content by (simp_all add: coupled_content_def)
  have "L (view_key_new f key) = None" for key by (rule no_content [OF closed unshared])
  then have "rows_follow env fams' s L"
    using follow empty by (auto simp: rows_follow_def fams'(2) decoded_def)
  moreover have "content_closed env fams' L"
    unfolding content_closed_def
  proof (intro allI impI)
    fix key bs
    assume bs: "L key = Some bs"
    with closed obtain g k r where g: "g \<in> set fams" "key = view_key_new g k"
      "env_from_bytes env (family_table_name g) bs = Inr r"
      unfolding content_closed_def by blast
    have "typed_row s (family_table_name g) k = Some r"
      using follow g bs by (simp add: rows_follow_def decoded_def)
    then have "g \<noteq> stored" using empty stored(2) by auto
    with g show "\<exists>g \<in> set fams'. \<exists>k. key = view_key_new g k
        \<and> (\<exists>r. env_from_bytes env (family_table_name g) bs = Inr r)" by (auto simp: fams'(2))
  qed
  moreover have "rows_homed fams' s"
    using homed stored(2) by (auto simp: rows_homed_def fams'(2))
  ultimately show ?thesis using content fams'(1) by (simp add: coupled_content_def)
qed

lemma evolution_content:
  assumes content: "coupled_content env fams s L" and stored: "stored \<in> set fams"
    "family_table_name stored = family_table_name f"
    and plain: "\<And>i. typed_row s (family_table_name f) (Identifier i) = None"
    and keys: "map fst rows = map fst (st_rows s (family_table_name f))"
    and unshared: "\<forall>g \<in> set fams. \<not> shares_family g f" and codec: "codec env"
    and fams': "families_apart fams'" "set fams' = insert f (set fams - {stored})"
    and asserts: "mapR (\<lambda>(key, row). bindR (versioned_record_payload env name row) (\<lambda>payload.
        Inr \<lparr>vop_operation = Assert, vop_family = f, vop_key = Some (Domain key), vop_payload = payload\<rparr>)) rows = Inr opers"
    and t: "st_rows t = st_rows (fold (\<lambda>(key, row). row_insert (family_table_name f) key row) rows s)"
      "st_identified_rows t = st_identified_rows s"
  shows "coupled_content env fams' t (after_writes (map (\<lambda>r. \<lparr>vop_operation = Retract, vop_family = stored,
      vop_key = Some (Domain (fst r)), vop_payload = Tombstone\<rparr>) rows @ opers) L)"
proof -
  let ?tab = "family_table_name f"
  let ?retracts = "map (\<lambda>r. \<lparr>vop_operation = Retract, vop_family = stored,
      vop_key = Some (Domain (fst r)), vop_payload = Tombstone\<rparr>) rows"
  let ?ins = "\<lambda>r. put_row ?tab (Domain (fst r)) (Some (snd r))"
  define u where "u = fold (\<lambda>r. put_row ?tab (Domain (fst r)) None) rows s"
  have retracted: "coupled_content env fams u (after_writes ?retracts L)"
    using retracts_coupled [OF content stored(1), of rows] stored(2) by (simp add: u_def)
  have absent: "typed_row s ?tab (Domain k) = None" if "k \<notin> fst ` set rows" for k
    using that arg_cong [OF keys, of set] tbl_get_None_iff [of "st_rows s ?tab" k] by (simp add: typed_row_def)
  have gone: "typed_row u ?tab key = None" for key
    using absent plain by (cases key) (auto simp: u_def typed_row_removed)
  have "coupled_content env fams' u (after_writes ?retracts L)"
    by (rule coupled_content_swap [OF retracted stored gone unshared fams'])
  then have final: "coupled_content env fams' (fold ?ins rows u) (after_writes opers (after_writes ?retracts L))"
    using fams'(2) by (intro asserts_coupled [OF _ _ codec asserts]) auto
  have inserted: "fold (\<lambda>(key, row). row_insert ?tab key row) rows s = fold ?ins rows s"
    by (rule fold_cong) (auto simp: put_row_def)
  have "typed_row (fold ?ins rows u) tab key = typed_row (fold ?ins rows s) tab key" for tab key
    by (rule typed_row_inserted) (auto simp: u_def typed_row_removed)
  moreover have "tables_sorted s" using content by (simp add: coupled_content_def)
  ultimately have "st_rows (fold ?ins rows u) = st_rows (fold ?ins rows s)"
    "st_identified_rows (fold ?ins rows u) = st_identified_rows (fold ?ins rows s)"
    by (intro typed_rows_ext [of "fold ?ins rows s" "fold ?ins rows u"] tables_sorted_fold; simp add: u_def tables_sorted_fold)+
  moreover have "st_identified_rows (fold (\<lambda>(key, row). row_insert ?tab key row) rows s) = st_identified_rows s"
    by simp
  ultimately show ?thesis
    using final content.planes [of t "fold ?ins rows u" env fams'] t by (simp add: inserted after_writes_append)
qed

section \<open>The calls\<close>

lemma coupled_cong:
  assumes "eng_storage e' = eng_storage e" and "eng_catalog e' = eng_catalog e" and "eng_policy e' = eng_policy e"
    and "eng_staging e' = eng_staging e"
  shows "coupled env e' = coupled env e"
  using assms by (simp add: coupled_def pending_named_def)

text \<open>No session is engaged, no group is parked and the family's table holds no identified row.\<close>

definition evolvable :: "'r engine \<Rightarrow> string \<Rightarrow> bool" where
  "evolvable e name \<longleftrightarrow> eng_staging e = None \<and> staging_slot (eng_storage e) = None
     \<and> (\<forall>i. typed_row (eng_storage e) name (Identifier i) = None)"

lemma evolution_operations:
  assumes "evolution_versioned_operations env e name stored f carried = Inr vops" and "eng_policy e \<noteq> None"
  obtains opers where "mapR (\<lambda>(key, row). bindR (versioned_record_payload env name row) (\<lambda>payload.
        Inr \<lparr>vop_operation = Assert, vop_family = f, vop_key = Some (Domain key), vop_payload = payload\<rparr>)) carried = Inr opers"
    "vops = map (\<lambda>r. \<lparr>vop_operation = Retract, vop_family = stored,
        vop_key = Some (Domain (fst r)), vop_payload = Tombstone\<rparr>) carried @ opers"
    "\<forall>oper \<in> set vops. vop_family oper \<in> {stored, f}"
proof -
  let ?ret = "\<lambda>r. \<lparr>vop_operation = Retract, vop_family = stored, vop_key = Some (Domain (fst r)), vop_payload = Tombstone\<rparr>"
  have "(\<lambda>(key, _). \<lparr>vop_operation = Retract, vop_family = stored, vop_key = Some (Domain key), vop_payload = Tombstone\<rparr>) =
      (?ret :: string \<times> 'a \<Rightarrow> _)" by (simp add: fun_eq_iff)
  with assms obtain opers where opers: "mapR (\<lambda>(key, row). bindR (versioned_record_payload env name row) (\<lambda>payload.
        Inr \<lparr>vop_operation = Assert, vop_family = f, vop_key = Some (Domain key), vop_payload = payload\<rparr>)) carried = Inr opers"
    "vops = map ?ret carried @ opers"
    by (auto simp: evolution_versioned_operations_def bindR_eq_Inr)
  have "map vop_family opers = map (\<lambda>_. f) carried \<and> list_all (\<lambda>oper. vop_family oper = f) opers"
    by (rule mapR_Inr_map [OF opers(1)]) (auto simp: bindR_eq_Inr)
  then have "\<forall>oper \<in> set vops. vop_family oper \<in> {stored, f}" by (auto simp: opers(2) list_all_iff)
  with opers show thesis by (rule that)
qed

text \<open>The families after an evolution, and the two identities its commit names.\<close>

lemma evolved_families:
  assumes catalog: "catalog_evolve (eng_catalog e) (family_table_name f) (registration_new f) = Inr c"
    and apart: "catalog_apart e" and stored: "stored \<in> set (family_inventory (eng_catalog e))"
    "family_table_name stored = family_table_name f" "stored \<noteq> f"
    and own: "\<forall>g \<in> set (family_inventory (eng_catalog e)). shares_family g f \<longrightarrow> g = f"
  shows "families_apart (family_inventory c)"
    and "set (family_inventory c) = insert f (set (family_inventory (eng_catalog e)) - {stored})"
    and "\<forall>g \<in> set (family_inventory (eng_catalog e)). \<not> shares_family g f"
    and "stored \<in> agreeing (family_inventory c)" and "f \<in> agreeing (family_inventory c)"
proof -
  let ?fams = "family_inventory (eng_catalog e)"
  have fams: "families_apart ?fams" using apart by (simp add: catalog_apart_def)
  show unshared: "\<forall>g \<in> set ?fams. \<not> shares_family g f"
    using own stored families_apart_table [OF fams stored(1)] by metis
  show new: "families_apart (family_inventory c)" using evolved_apart [OF catalog apart] own by blast
  show set: "set (family_inventory c) = insert f (set ?fams - {stored})"
    using evolved_inventory [OF catalog] replaced_families [OF fams stored(1,2)] by simp
  show "stored \<in> agreeing (family_inventory c)"
    using registered_agreeing [OF fams stored(1)] unshared stored(1) by (auto simp: agreeing_def set)
  show "f \<in> agreeing (family_inventory c)" using new set by (intro registered_agreeing) auto
qed

lemma evolution_commit_coupled:
  assumes coupled: "coupled env e" and ok: "engine_ok env e" and room: "has_room e"
    and e0: "evolved_catalog d e e0" and lands: "lands_one env e0 e1"
    and rows: "carry_rows step (st_rows (eng_storage e) (td_name d)) = Inr carried"
    and logged: "evolution_logged env d stored carried e0 e1"
    and carried: "carried_store (td_name d) (registration_new (td_family_identity d)) carried (eng_storage e) (eng_storage e1)"
    and stored: "registered_family e (td_name d) = Inr stored"
    and f: "declarable env e (td_family_identity d)" "stored \<noteq> td_family_identity d"
    and free: "evolvable e (td_name d)" and codec: "codec env"
  shows "coupled env e1"
proof -
  let ?f = "td_family_identity d" and ?fams = "family_inventory (eng_catalog e)" and ?s = "eng_storage e"
  let ?fams' = "family_inventory (eng_catalog e1)"
  have content: "coupled_content env ?fams ?s (logged_rows env ?s)" and names: "log_names env ?s (agreeing ?fams)"
    and policy: "eng_policy e \<noteq> None"
    using coupled by (simp_all add: coupled_def)
  have catalog: "catalog_evolve (eng_catalog e) (family_table_name ?f) (registration_new ?f) = Inr (eng_catalog e1)"
    and frame: "eng_storage e0 = ?s" "eng_policy e1 = eng_policy e" "eng_policy e0 = eng_policy e"
      "eng_staging e1 = eng_staging e" "staging_slot (eng_storage e1) = staging_slot ?s"
    using e0 lands by (simp_all add: evolved_catalog_def lands_one_def)
  have member: "stored \<in> set ?fams" "family_table_name stored = family_table_name ?f"
    using registered_family_member [OF stored] by auto
  note evolved = evolved_families [OF catalog _ member f(2)]
  have apart: "catalog_apart e" and own: "\<forall>g \<in> set ?fams. shares_family g ?f \<longrightarrow> g = ?f"
    using content f(1) by (simp_all add: catalog_apart_def coupled_content_def declarable_def)
  obtain v where v: "evolution_versioned_operations env e0 (td_name d) stored ?f carried = Inr (ne_list (ve_operations v))"
    "versioned_entries (eng_storage e1) = versioned_entries (eng_storage e0) @ [v]"
    using logged policy frame(3) by (auto simp: evolution_logged_def)
  obtain opers where opers: "mapR (\<lambda>(key, row). bindR (versioned_record_payload env (td_name d) row) (\<lambda>payload.
        Inr \<lparr>vop_operation = Assert, vop_family = ?f, vop_key = Some (Domain key), vop_payload = payload\<rparr>)) carried = Inr opers"
    "ne_list (ve_operations v) = map (\<lambda>r. \<lparr>vop_operation = Retract, vop_family = stored,
        vop_key = Some (Domain (fst r)), vop_payload = Tombstone\<rparr>) carried @ opers"
    "\<forall>oper \<in> set (ne_list (ve_operations v)). vop_family oper \<in> {stored, ?f}"
    by (rule evolution_operations [OF v(1)]) (use policy frame(3) in simp)
  have ok0: "engine_ok env e0" using ok e0 evolved_catalog_update [OF e0] by (metis engine_ok_other(1))
  have room0: "committed_commit_sequence (eng_storage e0) \<noteq> - 1" using has_room_words(1) [OF room] frame(1) by simp
  have "logged_rows env (eng_storage e1) = after_writes (ne_list (ve_operations v)) (logged_rows env ?s)"
    using lands_one_content [OF lands ok0 _ room0] policy frame v(2) by auto
  moreover have "coupled_content env ?fams' (eng_storage e1)
      (after_writes (ne_list (ve_operations v)) (logged_rows env ?s))"
    unfolding opers(2)
  proof (rule evolution_content [OF content member _ _ evolved(3) codec evolved(1,2) opers(1)])
    show "map fst carried = map fst (st_rows ?s (family_table_name ?f))"
      using carry_rows_Inr(1) [OF rows] by (simp add: tbl_iter_def)
  qed (use apart own free carried in \<open>simp_all add: evolvable_def carried_store_def\<close>)
  moreover have "log_names env (eng_storage e1) (agreeing ?fams')"
  proof (rule lands_names [OF lands ok0 _ room0 v(2)])
    show "log_names env (eng_storage e0) (agreeing ?fams')"
    proof (unfold frame(1), rule log_names_both [OF names])
      show "log_names env ?s (agreeing [?f])" using f(1) by (simp add: declarable_def)
      show "agreeing ?fams \<inter> agreeing [?f] \<subseteq> agreeing ?fams'"
        using evolved(2) [OF apart own] by (intro agreeing_subset) blast
    qed
    show "\<forall>oper \<in> set (ne_list (ve_operations v)). vop_family oper \<in> agreeing ?fams'"
      using opers(3) evolved(4,5) [OF apart own] by auto
  qed (use policy frame in simp)
  ultimately show ?thesis using policy frame free by (simp add: coupled_def pending_named_def evolvable_def)
qed

text \<open>A family without records evolves by its catalog row alone.\<close>

lemma evolution_empty_coupled:
  assumes coupled: "coupled env e" and e0: "evolved_catalog d e e0"
    and empty: "tbl_iter (st_rows (eng_storage e) (td_name d)) = []"
    and stored: "registered_family e (td_name d) = Inr stored"
    and f: "declarable env e (td_family_identity d)" "stored \<noteq> td_family_identity d"
    and free: "evolvable e (td_name d)"
    and e': "e' = e0\<lparr>eng_storage := catalog_row_insert (td_name d) reg (eng_storage e)\<rparr>"
  shows "coupled env e'"
proof -
  let ?f = "td_family_identity d" and ?fams = "family_inventory (eng_catalog e)" and ?s = "eng_storage e"
  let ?fams' = "family_inventory (eng_catalog e')"
  have content: "coupled_content env ?fams ?s (logged_rows env ?s)" and names: "log_names env ?s (agreeing ?fams)"
    and policy: "eng_policy e \<noteq> None"
    using coupled by (simp_all add: coupled_def)
  have catalog: "catalog_evolve (eng_catalog e) (family_table_name ?f) (registration_new ?f) = Inr (eng_catalog e')"
    and frame: "eng_storage e' = catalog_row_insert (td_name d) reg ?s" "eng_policy e' = eng_policy e"
      "eng_staging e' = eng_staging e"
    using e0 by (simp_all add: evolved_catalog_def e')
  have history: "same_history ?s (eng_storage e')" by (simp add: frame(1))
  have rows: "st_rows (eng_storage e') = st_rows ?s" "st_identified_rows (eng_storage e') = st_identified_rows ?s"
    by (simp_all add: frame(1) catalog_row_insert_def)
  have member: "stored \<in> set ?fams" "family_table_name stored = family_table_name ?f"
    using registered_family_member [OF stored] by auto
  have apart: "catalog_apart e" and own: "\<forall>g \<in> set ?fams. shares_family g ?f \<longrightarrow> g = ?f"
    using content f(1) by (simp_all add: catalog_apart_def coupled_content_def declarable_def)
  note evolved = evolved_families [OF catalog apart member f(2) own]
  have "typed_row ?s (family_table_name ?f) key = None" for key
    using free empty by (cases key) (simp_all add: evolvable_def typed_row_def tbl_iter_def)
  then have "coupled_content env ?fams' ?s (logged_rows env ?s)"
    by (rule coupled_content_swap [OF content member _ evolved(3,1,2)])
  moreover have "log_names env ?s (agreeing ?fams')"
  proof (rule log_names_both [OF names])
    show "log_names env ?s (agreeing [?f])" using f(1) by (simp add: declarable_def)
    show "agreeing ?fams \<inter> agreeing [?f] \<subseteq> agreeing ?fams'" using evolved(2) by (intro agreeing_subset) blast
  qed
  ultimately show ?thesis
    using policy free
    by (simp add: coupled_def content.planes [OF rows] same_history_content [OF history] frame(2,3)
        same_history_reads [OF history] pending_named_def evolvable_def)
qed

lemma evolve_cases:
  assumes ok: "engine_ok env e" and room: "has_room e" and stored: "registered_family e (td_name d) = Inr stored"
    and run: "evolve_registered_family env d stored step e = (r, e')"
  obtains (refused) "e' = e"
  | (empty) e0 where "evolved_catalog d e e0" "tbl_iter (st_rows (eng_storage e) (td_name d)) = []"
      "e' = e0\<lparr>eng_storage := catalog_row_insert (td_name d) (registration_new (td_family_identity d)) (eng_storage e)\<rparr>"
  | (landed) e0 e1 e2 m carried where "evolved_catalog d e e0" "lands_one env e0 e1"
      "carry_rows step (st_rows (eng_storage e) (td_name d)) = Inr carried"
      "evolution_logged env d stored carried e0 e1"
      "carried_store (td_name d) (registration_new (td_family_identity d)) carried (eng_storage e) (eng_storage e1)"
      "maintain_versioned_history env e1 = (m, e2)"
      "e' = e2 \<or> (\<exists>err. r = Inl err \<and> e' = e2\<lparr>eng_catalog := eng_catalog e\<rparr>)"
proof -
  have "evolution_outcome env d step e (r, e')"
    using evolve_outcome [OF ok has_room_words(1) [OF room] stored, of step] run by simp
  then show thesis
    using stored that unfolding evolution_outcome_def by (auto; metis)
qed

lemma evolve_coupled:
  assumes coupled: "coupled env e" and ok: "engine_ok env e" and room: "has_room e"
    and addr: "\<And>c. commits_addressable env (e\<lparr>eng_catalog := c\<rparr>)"
    and stored: "registered_family e (td_name d) = Inr stored"
    and f: "declarable env e (td_family_identity d)" "stored \<noteq> td_family_identity d"
    and free: "evolvable e (td_name d)" and codec: "codec env"
    and run: "evolve_registered_family env d stored step e = (r, e')"
    and failed: "\<And>err. r = Inl err \<Longrightarrow> eng_storage e' = eng_storage e"
  shows "coupled env e'"
proof -
  from ok room stored run show ?thesis
  proof (cases rule: evolve_cases)
    case refused
    with coupled show ?thesis by simp
  next
    case (empty e0)
    show ?thesis by (rule evolution_empty_coupled [OF coupled empty(1,2) stored f free empty(3)])
  next
    case (landed e0 e1 e2 m carried)
    from evolved_catalog_update [OF landed(1)] obtain c where e0: "e0 = e\<lparr>eng_catalog := c\<rparr>" by blast
    have quiet: "quiet env e1 e2"
      by (rule quiet_maintained [OF landed(2) [unfolded e0] _ addr landed(6)]) (use room in \<open>simp add: has_room_def\<close>)
    have one: "coupled env e1"
      by (rule evolution_commit_coupled [OF coupled ok room landed(1-5) stored f free codec])
    from landed(7) show ?thesis
    proof
      assume "e' = e2"
      with quiet_coupled [OF quiet one] show ?thesis by simp
    next
      assume "\<exists>err. r = Inl err \<and> e' = e2\<lparr>eng_catalog := eng_catalog e\<rparr>"
      then obtain err where err: "r = Inl err" "e' = e2\<lparr>eng_catalog := eng_catalog e\<rparr>" by blast
      have "eng_policy e2 = eng_policy e" "eng_staging e2 = eng_staging e"
        using quiet landed(1,2) by (simp_all add: quiet_def lands_one_def evolved_catalog_def)
      with failed [OF err(1)] coupled show ?thesis by (subst coupled_cong [of e' e]) (simp_all add: err(2))
    qed
  qed
qed

text \<open>What a registration does: nothing, an error after the catalog row is stored, a new family, or an evolution.\<close>

lemma register_table_cases:
  assumes run: "register_table env d e = (r, e')"
  obtains (unchanged) "e' = e"
  | (torn) err s where "r = Inl err" "e' = e\<lparr>eng_storage := s\<rparr>"
  | (registered) c where "registration_for_family (eng_catalog e) (td_family_identity d) = None"
      "catalog_insert (eng_catalog e) (registration_new (td_family_identity d)) = Inr c"
      "e' = e\<lparr>eng_storage := catalog_row_insert (td_name d) (registration_new (td_family_identity d)) (eng_storage e),
        eng_catalog := c\<rparr>"
  | (evolved) stored step r1 where "registered_family e (td_name d) = Inr stored" "stored \<noteq> td_family_identity d"
      "evolve_registered_family env d stored step e = (r1, e')" "\<forall>x. r1 = Inl x \<longrightarrow> r = Inl x"
proof (cases "family_registration_state (eng_catalog e) (td_family_identity d)")
  case (Inr state)
  show thesis
  proof (cases state)
    case Existing
    with run Inr show thesis by (intro that(1)) (simp add: register_table_def Let_def)
  next
    case (NewRegistration registration)
    with Inr have new: "registration = registration_new (td_family_identity d)"
      "registration_for_family (eng_catalog e) (td_family_identity d) = None"
      by (auto simp: family_registration_state_def split: option.splits if_splits)
    let ?e1 = "e\<lparr>eng_storage := catalog_row_insert (td_name d) registration (eng_storage e)\<rparr>"
    have "e' = e \<or> (\<exists>err. r = Inl err \<and> e' = ?e1)
        \<or> (\<exists>c. catalog_insert (eng_catalog e) registration = Inr c \<and> e' = ?e1\<lparr>eng_catalog := c\<rparr>)"
      using run Inr NewRegistration
      by (cases rule: engine_put_cases [of env "catalog_row_insert (td_name d) registration" e])
        (auto simp: register_table_def Let_def bindS_reads split: sum.splits)
    then show thesis
      using that(1-2) that(3) [OF new(2)] unfolding new(1) by (elim disjE exE conjE) (simp, blast, simp)
  qed
next
  case (Inl err)
  show thesis
  proof (cases "\<exists>a b c stored step. err = FamilyIdentityMismatch a b c
      \<and> registered_family e (td_name d) = Inr stored \<and> evolution_step_for d stored = Some step")
    case True
    then obtain a b c stored step where err: "err = FamilyIdentityMismatch a b c"
      and stored: "registered_family e (td_name d) = Inr stored" and step: "evolution_step_for d stored = Some step"
      by blast
    have other: "stored \<noteq> td_family_identity d"
      using Inl stored by (auto simp: registered_lookup family_registration_state_def split: if_splits)
    obtain r1 e1 where evolve: "evolve_registered_family env d stored step e = (r1, e1)" by (metis surj_pair)
    have "e' = e1" and "\<forall>x. r1 = Inl x \<longrightarrow> r = Inl x"
      using run Inl err stored step evolve by (cases r1; simp add: register_table_def)+
    with evolve show thesis by (intro that(4) [OF stored other]) simp_all
  next
    case False
    with run Inl have "e' = e"
      by (cases "registered_family e (td_name d)"; cases err) (auto simp: register_table_def split: option.splits)
    then show thesis by (rule that(1))
  qed
qed

lemma register_table_coupled:
  assumes run: "register_table env d e = (r, e')" and ok: "engine_ok env e" and room: "has_room e"
    and addr: "\<And>c. commits_addressable env (e\<lparr>eng_catalog := c\<rparr>)"
    and coupled: "coupled env e" and codec: "codec env" and f: "declarable env e (td_family_identity d)"
    and free: "\<And>stored. registered_family e (td_name d) = Inr stored \<Longrightarrow> stored \<noteq> td_family_identity d \<Longrightarrow>
      evolvable e (td_name d)"
    and failed: "\<And>err. r = Inl err \<Longrightarrow> eng_storage e' = eng_storage e"
  shows "coupled env e'"
  using run
proof (cases rule: register_table_cases)
  case (torn err s)
  with failed coupled show ?thesis by (subst coupled_cong [of e' e]) simp_all
next
  case (registered c)
  then show ?thesis
    by (intro new_family_coupled [OF coupled f _ registered(1)]) (simp_all add: catalog_row_insert_def same_history_def)
next
  case (evolved stored step r1)
  with evolve_coupled [OF coupled ok room addr evolved(1) f evolved(2) free [OF evolved(1,2)] codec evolved(3)] failed
  show ?thesis by auto
qed (use coupled in simp)

lemma register_identified_cases:
  assumes run: "register_identified_table env d e = (r, e')"
  obtains (unchanged) "e' = e"
  | (torn) err s where "r = Inl err" "e' = e\<lparr>eng_storage := s\<rparr>"
  | (registered) c where "registration_for_family (eng_catalog e) (itd_family_identity d) = None"
      "catalog_insert (eng_catalog e) (registration_new (itd_family_identity d)) = Inr c"
      "e' = e\<lparr>eng_storage := identified_counter_insert (identified_counter_key (itd_name d)) record_identifier_first
          (catalog_row_insert (itd_name d) (registration_new (itd_family_identity d)) (eng_storage e)),
        eng_catalog := c\<rparr>"
proof (cases "\<exists>reg. family_registration_state (eng_catalog e) (itd_family_identity d) = Inr (NewRegistration reg)")
  case False
  with run have "e' = e"
    by (cases "family_registration_state (eng_catalog e) (itd_family_identity d)")
      (auto simp: register_identified_table_def Let_def split: family_registration.splits)
  then show thesis by (rule that(1))
next
  case True
  then obtain registration where reg: "family_registration_state (eng_catalog e) (itd_family_identity d) =
      Inr (NewRegistration registration)" by blast
  then have new: "registration = registration_new (itd_family_identity d)"
    "registration_for_family (eng_catalog e) (itd_family_identity d) = None"
    by (auto simp: family_registration_state_def split: option.splits if_splits)
  let ?f = "\<lambda>s. identified_counter_insert (identified_counter_key (itd_name d)) record_identifier_first
      (catalog_row_insert (itd_name d) registration s)"
  let ?e1 = "e\<lparr>eng_storage := ?f (eng_storage e)\<rparr>"
  have "e' = e \<or> (\<exists>err. r = Inl err \<and> e' = ?e1)
      \<or> (\<exists>c. catalog_insert (eng_catalog e) registration = Inr c \<and> e' = ?e1\<lparr>eng_catalog := c\<rparr>)"
    using run reg
    by (cases rule: engine_put_cases [of env ?f e])
      (auto simp: register_identified_table_def Let_def bindS_reads split: sum.splits)
  then show thesis
    using that(1-2) that(3) [OF new(2)] unfolding new(1) by (elim disjE exE conjE) (simp, blast, simp)
qed

lemma register_identified_coupled:
  assumes run: "register_identified_table env d e = (r, e')" and coupled: "coupled env e"
    and f: "declarable env e (itd_family_identity d)" and failed: "\<And>err. r = Inl err \<Longrightarrow> eng_storage e' = eng_storage e"
  shows "coupled env e'"
  using run
proof (cases rule: register_identified_cases)
  case (torn err s)
  with failed coupled show ?thesis by (subst coupled_cong [of e' e]) simp_all
next
  case (registered c)
  then show ?thesis
    by (intro new_family_coupled [OF coupled f _ registered(1)])
      (simp_all add: catalog_row_insert_def identified_counter_insert_def same_history_def)
qed (use coupled in simp)

end
