(* ===== verification/Coupling_Theorems.thy ===== *)
theory Coupling_Theorems
  imports Coupling_Registration
begin

text \<open>
  The tables and the log of every engine a well-behaved component can reach: the steps of System_Steps with
  what the engine leaves to its component and to the fate of a call, and the coupling as their invariant.
\<close>

section \<open>Well-behaved steps\<close>

text \<open>The conditions beyond those of \<open>engine_step\<close>: a keyed write has keys of its table's kind; the
  directory serves the registered families; a declared identity is not used by another family or by the
  log, a family evolves with nothing buffered or parked and without identified rows, and a registration
  that fails has left the store alone.  \<open>W\<close> is what else the component promises of its writes.\<close>

inductive honest_step ::
  "('r engine \<Rightarrow> 'r direct_write \<Rightarrow> bool) \<Rightarrow> 'r engine_env \<Rightarrow> family_directory \<Rightarrow> 'r engine \<Rightarrow> 'r engine \<Rightarrow> bool"
  for W env dir where
  honest_write: "run_write env w e = (r, e') \<Longrightarrow> has_room e \<Longrightarrow> commits_addressable env e \<Longrightarrow> domain_keyed env w \<Longrightarrow>
    W e w \<Longrightarrow> honest_step W env dir e e'"
| honest_checkpoint: "take_checkpoint env e = (r, e') \<Longrightarrow> has_room e \<Longrightarrow> segments_addressable env e \<Longrightarrow>
    honest_step W env dir e e'"
| honest_compact: "compact_versioned_history env retention ack e = (r, e') \<Longrightarrow> has_room e \<Longrightarrow>
    segments_addressable env e \<Longrightarrow> honest_step W env dir e e'"
| honest_maintain: "maintain_versioned_history env e = (r, e') \<Longrightarrow> has_room e \<Longrightarrow> segments_addressable env e \<Longrightarrow>
    honest_step W env dir e e'"
| honest_rebuild: "rebuild_from_log env dir e = (r, e') \<Longrightarrow>
    faithful_directory dir (family_inventory (eng_catalog e)) \<Longrightarrow> honest_step W env dir e e'"
| honest_acknowledge: "acknowledge_mirror env head e = (r, e') \<Longrightarrow> honest_step W env dir e e'"
| honest_engage: "begin_staged_group env e = (r, e') \<Longrightarrow> honest_step W env dir e e'"
| honest_park: "park_staged_group env e = (r', e') \<Longrightarrow> honest_step W env dir e e'"
| honest_abandon: "abandon_staged_group e = (r, e') \<Longrightarrow> honest_step W env dir e e'"
| honest_discard: "discard_staged_group env e = (r'', e') \<Longrightarrow> honest_step W env dir e e'"
| honest_materialize: "materialize_staged_group env dir e = (r''', e') \<Longrightarrow> group_fits e \<Longrightarrow>
    faithful_directory dir (family_inventory (eng_catalog e)) \<Longrightarrow> honest_step W env dir e e'"
| honest_plan: "begin_compaction env e = (r, e') \<Longrightarrow> honest_step W env dir e e'"
| honest_park_plan: "park_compaction env e = (rb, e') \<Longrightarrow> honest_step W env dir e e'"
| honest_interrupt: "interrupt_compaction_at phase e = (r, e') \<Longrightarrow> honest_step W env dir e e'"
| honest_inject: "honest_step W env dir e (inject_compaction_fault fault e)"
| honest_publish: "publish_compaction_checkpoint env intent e = (r, e') \<Longrightarrow> has_room e \<Longrightarrow>
    segments_addressable env e \<Longrightarrow> honest_step W env dir e e'"
| honest_finish: "finish_compaction env e = (r, e') \<Longrightarrow> has_room e \<Longrightarrow> segments_addressable env e \<Longrightarrow>
    honest_step W env dir e e'"
| honest_register: "register_table env d e = (rt, e') \<Longrightarrow> has_room e \<Longrightarrow>
    (\<And>c. commits_addressable env (e\<lparr>eng_catalog := c\<rparr>)) \<Longrightarrow> declarable env e (td_family_identity d) \<Longrightarrow>
    (\<And>stored. registered_family e (td_name d) = Inr stored \<Longrightarrow> stored \<noteq> td_family_identity d \<Longrightarrow>
       evolvable e (td_name d)) \<Longrightarrow>
    (\<And>err. rt = Inl err \<Longrightarrow> eng_storage e' = eng_storage e) \<Longrightarrow> honest_step W env dir e e'"
| honest_register_identified: "register_identified_table env idd e = (rt, e') \<Longrightarrow>
    declarable env e (itd_family_identity idd) \<Longrightarrow>
    (\<And>err. rt = Inl err \<Longrightarrow> eng_storage e' = eng_storage e) \<Longrightarrow> honest_step W env dir e e'"
| honest_subscribe: "engine_subscribe env plan snk e = (rs, e') \<Longrightarrow> honest_step W env dir e e'"
| honest_deliver: "honest_step W env dir e (e\<lparr>eng_subscriptions := run_spawned i (eng_subscriptions e)\<rparr>)"

inductive honestly_reachable ::
  "('r engine \<Rightarrow> 'r direct_write \<Rightarrow> bool) \<Rightarrow> 'r engine_env \<Rightarrow> family_directory \<Rightarrow> versioning_policy \<Rightarrow> 'r engine \<Rightarrow> bool"
  for W env dir policy where
  honest_fresh: "fresh_engine (Some policy) e \<Longrightarrow> honestly_reachable W env dir policy e"
| honest_next: "honestly_reachable W env dir policy e \<Longrightarrow> honest_step W env dir e e' \<Longrightarrow>
    honestly_reachable W env dir policy e'"

lemma honest_engine_step: "honest_step W env dir e e' \<Longrightarrow> engine_step env dir e e'"
  by (induction rule: honest_step.induct) (blast intro: engine_step.intros)+

lemma honest_reachable: "honestly_reachable W env dir policy e \<Longrightarrow> reachable env dir (Some policy) e"
  by (induction rule: honestly_reachable.induct)
    (blast intro: reachable_fresh reachable_step honest_engine_step)+

section \<open>The invariant\<close>

lemma coupled_subscriptions [simp]: "coupled env (e\<lparr>eng_subscriptions := g\<rparr>) = coupled env e"
  by (simp add: coupled_def pending_named_def)

lemma persist_subscription_rows [simp]:
  "st_rows (persist_subscription handle f s) = st_rows s"
  "st_identified_rows (persist_subscription handle f s) = st_identified_rows s"
  by (simp_all add: persist_subscription_def)

lemma subscribe_coupled:
  assumes run: "engine_subscribe env plan snk e = (r, e')" and coupled: "coupled env e"
  shows "coupled env e'"
proof -
  have "coupled env (x\<lparr>eng_storage := persist_subscription handle f (eng_storage x)\<rparr>)" if "coupled env x" for x handle f
    using coupled_pending [OF that] by (intro coupled_frame [OF that]) (simp_all add: pending_named_def)
  then have "keeps (coupled env) (engine_subscribe env plan snk e)"
    using coupled by (intro keeps_subscribe [of "coupled env"]) simp_all
  with run show ?thesis by simp
qed

lemma fresh_coupled:
  fixes e :: "'r engine"
  assumes fresh: "fresh_engine (Some policy) e"
  shows "coupled env e"
proof -
  have "counter_get (eng_storage e) k = counter_get (counter_insert storage_layout_key storage_layout (store_empty :: 'r store)) k" for k
    using fresh by (intro counter_get_cong) (simp add: fresh_engine_def)
  then have latest: "latest_checkpoint env (eng_storage e) = Inr None"
    by (simp add: latest_checkpoint_def) (simp add: counter_get_def store_empty_def)
  have suffix: "log_suffix (eng_storage e) None = []"
    using fresh by (simp add: fresh_engine_def log_suffix_def versioned_entries_from_def tbl_from_def store_empty_def)
  have content: "logged_rows env (eng_storage e) = (\<lambda>key. None)"
    by (simp add: logged_rows_def latest suffix resume_point_def all_operations_def)
  have rows: "typed_row (eng_storage e) tab key = None" for tab key
    using fresh by (cases key) (simp_all add: fresh_engine_def typed_row_def store_empty_def)
  have "coupled_content env [] (eng_storage e) (logged_rows env (eng_storage e))"
    using fresh unfolding coupled_content_def content
    by (simp add: families_apart_def rows_follow_def content_closed_def rows_homed_def rows tables_sorted_def)
      (simp add: fresh_engine_def store_empty_def)
  then show ?thesis
    using fresh by (simp add: coupled_def fresh_engine_def family_inventory_def pending_named_def staging_slot_def
        log_names_def agreeing_def) (simp add: store_empty_def)
qed

lemma honest_step_coupled:
  assumes "honest_step W env dir e e'" and "engine_ok env e" and "coupled env e" and codec: "codec env"
  shows "coupled env e'"
  using assms(1-3)
proof (induction rule: honest_step.induct)
  case (honest_write w e r e')
  then show ?case using direct_write_coupled [OF _ _ _ _ _ codec] by blast
next
  case (honest_checkpoint e r e')
  then show ?case using quiet.take_checkpoint_effect [OF _ has_room_words(1)] quiet_coupled by blast
next
  case (honest_compact retention ack e r e')
  then show ?case using quiet.compact_effect [OF _ has_room_words(1)] quiet_coupled by blast
next
  case (honest_maintain e r e')
  then show ?case using quiet.maintain_effect [OF _ has_room_words(1)] quiet_coupled by blast
next
  case (honest_rebuild e r e')
  then show ?case using rebuild_unchanged(1) by blast
next
  case (honest_materialize e r''' e')
  then show ?case using materialize_coupled faithful_own by blast
next
  case (honest_publish intent e r e')
  then show ?case using quiet.publish_compaction_effect [OF _ _ has_room_words(1)] quiet_coupled by blast
next
  case (honest_finish e r e')
  then show ?case using quiet.finish_compaction_effect [OF _ _ has_room_words(1)] quiet_coupled by blast
next
  case (honest_register d e rt e')
  then show ?case using register_table_coupled [OF _ _ _ _ _ codec] by blast
next
  case (honest_register_identified idd e rt e')
  then show ?case using register_identified_coupled by blast
next
  case (honest_interrupt phase e r e')
  then show ?case by (auto elim!: interrupt_cases)
next
  case (honest_abandon e r e')
  then show ?case by (auto simp: abandon_staged_group_def closed_coupled)
next
  case (honest_plan e r e')
  then show ?case by (auto simp: begin_compaction_def dest: begin_coupled split: if_splits)
qed (auto simp: inject_compaction_fault_def
    dest: acknowledge_coupled begin_coupled park_coupled discard_coupled park_compaction_coupled subscribe_coupled)

lemma honest_coupled: "honestly_reachable W env dir policy e \<Longrightarrow> codec env \<Longrightarrow> coupled env e"
  by (induction rule: honestly_reachable.induct)
    (auto dest: fresh_coupled intro: honest_step_coupled reachable_ok [OF honest_reachable])

section \<open>Properties\<close>


text \<open>C19 Rebuilding is the identity: on such an engine, with a directory that serves its registered
  families (whatever it does with the rows of identities an evolution retired), \<open>rebuild_from_log\<close>
  succeeds when the storage kernel commits and leaves every table, in fact the whole engine, as it was.\<close>

theorem rebuild_is_identity:
  assumes "codec env" and "honestly_reachable W env dir policy e"
    and "faithful_directory dir' (family_inventory (eng_catalog e))"
    and "env_commit_fault env (eng_storage e) = None"
  shows "\<exists>receipt. rebuild_from_log env dir' e = (Inr receipt, e)"
proof -
  obtain r e' where run: "rebuild_from_log env dir' e = (r, e')" by (metis surj_pair)
  have "engine_ok env e" by (rule reachable_ok [OF honest_reachable [OF assms(2)]])
  from rebuild_unchanged [OF this honest_coupled [OF assms(2,1)] assms(3) run] assms(4) run
  show ?thesis by auto
qed

section \<open>Witnesses\<close>

lemma sample_codec: "codec sample_env"
  by (auto simp: codec_def sample_env_def unat_of_nat split: if_splits)

lemma sample_fresh_log: "log_names env (eng_storage sample_fresh) F"
proof -
  have "latest_checkpoint env (eng_storage sample_fresh) = Inr None"
    by (simp add: sample_fresh_def latest_checkpoint_def counter_get_def counter_insert_def store_empty_def
        storage_layout_key_def latest_checkpoint_key_def tbl_get_def)
  moreover have "all_operations (log_suffix (eng_storage sample_fresh) None) = []"
    by (simp add: sample_fresh_def log_suffix_def versioned_entries_from_def counter_insert_def store_empty_def
        tbl_from_def all_operations_def)
  ultimately show ?thesis by (simp add: log_names_def resume_point_def)
qed

lemma sample_opened_honest: "honestly_reachable W sample_env dir sample_policy sample_opened"
proof (rule honest_next [OF honest_fresh [OF sample_fresh_fresh]])
  have "fst (register_table sample_env sample_descriptor sample_fresh) = Inr ''notes''"
    by (simp add: register_table_def Let_def sample_descriptor_def table_descriptor_new_def
        td_family_identity_def family_registration_state_def registration_for_table_def registration_for_family_def
        engine_put_def engine_write_def store_write_def catalog_insert_def registration_new_def)
  then have "register_table sample_env sample_descriptor sample_fresh = (Inr ''notes'', sample_opened)"
    by (simp add: sample_opened_def prod_eq_iff)
  then show "honest_step W sample_env dir sample_fresh sample_opened"
    by (rule honest_register)
      (simp_all add: sample_addressable declarable_def sample_fresh_log family_inventory_def registered_family_def
        catalog_family_identity_def registration_for_table_def)
qed

lemma sample_opened_write:
  assumes "run_write sample_env w sample_opened = (r, e')" and "domain_keyed sample_env w"
    and "W sample_opened w"
  shows "honestly_reachable W sample_env dir sample_policy e'"
  by (rule honest_next [OF sample_opened_honest honest_write [OF assms(1)]])
    (simp_all add: sample_addressable assms(2,3))


lemma rebuild_is_identity_witness:
  "\<exists>r e' receipt. run_write sample_env
       (DirectAssert \<lparr>ka_table = ''notes'', ka_key = Domain ''a'', ka_record = 5\<rparr>) sample_opened = (r, e')
     \<and> rebuild_from_log sample_env sample_directory e' = (Inr receipt, e')"
proof -
  let ?w = "DirectAssert \<lparr>ka_table = ''notes'', ka_key = Domain ''a'', ka_record = (5::nat)\<rparr>"
  obtain r e' where run: "run_write sample_env ?w sample_opened = (r, e')" by (metis surj_pair)
  have "faithful_directory sample_directory fams" for fams
    by (simp add: faithful_directory_def sample_directory_def)
  from rebuild_is_identity [OF sample_codec sample_opened_write [OF run, where W = "\<lambda>e w. True"] this] run show ?thesis by auto
qed

end
