(* ===== verification/Parking_Theorems.thy ===== *)
theory Parking_Theorems
  imports Coupling_Theorems
begin

text \<open>
  From an engaged session to durable commits: on the engine of a well-behaved component, whatever a session
  buffered and parked does land (src/engine.rs \<open>park_staged_group\<close>, \<open>materialize_staged_group\<close>).
\<close>

section \<open>A group lands when its operations are named\<close>

lemma materialize_operation_total:
  assumes dir: "own_directory dir fams" and named: "op_named env fams oper" and key: "vop_key oper = Some key"
  shows "\<exists>t. materialize_operation env dir s oper = Inr t"
proof -
  have "row_applies env dir fams (view_row_new (vop_family oper) key (vop_payload oper))"
    using dir named
    by (auto simp: row_applies_def own_directory_def op_named_def op_exact_def operation_effect_def view_row_new_def
        split: versioned_payload.splits)
  from materialize_row_put [OF this, of s] key show ?thesis by (simp add: materialize_operation_def)
qed

lemma foldR_total: "(\<And>s x. x \<in> set xs \<Longrightarrow> \<exists>t. f s x = Inr t) \<Longrightarrow> \<exists>t. foldR f s xs = Inr t"
proof (induction xs arbitrary: s)
  case (Cons x xs)
  then obtain t where "f s x = Inr t" by (meson list.set_intros(1))
  with Cons.IH [of t] Cons.prems show ?case by simp
qed simp

lemma land_group_total:
  assumes dir: "own_directory dir fams"
    and ops: "\<forall>oper \<in> set (all_operations (sg_entries g)). op_named env fams oper \<and> vop_key oper \<noteq> None"
  shows "\<exists>t. land_group env dir mirror counts g completes s = Inr t"
proof -
  have "\<exists>b. land_group_entry env dir mirror a v = Inr b" if v: "v \<in> set (sg_entries g)" for a v
  proof -
    have "\<exists>t. foldR (materialize_operation env dir) u (ne_list (ve_operations v)) = Inr t" for u
    proof (rule foldR_total)
      fix u oper
      assume "oper \<in> set (ne_list (ve_operations v))"
      with v have "oper \<in> set (all_operations (sg_entries g))" by (auto simp: all_operations_def)
      with ops have "op_named env fams oper" "vop_key oper \<noteq> None" by auto
      then show "\<exists>t. materialize_operation env dir u oper = Inr t" using materialize_operation_total [OF dir] by blast
    qed
    from this [of "snd a"] show ?thesis by (auto simp: land_group_entry_def Let_def case_prod_beta)
  qed
  from foldR_total [of "sg_entries g" "land_group_entry env dir mirror", OF this] obtain b where
    "foldR (land_group_entry env dir mirror) ((lc_commits counts, lc_versioned counts), s) (sg_entries g) = Inr b" by blast
  then show ?thesis by (simp add: land_group_def Let_def case_prod_beta)
qed

section \<open>The call\<close>

lemma materialize_stores:
  assumes idle: "eng_staging e = None" and g: "staging_slot (eng_storage e) = Some g" and ne: "sg_entries g \<noteq> []"
    and base: "base_predecessor g = chain_head (eng_storage e)"
    and chain: "chain_verified env (chain_head (eng_storage e)) (sg_entries g)"
    and seqs: "sequences_from (committed_commit_sequence (eng_storage e)) (committed_snapshot (eng_storage e)) (sg_entries g)"
    and land: "land_group env dir (writes_mirror_outbox (eng_policy e)) (log_counts (eng_storage e)) g
      (intent_planned_pending (eng_storage e)) (eng_storage e) = Inr t"
    and fault: "env_commit_fault env t = None"
  shows "\<exists>r e'. materialize_staged_group env dir e = (r, e') \<and> eng_storage e' = t"
proof -
  let ?s = "eng_storage e" and ?es = "sg_entries g"
  have checks: "verify_group_entries env (committed_commit_sequence ?s) (chain_head ?s)
      (committed_commit_sequence ?s) (committed_snapshot ?s) ?es = Inr (prospective_head g)"
    "prospective_head g = Some (ve_entry_digest (last ?es))"
    using chain seqs ne by (simp_all add: verify_group_entries_Inr prospective_head_def last_entry_def chain_end_def)
  obtain r2 g2 where a: "announce_all env dir (group_announcements g) (eng_subscriptions e) = (r2, g2)"
    by (cases "announce_all env dir (group_announcements g) (eng_subscriptions e)")
  show ?thesis
    by (cases r2) (simp_all add: materialize_staged_group_def Let_def idle g base checks ok_or_def engine_write_def
        store_write_def lift_storage_def land fault a)
qed

text \<open>What parking leaves when it returns a receipt: the session's entries in the slot, on an unmoved base.\<close>

lemma parked_receipt:
  assumes run: "park_staged_group env e = (Inr (Some receipt), e1)" and ss: "eng_staging e = Some ss"
    and ok: "engine_ok env e"
  shows "e1 = e\<lparr>eng_staging := None, eng_storage := park_in (into_group ss) (eng_storage e)\<rparr>"
    and "ss_entries ss \<noteq> []" and "chain_verified env (chain_head (eng_storage e)) (ss_entries ss)"
    and "sequences_from (committed_commit_sequence (eng_storage e)) (committed_snapshot (eng_storage e)) (ss_entries ss)"
proof -
  have session: "session_ok env ss" using ok ss by (simp add: engine_ok_def)
  show "ss_entries ss \<noteq> []"
    using run ss by (auto simp: park_staged_group_def session_entry_count_def)
  have "ensure_staging_base_current (eng_storage e) (ss_base ss) = Inr ()"
    using run ss by (auto simp: park_staged_group_def Let_def bindS_reads split: if_splits sum.splits)
  then have "chain_head (eng_storage e) = sb_chain_head (ss_base ss)"
    "committed_commit_sequence (eng_storage e) = sb_commit_sequence (ss_base ss)"
    "committed_snapshot (eng_storage e) = sb_snapshot (ss_base ss)"
    by (auto simp: ensure_staging_base_current_def Let_def split: if_splits)
  with session show "chain_verified env (chain_head (eng_storage e)) (ss_entries ss)"
    "sequences_from (committed_commit_sequence (eng_storage e)) (committed_snapshot (eng_storage e)) (ss_entries ss)"
    by (simp_all add: session_ok_def)
  show "e1 = e\<lparr>eng_staging := None, eng_storage := park_in (into_group ss) (eng_storage e)\<rparr>"
    using run ss
    by (cases rule: engine_put_cases [of env "park_in (into_group ss)" "e\<lparr>eng_staging := None\<rparr>"])
      (auto simp: park_staged_group_def Let_def bindS_reads split: if_splits sum.splits)
qed

lemma park_in_base [simp]:
  "committed_snapshot (park_in g s) = committed_snapshot s" "chain_head (park_in g s) = chain_head s"
  "committed_commit_sequence (park_in g s) = committed_commit_sequence s"
  by (simp_all add: committed_snapshot_def committed_commit_sequence_def park_in_def counter_get_def chain_head_def)

text \<open>Hence the parked group lands when the store commits: the call runs and empties the slot.\<close>

lemma parked_session_materializes:
  assumes coupled: "coupled env e" and ok: "engine_ok env e" and ss: "eng_staging e = Some ss"
    and park: "park_staged_group env e = (Inr (Some receipt), e1)"
    and dir: "own_directory dir (family_inventory (eng_catalog e))" and fault: "\<forall>s. env_commit_fault env s = None"
  obtains r e2 where "materialize_staged_group env dir e1 = (r, e2)" and "staging_slot (eng_storage e2) = None"
proof -
  let ?g = "into_group ss" and ?s = "eng_storage e1"
  note parked = parked_receipt [OF park ss ok]
  have coupled1: "coupled env e1" and ok1: "engine_ok env e1"
    using park_coupled [OF park coupled] park_staged_group_ok [OF park ok] by auto
  have slot: "staging_slot ?s = Some ?g" and frame: "eng_staging e1 = None" "eng_catalog e1 = eng_catalog e"
    and reads: "chain_head ?s = chain_head (eng_storage e)"
      "committed_commit_sequence ?s = committed_commit_sequence (eng_storage e)"
      "committed_snapshot ?s = committed_snapshot (eng_storage e)"
    by (simp_all add: parked(1))
  have g: "sg_entries ?g = ss_entries ss" by (simp add: into_group_def)
  have "\<forall>oper \<in> set (all_operations (sg_entries ?g)).
      op_named env (family_inventory (eng_catalog e1)) oper \<and> vop_key oper \<noteq> None"
    using coupled1 ok1 slot by (auto simp: coupled_def pending_named_def engine_ok_session list_all_iff op_applicable_def)
  from land_group_total [OF dir this [unfolded frame]] obtain t where
    land: "land_group env dir (writes_mirror_outbox (eng_policy e1)) (log_counts ?s) ?g (intent_planned_pending ?s) ?s = Inr t"
    by blast
  have "base_predecessor ?g = chain_head ?s"
    using parked(2,3) by (cases "ss_entries ss") (simp_all add: base_predecessor_def first_entry_def g reads)
  from materialize_stores [OF frame(1) slot _ this _ _ land] parked(2-4) fault obtain r e2 where
    "materialize_staged_group env dir e1 = (r, e2)" "eng_storage e2 = t" by (auto simp: g reads)
  moreover have "staging_slot t = None" using land by (auto simp: land_group_def bindR_eq_Inr Let_def)
  ultimately show thesis using that by blast
qed

text \<open>C28 What a session parks lands: on an engine a well-behaved component can reach, when the engaged
  session parks with a receipt and the storage kernel commits, materializing appends exactly the session's
  entries to the versioned log, empties the slot, applies their operations to the content, and leaves the
  tables following it; the call returns an error only where announcing the deltas did.\<close>

theorem parked_session_lands:
  assumes "codec env" and "honestly_reachable W env dir policy e" and "eng_staging e = Some ss"
    and "park_staged_group env e = (Inr (Some receipt), e1)"
    and "faithful_directory dir' (family_inventory (eng_catalog e))" and "\<forall>s. env_commit_fault env s = None"
    and "unat (committed_commit_sequence (eng_storage e)) + length (ss_entries ss) < 2 ^ 64"
  shows "\<exists>r e2. materialize_staged_group env dir' e1 = (r, e2)
    \<and> versioned_entries (eng_storage e2) = versioned_entries (eng_storage e) @ ss_entries ss
    \<and> staging_slot (eng_storage e2) = None
    \<and> logged_rows env (eng_storage e2) =
        after_writes (all_operations (ss_entries ss)) (logged_rows env (eng_storage e))
    \<and> engine_follows env e2
    \<and> (\<forall>err. r = Inl err \<longrightarrow>
        fst (announce_all env dir' (group_announcements (into_group ss)) (eng_subscriptions e)) = Inl err)"
proof -
  let ?g = "into_group ss" and ?s = "eng_storage e1"
  have coupled: "coupled env e" and ok: "engine_ok env e"
    using honest_coupled [OF assms(2,1)] reachable_ok [OF honest_reachable [OF assms(2)]] by auto
  note parked = parked_receipt [OF assms(4,3) ok]
  have coupled1: "coupled env e1" and ok1: "engine_ok env e1"
    using park_coupled [OF assms(4) coupled] park_staged_group_ok [OF assms(4) ok] by auto
  have slot: "staging_slot ?s = Some ?g" and history: "history_reads (eng_storage e) ?s"
    and frame: "eng_catalog e1 = eng_catalog e" "eng_subscriptions e1 = eng_subscriptions e"
    by (simp_all add: parked(1))
  have entries: "versioned_entries ?s = versioned_entries (eng_storage e)"
    and fits: "group_fits e1" and policy: "eng_policy e1 \<noteq> None"
    using history assms(7) coupled1
    by (simp_all add: history_reads_def versioned_entries_def group_fits_def slot into_group_def coupled_def)
  note own = faithful_own [OF assms(5)]
  obtain r e2 where run: "materialize_staged_group env dir' e1 = (r, e2)" and empty: "staging_slot (eng_storage e2) = None"
    by (rule parked_session_materializes [OF coupled ok assms(3,4) own assms(6)])
  have follows: "engine_follows env e2"
    using materialize_coupled [OF run ok1 fits coupled1] own
    by (simp add: coupled_def coupled_content_def engine_follows_def frame)
  show ?thesis
    using ok1 fits policy slot run
  proof (cases rule: materialize_lands)
    case (landed mirror counts completes)
    then have m: "group_landed (writes_mirror_outbox (eng_policy e1)) ?g ?s (eng_storage e2)"
      and err: "\<And>err. r = Inl err \<Longrightarrow>
        fst (announce_all env dir' (group_announcements ?g) (eng_subscriptions e1)) = Inl err"
      by (auto simp: group_materialized_def)
    from run empty follows group_landed_entries [OF m] landed(3) err history_reads_content(1) [OF history] show ?thesis
      by (auto simp: into_group_def entries frame)
  qed (use empty slot in simp)
qed

section \<open>Witness\<close>

abbreviation sample_assertion :: "nat direct_write" where
  "sample_assertion \<equiv> DirectAssert \<lparr>ka_table = ''notes'', ka_key = Domain ''a'', ka_record = 5\<rparr>"

lemma sample_opened_start:
  "staging_slot (eng_storage sample_opened) = None" "committed_commit_sequence (eng_storage sample_opened) = 0"
  by (simp_all add: sample_opened_engine same_history_reads [OF same_history_updates(5)])
    (simp_all add: sample_fresh_def staging_slot_def counter_insert_def store_empty_def committed_commit_sequence_def
      counter_get_def commit_sequence_genesis_def storage_layout_key_def latest_commit_sequence_key_def tbl_get_def)

lemma sample_buffers:
  obtains e0 e1 ss r where "begin_staged_group sample_env sample_opened = (Inr (), e0)"
    and "run_write sample_env sample_assertion e0 = (r, e1)" and "e1 = sample_opened\<lparr>eng_staging := Some ss\<rparr>"
    and "length (ss_entries ss) = 1" and "ensure_staging_base_current (eng_storage sample_opened) (ss_base ss) = Inr ()"
proof -
  let ?base = "\<lparr>sb_chain_head = chain_head (eng_storage sample_opened),
    sb_commit_sequence = committed_commit_sequence (eng_storage sample_opened),
    sb_snapshot = committed_snapshot (eng_storage sample_opened), sb_identified_counters = []\<rparr>"
  let ?ss = "staging_session_new ?base (policy_store_name sample_policy) (store_schema_hash sample_env sample_opened)"
  let ?e0 = "sample_opened\<lparr>eng_staging := Some ?ss\<rparr>"
  let ?ss1 = "snd (append_single sample_env Assert (td_family_identity sample_descriptor) (Domain ''a'')
    (PayloadRecord [5]) (set_overlay ''notes'' (Domain ''a'') Present ?ss))"
  note slot = sample_opened_start(1)
  have begun: "begin_staged_group sample_env sample_opened = (Inr (), ?e0)"
    by (simp add: begin_staged_group_def slot)
  have catalog: "eng_catalog sample_opened = [registration_new (td_family_identity sample_descriptor)]"
    by (simp add: sample_opened_engine)
  have named: "registration_table_name (registration_new (td_family_identity sample_descriptor)) = ''notes''"
    "registration_identity (registration_new (td_family_identity sample_descriptor)) = td_family_identity sample_descriptor"
    by (simp_all add: registration_new_def registration_table_name_def sample_descriptor_def table_descriptor_new_def
        td_family_identity_def)
  have td: "td_name sample_descriptor = ''notes''" by (simp add: sample_descriptor_def table_descriptor_new_def)
  have registered: "ensure_registered ?e0 ''notes'' = Inr ()"
    "registered_family ?e0 ''notes'' = Inr (td_family_identity sample_descriptor)"
    by (simp_all add: ensure_registered_def is_registered_def registered_family_def catalog_family_identity_def
        registration_for_table_def catalog named td)
  have absent: "record_at ?e0 ''notes'' (Domain ''a'') = None"
    by (simp add: record_at_def sample_opened_engine)
      (simp add: sample_fresh_def counter_insert_def catalog_row_insert_def store_empty_def)
  have overlay: "overlay_get ?ss ''notes'' (Domain ''a'') = None"
    by (simp add: overlay_get_def staging_session_new_def)
  obtain receipt where staged: "staged_assert_keyed sample_env ?e0 \<lparr>ka_table = ''notes'', ka_key = Domain ''a'', ka_record = 5\<rparr> ?ss
      = (Inr receipt, ?ss1)"
    by (simp add: staged_assert_keyed_def registered absent staged_key_present_def overlay
        versioned_record_payload_def prod.case_eq_if Let_def)
  have wrote: "run_write sample_env sample_assertion ?e0 = (Inr (), sample_opened\<lparr>eng_staging := Some ?ss1\<rparr>)"
    by (simp add: assert_keyed_def Let_def registered with_session_def staged forget_def)
  have "length (ss_entries ?ss1) = 1" "ss_base ?ss1 = ?base"
    by (simp_all add: append_single_def append_entry_def Let_def set_overlay_def staging_session_new_def)
  moreover have "ensure_staging_base_current (eng_storage sample_opened) ?base = Inr ()"
    by (simp add: ensure_staging_base_current_def)
  ultimately show thesis using that [OF begun wrote] by simp
qed

lemma parked_session_lands_witness:
  "\<exists>e0 e1 r e2 receipt r' e3. begin_staged_group sample_env sample_opened = (Inr (), e0)
     \<and> run_write sample_env sample_assertion e0 = (r, e1)
     \<and> park_staged_group sample_env e1 = (Inr (Some receipt), e2)
     \<and> materialize_staged_group sample_env sample_directory e2 = (r', e3)
     \<and> length (versioned_entries (eng_storage e3)) = 1 \<and> staging_slot (eng_storage e3) = None"
proof (rule sample_buffers)
  fix e0 e1 ss r
  assume begun: "begin_staged_group sample_env sample_opened = (Inr (), e0)"
    and wrote: "run_write sample_env sample_assertion e0 = (r, e1)"
    and e1: "e1 = sample_opened\<lparr>eng_staging := Some ss\<rparr>" and one: "length (ss_entries ss) = 1"
    and base: "ensure_staging_base_current (eng_storage sample_opened) (ss_base ss) = Inr ()"
  note slot = sample_opened_start(1) and start = sample_opened_start(2)
  obtain receipt e2 where parked: "park_staged_group sample_env e1 = (Inr (Some receipt), e2)"
    using one by (simp add: park_staged_group_def e1 session_entry_count_def bindS_reads base slot Let_def
        engine_put_def engine_write_def store_write_def)
  have keyed: "domain_keyed sample_env sample_assertion" by simp
  have room: "has_room e0" using begun
    by (auto simp: begin_staged_group_def has_room_def start slot split: if_splits)
  have addressable: "commits_addressable sample_env e0" using begun
    by (intro sample_addressable) (auto simp: begin_staged_group_def slot split: if_splits)
  have "honestly_reachable (\<lambda>e w. True) sample_env dir sample_policy e0" for dir
    by (rule honest_next [OF sample_opened_honest honest_engage [OF begun]])
  then have honest: "honestly_reachable (\<lambda>e w. True) sample_env dir sample_policy e1" for dir
    by (rule honest_next) (rule honest_write [OF wrote room addressable keyed TrueI])
  have dir: "faithful_directory sample_directory fams" for fams
    by (simp add: faithful_directory_def sample_directory_def)
  from parked_session_lands [OF sample_codec honest _ parked dir, of ss] obtain r' e3 where
    "materialize_staged_group sample_env sample_directory e2 = (r', e3)"
    "length (versioned_entries (eng_storage e3)) = 1" "staging_slot (eng_storage e3) = None"
    by (auto simp: e1 one start)
  with begun wrote parked show ?thesis by blast
qed

end
