(* ===== verification/Identifier_Laws.thy ===== *)
theory Identifier_Laws
  imports Coupling_Registration
begin

text \<open>
  The identifiers of engine-identified tables (src/engine.rs \<open>assert_identified\<close>, src/staging.rs
  \<open>mint_identifier\<close>, the counters \<open>materialize_staged_group\<close> advances): what one counter per table promises
  of the stored rows, of a buffering session and of a parked group.
\<close>

section \<open>The counters\<close>

lemma counter_key_inject [simp]: "identified_counter_key a = identified_counter_key b \<longleftrightarrow> a = b"
  by (simp add: identified_counter_key_def)

lemma family_counter_key: "family_identified_counter_key f = identified_counter_key (family_table_name f)"
  by (simp add: family_identified_counter_key_def identified_counter_key_def)

lemma next_record_identifier_cong:
  "st_identified_counters t = st_identified_counters s \<Longrightarrow> next_record_identifier t = next_record_identifier s"
  by (simp add: next_record_identifier_def fun_eq_iff)

lemma next_record_identifier_insert [simp]:
  "next_record_identifier (identified_counter_insert (identified_counter_key table) i s) =
   (next_record_identifier s)(table := i)"
  by (auto simp: next_record_identifier_def identified_counter_insert_def table_simps fun_eq_iff)

section \<open>What a sequence of operations mints\<close>

text \<open>An assertion under an identifier moves its table's counter past it.\<close>

definition advance_by :: "versioned_log_operation \<Rightarrow> (string \<Rightarrow> u64) \<Rightarrow> string \<Rightarrow> u64" where
  "advance_by oper c =
     (case vop_key oper of
        Some (Identifier i) \<Rightarrow>
          if vop_operation oper = Assert then c(family_table_name (vop_family oper) := i + 1) else c
      | _ \<Rightarrow> c)"

text \<open>An assertion uses an identifier from the counter on, anything else that leaves a row one that was minted.\<close>

definition mints_or_names :: "(string \<Rightarrow> u64) \<Rightarrow> versioned_log_operation \<Rightarrow> bool" where
  "mints_or_names c oper \<longleftrightarrow> (\<forall>i. vop_key oper = Some (Identifier i) \<longrightarrow>
     (vop_operation oper = Assert \<longrightarrow> c (family_table_name (vop_family oper)) \<le> i \<and> i < i + 1)
     \<and> (vop_operation oper \<notin> {Assert, Retract} \<longrightarrow> i < c (family_table_name (vop_family oper))))"

fun mints :: "(string \<Rightarrow> u64) \<Rightarrow> versioned_log_operation list \<Rightarrow> bool" where
  "mints c [] = True"
| "mints c (oper # opers) \<longleftrightarrow> mints_or_names c oper \<and> mints (advance_by oper c) opers"

abbreviation advanced :: "(string \<Rightarrow> u64) \<Rightarrow> versioned_log_operation list \<Rightarrow> string \<Rightarrow> u64" where
  "advanced c opers \<equiv> fold advance_by opers c"

lemma mints_append: "mints c (xs @ ys) \<longleftrightarrow> mints c xs \<and> mints (advanced c xs) ys"
  by (induction xs arbitrary: c) simp_all

lemma advance_by_grows: "mints_or_names c oper \<Longrightarrow> c table \<le> advance_by oper c table"
  by (auto simp: advance_by_def mints_or_names_def split: option.split record_key.split)

lemma advanced_grows: "mints c opers \<Longrightarrow> c table \<le> advanced c opers table"
proof (induction opers arbitrary: c)
  case (Cons oper opers)
  then show ?case using advance_by_grows [of c oper table] order_trans by fastforce
qed simp

definition domain_op :: "versioned_log_operation \<Rightarrow> bool" where
  "domain_op oper \<longleftrightarrow> (\<forall>i. vop_key oper \<noteq> Some (Identifier i))"

lemma domain_ops: "list_all domain_op opers \<Longrightarrow> mints c opers \<and> advanced c opers = c"
  by (induction opers) (auto simp: domain_op_def mints_or_names_def advance_by_def split: option.split record_key.split)

section \<open>Stored rows\<close>

definition rows_minted :: "'r store \<Rightarrow> (string \<Rightarrow> u64) \<Rightarrow> bool" where
  "rows_minted s c \<longleftrightarrow> (\<forall>table i. typed_row s table (Identifier i) \<noteq> None \<longrightarrow> i < c table)"

lemma rows_minted_cong: "st_identified_rows t = st_identified_rows s \<Longrightarrow> rows_minted t = rows_minted s"
  by (simp add: rows_minted_def typed_row_def fun_eq_iff)

lemma rows_minted_put:
  assumes "rows_minted s c" and "\<And>x. c x \<le> c' x"
    and "\<And>i. key = Identifier i \<Longrightarrow> row \<noteq> None \<Longrightarrow> i < c' table"
  shows "rows_minted (put_row table key row s) c'"
  unfolding rows_minted_def
proof (intro allI impI)
  fix t i
  assume row: "typed_row (put_row table key row s) t (Identifier i) \<noteq> None"
  show "i < c' t"
  proof (cases "t = table \<and> Identifier i = key")
    case True
    with row assms(3) [of i] show ?thesis by (auto simp: typed_row_put_row)
  next
    case False
    with row have "typed_row s t (Identifier i) \<noteq> None" by (auto simp: typed_row_put_row split: if_splits)
    with assms(1) have "i < c t" unfolding rows_minted_def by blast
    with assms(2) [of t] show ?thesis by (rule less_le_trans [rotated])
  qed
qed

section \<open>A buffering session\<close>

definition pending_next :: "(string \<Rightarrow> u64) \<Rightarrow> staging_session \<Rightarrow> string \<Rightarrow> u64" where
  "pending_next c ss table = unwrap_or (c table) (ss_pending_identifiers ss (identified_counter_key table))"

definition session_mints :: "string set \<Rightarrow> (string \<Rightarrow> u64) \<Rightarrow> staging_session \<Rightarrow> bool" where
  "session_mints K c ss \<longleftrightarrow> mints c (all_operations (ss_entries ss))
     \<and> (\<forall>table \<in> K. advanced c (all_operations (ss_entries ss)) table \<le> pending_next c ss table
          \<and> (\<forall>i. overlay_get ss table (Identifier i) = Some Present \<longrightarrow>
               i < advanced c (all_operations (ss_entries ss)) table))"

lemma overlay_get_identifier:
  "overlay_get (set_overlay table (Identifier i) p ss) t (Identifier j) =
   (if t = table \<and> j = i then Some p else overlay_get ss t (Identifier j))"
  by (simp add: overlay_get_def set_overlay_def word_unat_eq_iff)

lemma session_mints_new [simp]: "session_mints K c (staging_session_new base name schema)"
  by (simp add: session_mints_def staging_session_new_def all_operations_def pending_next_def overlay_get_def)

lemma session_mints_pre_image [simp]: "session_mints K c (park_pre_image i bs ss) = session_mints K c ss"
  by (simp add: session_mints_def park_pre_image_def pending_next_def overlay_get_def)

lemma session_mints_outside: "table \<notin> K \<Longrightarrow> session_mints K c (set_overlay table key p ss) = session_mints K c ss"
  by (auto simp: session_mints_def set_overlay_def pending_next_def overlay_get_def)

lemma session_mints_absent:
  "session_mints K c ss \<Longrightarrow> session_mints K c (set_overlay table key Absent ss)"
  by (auto simp: session_mints_def set_overlay_def pending_next_def overlay_get_def split: if_splits)

lemma appended_session:
  assumes "append_entry p opers ss = (r, ss')"
  shows "all_operations (ss_entries ss') = all_operations (ss_entries ss) @ ne_list opers"
    and "pending_next c ss' = pending_next c ss" and "overlay_get ss' = overlay_get ss"
  using assms by (auto simp: append_entry_def Let_def all_operations_def versioned_entry_new_def
      pending_next_def overlay_get_def fun_eq_iff)

text \<open>Operations that mint nothing only have to name minted identifiers.\<close>

lemma session_mints_append:
  assumes "append_entry p opers ss = (r, ss')" and "session_mints K c ss"
    and "mints (advanced c (all_operations (ss_entries ss))) (ne_list opers)"
    and "advanced (advanced c (all_operations (ss_entries ss))) (ne_list opers) =
      advanced c (all_operations (ss_entries ss))"
  shows "session_mints K c ss'"
  using assms(2-4) by (simp add: session_mints_def appended_session [OF assms(1)] mints_append)

lemma session_mints_single:
  fixes p :: "'r engine_env"
  assumes "append_single p oper fam key payload ss = (r, ss')" and "session_mints K c ss"
    and "\<And>i. key = Identifier i \<Longrightarrow> oper = Retract \<or>
      oper = Mutate \<and> i < advanced c (all_operations (ss_entries ss)) (family_table_name fam)"
  shows "session_mints K c ss'"
  by (rule session_mints_append [OF assms(1) [unfolded append_single_def] assms(2)])
    (use assms(3) in \<open>auto simp: mints_or_names_def advance_by_def split: record_key.split\<close>)

section \<open>Buffered writes\<close>

text \<open>What a component promises of its writes: each table is used with keys of one kind (\<open>K\<close> holds the
  engine-identified ones), and the identifiers of a table have not run out.\<close>

definition identifiers_left :: "'r engine \<Rightarrow> string \<Rightarrow> bool" where
  "identifiers_left e table \<longleftrightarrow> next_record_identifier (eng_storage e) table \<noteq> - 1
     \<and> (\<forall>ss. eng_staging e = Some ss \<longrightarrow>
          pending_next (next_record_identifier (eng_storage e)) ss table \<noteq> - 1)"

fun kinded :: "string set \<Rightarrow> 'r engine \<Rightarrow> 'r direct_write \<Rightarrow> bool" where
  "kinded K e (DirectAssert a) = (ka_table a \<notin> K)"
| "kinded K e (DirectMutate m) = (km_table m \<notin> K)"
| "kinded K e (DirectRetract rt) = (rt_table rt \<notin> K)"
| "kinded K e (DirectAssertIdentified a) = (ia_table a \<in> K \<and> identifiers_left e (ia_table a))"
| "kinded K e (DirectMutateIdentified m) = (im_table m \<in> K)"
| "kinded K e (DirectRetractIdentified rt) = (irt_table rt \<in> K)"
| "kinded K e (DirectCommit q) = (crq_table q \<notin> K)"
| "kinded K e (DirectAtomic ws) = list_all (\<lambda>w. aw_table w \<notin> K) ws"

lemma bind_session:
  "session_mints K c ss \<Longrightarrow> (\<And>x. r = Inr x \<Longrightarrow> session_mints K c (snd (f x ss))) \<Longrightarrow>
   session_mints K c (snd (bindS (r, ss) f))"
  by (cases r) simp_all

lemma minted_word: "(i :: u64) \<noteq> - 1 \<Longrightarrow> i < i + 1"
  by (rule word_below_next)

lemma single_session:
  fixes p :: "'r engine_env"
  assumes "session_mints K c ss" and "\<And>i. key = Identifier i \<Longrightarrow> oper = Retract \<or>
      oper = Mutate \<and> i < advanced c (all_operations (ss_entries ss)) (family_table_name fam)"
  shows "session_mints K c (snd (case append_single p oper fam key payload ss of
       (n, ss') \<Rightarrow> (case n of (sq, snap) \<Rightarrow> Pair (Inr (g sq snap))) ss'))"
  using session_mints_single [OF _ assms] by (cases "append_single p oper fam key payload ss") (auto split: prod.split)

lemma staged_keyed_mints:
  assumes "session_mints K c ss"
  shows "ka_table a \<notin> K \<Longrightarrow> domain_key (ka_key a) \<Longrightarrow> session_mints K c (snd (staged_assert_keyed env e a ss))"
    and "km_table m \<notin> K \<Longrightarrow> domain_key (km_key m) \<Longrightarrow> session_mints K c (snd (staged_mutate_keyed env e m ss))"
    and "rt_table rt \<notin> K \<Longrightarrow> domain_key (rt_key rt) \<Longrightarrow> session_mints K c (snd (staged_retract env e rt ss))"
  using assms
  by (auto simp: staged_assert_keyed_def staged_mutate_keyed_def staged_retract_def Let_def
      split: option.split intro!: bind_session single_session session_mints_outside [THEN iffD2])

text \<open>On the engine-identified tables the durable counter and rows agree with \<open>c\<close>.\<close>

lemma staged_mutate_identified_mints:
  assumes mints: "session_mints K c ss" and table: "im_table m \<in> K" and rows: "rows_minted (eng_storage e) c"
  shows "session_mints K c (snd (staged_mutate_identified env e m ss))"
proof -
  let ?ops = "all_operations (ss_entries ss)" and ?key = "Identifier (im_identifier m)"
  have grows: "c (im_table m) \<le> advanced c ?ops (im_table m)"
    using mints by (simp add: session_mints_def advanced_grows)
  have named: "im_identifier m < advanced c ?ops (im_table m)"
    if "staged_key_present ss (im_table m) ?key (identified_record_at e (im_table m) (im_identifier m) \<noteq> None)"
  proof (cases "overlay_get ss (im_table m) ?key")
    case None
    with that have "typed_row (eng_storage e) (im_table m) ?key \<noteq> None"
      by (simp add: staged_key_present_def identified_record_at_def typed_row_def)
    with rows have "im_identifier m < c (im_table m)" unfolding rows_minted_def by blast
    with grows show ?thesis by simp
  next
    case (Some p)
    with that mints table show ?thesis
      by (auto simp: staged_key_present_def session_mints_def split: overlay_presence.splits)
  qed
  have overlay: "session_mints K c (set_overlay (im_table m) ?key Present ss)"
    if "im_identifier m < advanced c ?ops (im_table m)"
    using mints that
    by (auto simp: session_mints_def set_overlay_def pending_next_def overlay_get_def word_unat_eq_iff [symmetric]
        split: if_splits)
  show ?thesis
    using mints named overlay
    by (auto simp: staged_mutate_identified_def Let_def registered_table_name intro!: bind_session single_session)
qed

lemma staged_retract_identified_mints:
  "session_mints K c ss \<Longrightarrow> session_mints K c (snd (staged_retract_identified env e rt ss))"
  by (auto simp: staged_retract_identified_def Let_def split: option.split
      intro!: bind_session single_session session_mints_absent)

text \<open>Minting takes the pending identifier, or the durable one the first time.\<close>

lemma mint_identifier_sel:
  assumes "mint_identifier (identified_counter_key table) (c table) ss = (i, ss1)"
  shows "i = pending_next c ss table" and "pending_next c ss1 = (pending_next c ss)(table := i + 1)"
    and "ss_entries ss1 = ss_entries ss" and "overlay_get ss1 = overlay_get ss"
  using assms
  by (auto simp: mint_identifier_def Let_def pending_next_def record_identifier_next_def overlay_get_def fun_eq_iff
      split: option.splits)

lemma staged_assert_identified_mints:
  assumes mints: "session_mints K c ss" and table: "ia_table a \<in> K" and c: "next_record_identifier (eng_storage e) = c"
    and left: "pending_next c ss (ia_table a) \<noteq> - 1"
  shows "session_mints K c (snd (staged_assert_identified env e a ss))"
proof -
  let ?T = "ia_table a" and ?ops = "all_operations (ss_entries ss)"
  obtain i ss1 where m: "mint_identifier (identified_counter_key ?T) (c ?T) ss = (i, ss1)" by (metis surj_pair)
  note sel = mint_identifier_sel [where c = c and table = ?T, OF m]
  have i: "i < i + 1" using minted_word [OF left] by (simp add: sel(1))
  have low: "advanced c ?ops ?T \<le> i" using mints table by (simp add: session_mints_def sel(1))
  then have burned: "session_mints K c ss1"
    using mints i by (auto simp: session_mints_def sel(2-4))
  have landed: "session_mints K c ss'"
    if run: "append_single env Assert fam (Identifier i) payload (set_overlay ?T (Identifier i) Present ss1) = (n, ss')"
      and fam: "family_table_name fam = ?T" for fam payload n ss'
  proof -
    let ?op = "\<lparr>vop_operation = Assert, vop_family = fam, vop_key = Some (Identifier i), vop_payload = payload\<rparr>"
    note appended = appended_session [OF run [unfolded append_single_def]]
    have ops: "all_operations (ss_entries ss') = ?ops @ [?op]" by (simp add: appended(1) sel(3))
    have next_c: "advanced c (all_operations (ss_entries ss')) = (advanced c ?ops)(?T := i + 1)"
      by (simp add: ops advance_by_def fam)
    have "mints c (all_operations (ss_entries ss'))"
      using mints low i by (simp add: ops mints_append session_mints_def mints_or_names_def fam)
    moreover have "pending_next c ss' = (pending_next c ss)(?T := i + 1)"
      using sel(2) by (simp add: appended(2)) (simp add: pending_next_def set_overlay_def fun_eq_iff)
    moreover have "j < ((advanced c ?ops)(?T := i + 1)) t"
      if present: "overlay_get ss' t (Identifier j) = Some Present" and t: "t \<in> K" for t j
    proof (cases "t = ?T \<and> j = i")
      case False
      with present have "overlay_get ss t (Identifier j) = Some Present"
        by (simp add: appended(3) overlay_get_identifier sel(4) split: if_splits)
      with mints t have "j < advanced c ?ops t" by (auto simp: session_mints_def)
      also have "\<dots> \<le> ((advanced c ?ops)(?T := i + 1)) t" using low i by auto
      finally show ?thesis .
    qed (use i in simp)
    ultimately show ?thesis using mints by (auto simp: session_mints_def next_c)
  qed
  show ?thesis
    using burned landed
    by (auto simp: staged_assert_identified_def Let_def c m registered_table_name split: prod.split intro!: bind_session)
qed

text \<open>A buffered commit request has domain keys only.\<close>

lemma staged_commit_step_domain:
  assumes "staged_commit_step env e ss table fam sp (n, w) = Inr sp'" and "domain_key (write_key env w)"
    and "list_all domain_op (sp_operations sp)"
  shows "list_all domain_op (sp_operations sp')"
  using assms
  by (cases w) (auto simp: Let_def bindR_eq_Inr staged_plan_push_def domain_op_def split: if_splits option.splits)

lemma staged_commit_fold_domain:
  "foldR (staged_commit_step env e ss table fam) sp (enumerate n ws) = Inr sp' \<Longrightarrow>
   list_all (\<lambda>w. domain_key (write_key env w)) ws \<Longrightarrow> list_all domain_op (sp_operations sp) \<Longrightarrow>
   list_all domain_op (sp_operations sp')"
  by (induction ws arbitrary: n sp) (auto simp: bindR_eq_Inr dest: staged_commit_step_domain)

lemma staged_commit_mints:
  assumes mints: "session_mints K c ss" and table: "crq_table q \<notin> K"
    and keys: "list_all (\<lambda>w. domain_key (write_key env w)) (crq_operations q)"
  shows "session_mints K c (snd (staged_commit env e q ss))"
proof -
  have overlay: "session_mints K c (fold (\<lambda>(key, presence). set_overlay (crq_table q) key presence) xs s)"
    if "session_mints K c s" for xs s
    using that by (induction xs arbitrary: s) (auto simp: session_mints_outside [OF table])
  have images: "session_mints K c (fold (\<lambda>(i, bs). park_pre_image i bs) xs s)" if "session_mints K c s" for xs s
    using that by (induction xs arbitrary: s) auto
  have landed: "session_mints K c ss'"
    if "append_entry env opers s = (n, ss')" "session_mints K c s" "list_all domain_op (ne_list opers)" for opers s n ss'
    by (rule session_mints_append [OF that(1,2)]) (simp_all add: domain_ops [OF that(3)])
  have ops: "list_all domain_op (ne_list vs)"
    if "foldR (staged_commit_step env e s table fam) staged_plan_empty (enumerate 0 (crq_operations q)) = Inr sp"
      "sp_operations sp = ne_list vs" for s table fam sp vs
    using staged_commit_fold_domain [OF that(1) keys] that(2) by (simp add: staged_plan_empty_def)
  show ?thesis
    unfolding staged_commit_def Let_def
    by (intro bind_session mints)
      (auto split: option.split prod.split intro!: images overlay mints intro: landed [OF _ images [OF overlay [OF mints]] ops])
qed

section \<open>Writing under a session\<close>

lemma session_call_mints:
  "session_mints K c (snd (f ss)) \<Longrightarrow>
   \<exists>ss'. snd (forget (with_session f ss e)) = e\<lparr>eng_staging := Some ss'\<rparr> \<and> session_mints K c ss'"
  by (cases "f ss"; cases "fst (f ss)") (auto simp: with_session_def forget_def)

lemma session_minted:
  assumes run: "run_write env w e = (r, e')" and ss: "eng_staging e = Some ss" and w: "\<nexists>ws. w = DirectAtomic ws"
    and mints: "session_mints K (next_record_identifier (eng_storage e)) ss"
    and rows: "rows_minted (eng_storage e) (next_record_identifier (eng_storage e))"
    and kinds: "kinded K e w" and keyed: "domain_keyed env w"
  shows "\<exists>ss'. e' = e\<lparr>eng_staging := Some ss'\<rparr> \<and> session_mints K (next_record_identifier (eng_storage e)) ss'"
proof -
  let ?c = "next_record_identifier (eng_storage e)"
  have "e\<lparr>eng_staging := Some ss\<rparr> = e" using ss by (cases e) simp
  then have same: "\<exists>ss'. e = e\<lparr>eng_staging := Some ss'\<rparr> \<and> session_mints K ?c ss'" using mints by metis
  have "\<exists>ss'. snd (run_write env w e) = e\<lparr>eng_staging := Some ss'\<rparr> \<and> session_mints K ?c ss'"
    using w kinds keyed same
    by (cases w)
      (simp_all add: assert_keyed_def mutate_keyed_def engine_retract_def assert_identified_def
        mutate_identified_def retract_identified_def engine_commit_def Let_def forget_reads ss identifiers_left_def
        session_call_mints staged_keyed_mints [OF mints] staged_commit_mints [OF mints]
        staged_mutate_identified_mints [OF mints _ rows] staged_retract_identified_mints [OF mints]
        staged_assert_identified_mints [OF mints _ refl]
        split: sum.split)
  with run show ?thesis by simp
qed

end
