(* ===== verification/Identifier_Landing.thy ===== *)
theory Identifier_Landing
  imports Identifier_Laws
begin

text \<open>
  Landing a parked group with respect to the identifier counters: the rows it leaves are minted by the
  counters it leaves, and those are the counters after the group's operations (src/engine.rs
  \<open>materialize_staged_group\<close>).
\<close>

section \<open>The rows\<close>

lemma materialize_operation_minted:
  assumes run: "materialize_operation env dir s oper = Inr t" and dir: "own_directory dir fams"
    and oper: "vop_family oper \<in> set fams \<and> op_exact oper" and rows: "rows_minted s c" and mints: "mints_or_names c oper"
  shows "rows_minted t (advance_by oper c)"
proof (rule materialize_operation_put [OF run dir conjunct1 [OF oper] conjunct2 [OF oper]])
  fix key
  assume key: "vop_key oper = Some key"
    and t: "t = put_row (family_table_name (vop_family oper)) key (effect_row env oper) s"
  show ?thesis
    unfolding t
  proof (rule rows_minted_put [OF rows advance_by_grows [OF mints]])
    fix i
    assume i: "key = Identifier i" and row: "effect_row env oper \<noteq> None"
    have "vop_operation oper \<noteq> Retract" using row by (auto simp: effect_row_def operation_effect_def decoded_def)
    then show "i < advance_by oper c (family_table_name (vop_family oper))"
      using mints key i by (auto simp: mints_or_names_def advance_by_def)
  qed
qed

lemma materialize_operations_minted:
  "foldR (materialize_operation env dir) s opers = Inr t \<Longrightarrow> own_directory dir fams \<Longrightarrow>
   \<forall>oper \<in> set opers. vop_family oper \<in> set fams \<and> op_exact oper \<Longrightarrow> rows_minted s c \<Longrightarrow> mints c opers \<Longrightarrow>
   rows_minted t (advanced c opers)"
proof (induction opers arbitrary: s c)
  case (Cons oper opers)
  then obtain u where u: "materialize_operation env dir s oper = Inr u"
    "foldR (materialize_operation env dir) u opers = Inr t" by (auto simp: bindR_eq_Inr)
  have "rows_minted u (advance_by oper c)"
    using Cons.prems by (intro materialize_operation_minted [OF u(1)]) auto
  with Cons.IH [OF u(2)] Cons.prems show ?case by simp
qed simp

lemma land_entries_minted:
  "foldR (land_group_entry env dir mirror) (n, s) es = Inr (n', t) \<Longrightarrow> own_directory dir fams \<Longrightarrow>
   \<forall>oper \<in> set (all_operations es). vop_family oper \<in> set fams \<and> op_exact oper \<Longrightarrow> rows_minted s c \<Longrightarrow>
   mints c (all_operations es) \<Longrightarrow> rows_minted t (advanced c (all_operations es))"
proof (induction es arbitrary: n s c)
  case (Cons e es)
  from Cons.prems(1) obtain m u where u: "land_group_entry env dir mirror (n, s) e = Inr (m, u)"
    "foldR (land_group_entry env dir mirror) (m, u) es = Inr (n', t)" by (auto simp: bindR_eq_Inr)
  then obtain s1 where s1: "foldR (materialize_operation env dir) s (ne_list (ve_operations e)) = Inr s1"
    and rows: "st_identified_rows u = st_identified_rows s1"
    by (auto simp: land_group_entry_def bindR_eq_Inr Let_def split: prod.splits if_splits)
  have "rows_minted s1 (advanced c (ne_list (ve_operations e)))"
    using Cons.prems by (intro materialize_operations_minted [OF s1]) (auto simp: all_operations_def mints_append)
  then have "rows_minted u (advanced c (ne_list (ve_operations e)))" by (simp add: rows_minted_cong [OF rows])
  with Cons.IH [OF u(2)] Cons.prems show ?case by (simp add: all_operations_def mints_append)
qed (simp add: all_operations_def)

section \<open>The counters\<close>

lemma insert_rows_of:
  assumes "tbl_ok xs"
  shows "tbl_get (fold (\<lambda>r. tbl_insert (fst r) (snd r)) (tbl_iter xs) t) = tbl_get t ++ tbl_get xs"
proof -
  have "map_of (rev (tbl_iter xs)) = map_of (tbl_iter xs)"
    using tbl_ok_distinct [OF assms] by (subst map_of_inject_set) (simp_all add: rev_map [symmetric] tbl_iter_def)
  then show ?thesis by (simp add: tbl.get_insert_all tbl.get_iter [OF assms])
qed

lemma identified_advances_get:
  "tbl_ok adv \<Longrightarrow> tbl_ok (fold identified_advance opers adv)
   \<and> (\<forall>table. unwrap_or (c table) (tbl_get (fold identified_advance opers adv) (identified_counter_key table)) =
        advanced (\<lambda>table. unwrap_or (c table) (tbl_get adv (identified_counter_key table))) opers table)"
proof (induction opers arbitrary: adv)
  case (Cons oper opers)
  have "(\<lambda>table. unwrap_or (c table) (tbl_get (identified_advance oper adv) (identified_counter_key table))) =
      advance_by oper (\<lambda>table. unwrap_or (c table) (tbl_get adv (identified_counter_key table)))"
    by (auto simp: identified_advance_def advance_by_def family_counter_key record_identifier_next_def table_simps
        fun_eq_iff split: option.split record_key.split)
  moreover have "tbl_ok (identified_advance oper adv)"
    using Cons.prems by (auto simp: identified_advance_def table_simps split: option.split record_key.split)
  ultimately show ?case using Cons.IH [of "identified_advance oper adv"] by simp
qed simp

lemma fold_counter_inserts:
  "st_identified_counters (fold (\<lambda>(key, v). identified_counter_insert key v) xs s) =
   fold (\<lambda>r. tbl_insert (fst r) (snd r)) xs (st_identified_counters s)"
  by (induction xs arbitrary: s) auto

lemma land_entries_counters:
  "foldR (land_group_entry env dir mirror) (n, s) es = Inr (n', t) \<Longrightarrow>
   st_identified_counters t = st_identified_counters s"
proof (induction es arbitrary: n s)
  case (Cons e es)
  from Cons.prems obtain m u where u: "land_group_entry env dir mirror (n, s) e = Inr (m, u)"
    "foldR (land_group_entry env dir mirror) (m, u) es = Inr (n', t)" by (auto simp: bindR_eq_Inr)
  then obtain s1 where s1: "foldR (materialize_operation env dir) s (ne_list (ve_operations e)) = Inr s1"
    and "st_identified_counters u = st_identified_counters s1"
    by (auto simp: land_group_entry_def bindR_eq_Inr Let_def append_versioned_def counter_insert_def
        outbox_record_def split: prod.splits if_splits)
  with Cons.IH [OF u(2)] same_planes_sel [OF materialize_operations_planes [OF s1]] show ?case by simp
qed simp

lemma land_group_minted:
  assumes land: "land_group env dir mirror counts g completes s = Inr t" and dir: "own_directory dir fams"
    and ops: "\<forall>oper \<in> set (all_operations (sg_entries g)). vop_family oper \<in> set fams \<and> op_exact oper"
    and rows: "rows_minted s (next_record_identifier s)"
    and mints: "mints (next_record_identifier s) (all_operations (sg_entries g))"
  shows "rows_minted t (next_record_identifier t)"
    and "next_record_identifier t = advanced (next_record_identifier s) (all_operations (sg_entries g))"
proof -
  let ?ops = "all_operations (sg_entries g)" and ?c = "next_record_identifier s"
  obtain n u where u: "foldR (land_group_entry env dir mirror) ((lc_commits counts, lc_versioned counts), s)
      (sg_entries g) = Inr (n, u)"
    and landed: "t = clear_in (let s3 = fold (\<lambda>(key, v). identified_counter_insert key v) (tbl_iter (identified_advances g))
        (seal (ve_commit_sequence (last (sg_entries g))) (ve_snapshot (last (sg_entries g))) u) in
      if completes then s3\<lparr>st_compaction_intent := Some (intent_applied (ve_commit_sequence (last (sg_entries g))))\<rparr>
      else s3)"
    using land by (auto simp: land_group_def bindR_eq_Inr Let_def seal_def)
  have "st_identified_rows (fold (\<lambda>(key, v). identified_counter_insert key v) xs v) = st_identified_rows v"
    for xs and v :: "'a store" by (induction xs arbitrary: v) auto
  then have t: "st_identified_counters t = fold (\<lambda>r. tbl_insert (fst r) (snd r)) (tbl_iter (identified_advances g))
      (st_identified_counters u)" "st_identified_rows t = st_identified_rows u"
    by (simp_all add: landed clear_in_def Let_def fold_counter_inserts)
  have counters: "st_identified_counters u = st_identified_counters s"
    using land_entries_counters u by (metis surj_pair)
  have adv: "tbl_ok (identified_advances g)"
    "unwrap_or (?c table) (tbl_get (identified_advances g) (identified_counter_key table)) = advanced ?c ?ops table" for table
    using identified_advances_get [of "[]" ?ops ?c] by (simp_all add: identified_advances_def table_simps)
  have "next_record_identifier t table =
      unwrap_or (?c table) (tbl_get (identified_advances g) (identified_counter_key table))" for table
    by (simp add: next_record_identifier_def t(1) counters insert_rows_of [OF adv(1)] map_add_def split: option.split)
  then show final: "next_record_identifier t = advanced ?c ?ops" by (simp add: adv(2) fun_eq_iff)
  have "rows_minted u (advanced ?c ?ops)"
    using u by (intro land_entries_minted [OF _ dir ops rows mints]) auto
  then show "rows_minted t (next_record_identifier t)" by (simp add: final rows_minted_cong [OF t(2)])
qed

end
