(* ===== verification/Identifier_Theorems.thy ===== *)
theory Identifier_Theorems
  imports Coupling_Theorems Identifier_Landing
begin

text \<open>
  Identifiers are minted once: over any steps of a component that uses each table with keys of one kind, the
  counter of an engine-identified table never falls, every stored row is below it, and what is buffered or
  parked takes up where it stands.
\<close>

section \<open>The invariant\<close>

definition table_names :: "'r engine \<Rightarrow> string set" where
  "table_names e = family_table_name ` set (family_inventory (eng_catalog e))"

lemma registered_named: "registered_family e table = Inr f \<Longrightarrow> table \<in> table_names e"
  unfolding table_names_def by (metis image_eqI registered_family_member)

text \<open>What is buffered or parked on the base the store still has mints from its counters; a base that has
  moved is refused when parking or landing.\<close>

definition minting :: "string set \<Rightarrow> 'r engine \<Rightarrow> bool" where
  "minting K e \<longleftrightarrow> (let s = eng_storage e; c = next_record_identifier s in
     rows_minted s c \<and> (\<forall>table. table \<notin> table_names e \<longrightarrow> c table = record_identifier_first)
     \<and> (\<forall>ss. eng_staging e = Some ss \<longrightarrow> sb_commit_sequence (ss_base ss) \<le> committed_commit_sequence s
          \<and> (sb_commit_sequence (ss_base ss) = committed_commit_sequence s \<longrightarrow> session_mints K c ss))
     \<and> (\<forall>g b. staging_slot s = Some g \<longrightarrow> group_first_sequence g = Some (b + 1) \<longrightarrow>
          b \<le> committed_commit_sequence s
          \<and> (b = committed_commit_sequence s \<longrightarrow> mints c (all_operations (sg_entries g)))))"

definition counters_grow :: "'r engine \<Rightarrow> 'r engine \<Rightarrow> bool" where
  "counters_grow e e' \<longleftrightarrow> (\<forall>table.
     next_record_identifier (eng_storage e) table \<le> next_record_identifier (eng_storage e') table)"

definition mints_on :: "string set \<Rightarrow> 'r engine \<Rightarrow> 'r engine \<Rightarrow> bool" where
  "mints_on K e e' \<longleftrightarrow> minting K e' \<and> counters_grow e e'"

lemma counters_grow_trans: "counters_grow e e1 \<Longrightarrow> counters_grow e1 e2 \<Longrightarrow> counters_grow e e2"
  unfolding counters_grow_def using order_trans by blast

lemma mints_on_refl: "minting K e \<Longrightarrow> mints_on K e e"
  by (simp add: mints_on_def counters_grow_def)

text \<open>Time only moves on: while the store stands still the counters do, and no session or group appears.\<close>

lemma minting_onward:
  assumes "minting K e"
    and rows: "rows_minted (eng_storage e') (next_record_identifier (eng_storage e'))"
    and fresh: "\<forall>table. table \<notin> table_names e' \<longrightarrow>
      next_record_identifier (eng_storage e') table = record_identifier_first"
    and time: "committed_commit_sequence (eng_storage e) \<le> committed_commit_sequence (eng_storage e')"
      "committed_commit_sequence (eng_storage e') = committed_commit_sequence (eng_storage e) \<longrightarrow>
         next_record_identifier (eng_storage e') = next_record_identifier (eng_storage e)"
    and "\<forall>ss. eng_staging e' = Some ss \<longrightarrow> eng_staging e = Some ss"
    and "\<forall>g. staging_slot (eng_storage e') = Some g \<longrightarrow> staging_slot (eng_storage e) = Some g"
  shows "minting K e'"
  unfolding minting_def Let_def
proof (intro conjI allI impI rows)
  fix table assume "table \<notin> table_names e'"
  with fresh show "next_record_identifier (eng_storage e') table = record_identifier_first" by blast
next
  fix ss assume "eng_staging e' = Some ss"
  with assms have ss: "sb_commit_sequence (ss_base ss) \<le> committed_commit_sequence (eng_storage e)"
    "sb_commit_sequence (ss_base ss) = committed_commit_sequence (eng_storage e) \<longrightarrow>
       session_mints K (next_record_identifier (eng_storage e)) ss"
    by (simp_all add: minting_def Let_def)
  from ss(1) time(1) show "sb_commit_sequence (ss_base ss) \<le> committed_commit_sequence (eng_storage e')" by simp
  assume "sb_commit_sequence (ss_base ss) = committed_commit_sequence (eng_storage e')"
  with ss time show "session_mints K (next_record_identifier (eng_storage e')) ss" by simp
next
  fix g b assume "staging_slot (eng_storage e') = Some g" "group_first_sequence g = Some (b + 1)"
  with assms have g: "b \<le> committed_commit_sequence (eng_storage e)"
    "b = committed_commit_sequence (eng_storage e) \<longrightarrow>
       mints (next_record_identifier (eng_storage e)) (all_operations (sg_entries g))"
    by (simp_all add: minting_def Let_def)
  from g(1) time(1) show "b \<le> committed_commit_sequence (eng_storage e')" by simp
  assume "b = committed_commit_sequence (eng_storage e')"
  with g time show "mints (next_record_identifier (eng_storage e')) (all_operations (sg_entries g))" by simp
qed

section \<open>What leaves the identifiers alone\<close>

definition ids_kept :: "'r engine \<Rightarrow> 'r engine \<Rightarrow> bool" where
  "ids_kept e e' \<longleftrightarrow> eng_catalog e' = eng_catalog e \<and> eng_staging e' = eng_staging e
     \<and> staging_slot (eng_storage e') = staging_slot (eng_storage e)
     \<and> committed_commit_sequence (eng_storage e') = committed_commit_sequence (eng_storage e)
     \<and> st_identified_rows (eng_storage e') = st_identified_rows (eng_storage e)
     \<and> st_identified_counters (eng_storage e') = st_identified_counters (eng_storage e)"

lemma minting_parts:
  assumes "minting K e"
  shows "rows_minted (eng_storage e) (next_record_identifier (eng_storage e))"
    and "table \<notin> table_names e \<Longrightarrow> next_record_identifier (eng_storage e) table = record_identifier_first"
  using assms by (simp_all add: minting_def Let_def)

text \<open>A step that keeps the rows, the counters and the committed sequence, and may close a session or empty the slot.\<close>

lemma minting_closed:
  assumes m: "minting K e"
    and rows: "st_identified_rows (eng_storage e') = st_identified_rows (eng_storage e)"
    and counters: "st_identified_counters (eng_storage e') = st_identified_counters (eng_storage e)"
    and time: "committed_commit_sequence (eng_storage e') = committed_commit_sequence (eng_storage e)"
    and names: "table_names e \<subseteq> table_names e'"
    and "\<forall>ss. eng_staging e' = Some ss \<longrightarrow> eng_staging e = Some ss"
    and "\<forall>g. staging_slot (eng_storage e') = Some g \<longrightarrow> staging_slot (eng_storage e) = Some g"
  shows "mints_on K e e'"
proof -
  note c = next_record_identifier_cong [OF counters]
  have "minting K e'"
  proof (rule minting_onward [OF m])
    show "\<forall>table. table \<notin> table_names e' \<longrightarrow> next_record_identifier (eng_storage e') table = record_identifier_first"
      using minting_parts(2) [OF m] names by (auto simp: c)
  qed (use assms minting_parts(1) [OF m] in \<open>simp_all add: c rows_minted_cong [OF rows]\<close>)
  then show ?thesis by (simp add: mints_on_def counters_grow_def c)
qed

lemma ids_kept_mints: "ids_kept e e' \<Longrightarrow> minting K e \<Longrightarrow> mints_on K e e'"
  by (rule minting_closed) (simp_all add: ids_kept_def table_names_def)

lemma history_counters [simp]:
  "st_identified_counters (publish_checkpoint env m segs s) = st_identified_counters s"
  "st_identified_counters (prune_history env m s) = st_identified_counters s"
  by (simp_all add: publish_checkpoint_def counter_insert_def prune_history_def Let_def
      case_prod_beta compact_acknowledged_through_def compact_through_def)

interpretation ids: compaction_effect env ids_kept for env :: "'r engine_env"
proof
  fix e :: "'r engine" and policy previous m segs n
  assume "engine_ok env e" "eng_policy e = Some policy" and plan: "latest_checkpoint env (eng_storage e) = Inr previous"
    "checkpoint_plan env e policy previous = Inr (m, segs, n)" "addressable env segs"
    "committed_commit_sequence (eng_storage e) \<noteq> - 1"
  then have ok: "history_ok env (eng_storage e)" by (simp add: engine_ok_def)
  show "ids_kept e (e\<lparr>eng_storage := publish_checkpoint env m segs (eng_storage e)\<rparr>)"
    using publish_keeps_history [OF ok plan] by (simp add: ids_kept_def)
next
  fix e :: "'r engine" and c
  assume "engine_ok env e" and room: "committed_commit_sequence (eng_storage e) \<noteq> - 1"
  then have ok: "logs_ok (eng_storage e)" by (simp add: engine_ok_def)
  show "ids_kept e (e\<lparr>eng_storage := prune_history env (ck_metadata c) (eng_storage e)\<rparr>)"
    using prune_history_sel(10) [OF ok room] by (simp add: ids_kept_def)
next
  fix e :: "'r engine" and i
  have "same_history (eng_storage e) (put_intent i (eng_storage e))" by simp
  from same_history_reads [OF this] show "ids_kept e (e\<lparr>eng_storage := put_intent i (eng_storage e)\<rparr>)"
    by (simp add: ids_kept_def)
qed (auto simp: ids_kept_def)

section \<open>Direct writes\<close>

lemma write_identified_rows:
  "case w of DirectAssertIdentified a \<Rightarrow> True | DirectMutateIdentified im \<Rightarrow> True | DirectRetractIdentified rt \<Rightarrow> True
   | _ \<Rightarrow> st_identified_rows (write_rows env w s) = st_identified_rows s"
proof -
  have one: "st_identified_rows (apply_write env table x s) = st_identified_rows s" for table x s
    by (cases x) (simp_all add: row_insert_def row_remove_def)
  have two: "st_identified_rows (atomic_materialize x s) = st_identified_rows s" for x s
    by (simp add: atomic_materialize_def row_insert_def row_remove_def)
  have "st_identified_rows (fold (apply_write env table) xs s) = st_identified_rows s"
    "st_identified_rows (fold atomic_materialize ws s) = st_identified_rows s" for table xs ws
    by (induction xs arbitrary: s) (simp_all add: one, induction ws arbitrary: s, simp_all add: two)
  then show ?thesis by (cases w) (simp_all add: row_insert_def row_remove_def)
qed

definition after_counters :: "'r direct_write \<Rightarrow> (string \<Rightarrow> u64) \<Rightarrow> string \<Rightarrow> u64" where
  "after_counters w c = (case w of
     DirectAssertIdentified a \<Rightarrow> c(ia_table a := c (ia_table a) + 1) | _ \<Rightarrow> c)"

lemma write_counters_next:
  assumes "st_identified_counters t = write_counters w s"
  shows "next_record_identifier t = after_counters w (next_record_identifier s)"
  using assms
  by (cases w) (auto simp: next_record_identifier_def after_counters_def record_identifier_next_def table_simps fun_eq_iff)

lemma lands_effect_mints:
  assumes effect: "lands_effect env e w e1" and m: "minting K e" and kinds: "kinded K e w" and policy: "eng_policy e \<noteq> None"
    and room: "committed_commit_sequence (eng_storage e) \<noteq> - 1"
    and present: "\<And>im. w = DirectMutateIdentified im \<Longrightarrow> identified_record_at e (im_table im) (im_identifier im) \<noteq> None"
  shows "mints_on K e e1"
proof -
  let ?s = "eng_storage e" and ?t = "eng_storage e1" and ?c = "next_record_identifier (eng_storage e)"
  have lands: "lands_one env e e1" and rows: "st_identified_rows ?t = st_identified_rows (write_rows env w ?s)"
    and c': "next_record_identifier ?t = after_counters w ?c"
    using effect write_counters_next by (auto simp: lands_effect_def)
  have frame: "eng_catalog e1 = eng_catalog e" "eng_staging e1 = eng_staging e" "staging_slot ?t = staging_slot ?s"
    and time: "committed_commit_sequence ?t = committed_commit_sequence ?s + 1"
    using lands by (auto simp: lands_one_def appends_commit_def)
  have grows: "?c table \<le> after_counters w ?c table" for table
    using kinds by (cases w) (auto simp: after_counters_def identifiers_left_def dest!: minted_word)
  note minted = minting_parts(1) [OF m]
  have "rows_minted ?t (after_counters w ?c)"
  proof (cases w)
    case (DirectAssertIdentified a)
    have "rows_minted (put_row (ia_table a) (Identifier (?c (ia_table a))) (Some (ia_record a)) ?s) (after_counters w ?c)"
      using kinds minted_word by (intro rows_minted_put [OF minted grows])
        (auto simp: DirectAssertIdentified after_counters_def identifiers_left_def)
    then show ?thesis by (subst rows_minted_cong) (auto simp: rows put_row_def DirectAssertIdentified)
  next
    case (DirectMutateIdentified im)
    have "typed_row ?s (im_table im) (Identifier (im_identifier im)) \<noteq> None"
      using present [OF DirectMutateIdentified] by (simp add: identified_record_at_def typed_row_def)
    with minted have "im_identifier im < ?c (im_table im)" unfolding rows_minted_def by blast
    then have "rows_minted (put_row (im_table im) (Identifier (im_identifier im)) (Some (im_record im)) ?s) (after_counters w ?c)"
      by (intro rows_minted_put [OF minted grows]) (auto simp: DirectMutateIdentified after_counters_def)
    then show ?thesis by (subst rows_minted_cong) (auto simp: rows put_row_def DirectMutateIdentified)
  next
    case (DirectRetractIdentified rt)
    have "rows_minted (put_row (irt_table rt) (Identifier (irt_identifier rt)) None ?s) (after_counters w ?c)"
      by (intro rows_minted_put [OF minted grows]) simp
    then show ?thesis by (subst rows_minted_cong) (auto simp: rows put_row_def DirectRetractIdentified)
  qed (use minted rows write_identified_rows [where w = w and env = env and s = ?s] in \<open>simp_all add: rows_minted_def typed_row_def after_counters_def\<close>)
  moreover have "\<forall>table. table \<notin> table_names e1 \<longrightarrow> after_counters w ?c table = record_identifier_first"
  proof (intro allI impI)
    fix table assume out: "table \<notin> table_names e1"
    have "ia_table a \<in> table_names e" if w: "w = DirectAssertIdentified a" for a
    proof -
      obtain vop where "logged_op env e (ia_table a) Assert (Identifier (?c (ia_table a))) (Some (ia_record a)) vop"
        using effect policy w by (auto simp: lands_effect_def length_Suc_conv)
      with policy have "registered_family e (ia_table a) = Inr (vop_family vop)" by (simp add: logged_op_def)
      then show ?thesis by (rule registered_named)
    qed
    with out minting_parts(2) [OF m] show "after_counters w ?c table = record_identifier_first"
      by (auto simp: after_counters_def table_names_def frame split: direct_write.split)
  qed
  ultimately have "minting K e1"
    using next_sequence_above [OF room] time
    by (intro minting_onward [OF m]) (auto simp: c' frame next_commit_sequence_def commit_sequence_next_def)
  then show ?thesis using grows by (simp add: mints_on_def counters_grow_def c')
qed

text \<open>A mutation of an identifier without a row is refused.\<close>

lemma mutate_identified_absent:
  "eng_staging e = None \<Longrightarrow> identified_record_at e (im_table im) (im_identifier im) = None \<Longrightarrow>
   snd (run_write env (DirectMutateIdentified im) e) = e"
  by (simp add: mutate_identified_def Let_def forget_reads split: sum.split)

lemma mints_on_kept: "mints_on K e e1 \<Longrightarrow> ids_kept e1 e' \<Longrightarrow> mints_on K e e'"
  using ids_kept_mints [of e1 e' K] counters_grow_trans by (auto simp: mints_on_def)

lemma ids_maintained:
  assumes lands: "lands_one env e e1" and room: "has_room e" and addr: "commits_addressable env e"
    and run: "maintain_versioned_history env e1 = (r, e')"
  shows "ids_kept e1 e'"
proof (cases "over_retention e1")
  case True
  have "committed_commit_sequence (eng_storage e1) = committed_commit_sequence (eng_storage e) + 1"
    "engine_ok env e1"
    using lands by (auto simp: lands_one_def appends_commit_def)
  with True has_room_words [OF room] lands addr show ?thesis
    using ids.maintain_effect [of env e1 r e'] run by (simp add: commits_addressable_def)
next
  case False
  from maintain_within [OF this run] show ?thesis by (simp add: ids.refl)
qed

lemma write_mints:
  assumes run: "run_write env w e = (r, e')" and room: "has_room e" and addr: "commits_addressable env e"
    and keyed: "domain_keyed env w" and kinds: "kinded K e w" and ok: "engine_ok env e"
    and policy: "eng_policy e \<noteq> None" and m: "minting K e"
  shows "mints_on K e e'"
proof (cases "eng_staging e = None \<or> (\<exists>ws. w = DirectAtomic ws)")
  case True
  note seq = has_room_words(1) [OF room]
  have effect: "settles_effect env e w (r, e')"
    using True run_write_effect [OF _ ok seq] atomic_settles_effect [OF ok seq] run by metis
  show ?thesis
  proof (cases "\<exists>im. w = DirectMutateIdentified im \<and> identified_record_at e (im_table im) (im_identifier im) = None")
    case absent: True
    then obtain im where im: "w = DirectMutateIdentified im" "identified_record_at e (im_table im) (im_identifier im) = None"
      by blast
    with True have "eng_staging e = None" by auto
    from mutate_identified_absent [OF this im(2), of env] run have "e' = e" by (simp add: im(1))
    then show ?thesis by (simp add: mints_on_refl m)
  next
    case False
    have landed: "mints_on K e e1" if "lands_effect env e w e1" for e1
      by (rule lands_effect_mints [OF that m kinds policy seq]) (use False in auto)
    consider "e' = e" | "lands_effect env e w e'"
      | e1 where "lands_effect env e w e1" "maintain_versioned_history env e1 = (r, e')"
      using effect by (auto simp: settles_effect_def)
    then show ?thesis
    proof cases
      case (3 e1)
      then have "ids_kept e1 e'" using ids_maintained [OF _ room addr] by (simp add: lands_effect_def)
      with landed [OF 3(1)] show ?thesis by (rule mints_on_kept)
    qed (use mints_on_refl [OF m] landed in auto)
  qed
next
  case False
  then obtain ss where ss: "eng_staging e = Some ss" by auto
  have w: "\<nexists>ws. w = DirectAtomic ws" using False by blast
  from session_write [OF ss w, of env] run obtain ss' where e': "e' = e\<lparr>eng_staging := Some ss'\<rparr>"
    and base: "sb_commit_sequence (ss_base ss') = sb_commit_sequence (ss_base ss)"
    by (auto simp: session_writes_def staged_outcome_def session_grows_def)
  have "session_mints K (next_record_identifier (eng_storage e)) ss'"
    if "sb_commit_sequence (ss_base ss) = committed_commit_sequence (eng_storage e)"
  proof -
    have "session_mints K (next_record_identifier (eng_storage e)) ss" using m ss that by (simp add: minting_def Let_def)
    from session_minted [OF run ss w this minting_parts(1) [OF m] kinds keyed] show ?thesis by (auto simp: e' dest!: arg_cong [where f = eng_staging])
  qed
  then have "minting K e'"
    using m ss by (simp add: minting_def Let_def e' base table_names_def)
  then show ?thesis by (simp add: mints_on_def counters_grow_def e')
qed

section \<open>The staging lifecycle\<close>

lemma begin_mints:
  assumes run: "begin_staged_group env e = (r, e')" and m: "minting K e"
  shows "mints_on K e e'"
proof -
  have "minting K (e\<lparr>eng_staging := Some (staging_session_new base name schema)\<rparr>)"
    if "sb_commit_sequence base = committed_commit_sequence (eng_storage e)" for base name schema
    using m that by (simp add: minting_def Let_def table_names_def) (simp add: staging_session_new_def)
  then show ?thesis
    using run mints_on_refl [OF m]
    by (auto simp: begin_staged_group_def mints_on_def counters_grow_def split: option.splits if_splits)
qed

lemma parked_mints:
  assumes m: "minting K e" and ss: "eng_staging e = Some ss" and ok: "engine_ok env e"
    and s: "history_reads (eng_storage e) s" "staging_slot s = Some (into_group ss)"
      "st_identified_rows s = st_identified_rows (eng_storage e)"
      "st_identified_counters s = st_identified_counters (eng_storage e)"
  shows "mints_on K e (e\<lparr>eng_staging := None, eng_storage := s\<rparr>)"
proof -
  note c = next_record_identifier_cong [OF s(4)]
  have seqs: "sequences_from (sb_commit_sequence (ss_base ss)) (sb_snapshot (ss_base ss)) (ss_entries ss)"
    using ok ss by (simp add: engine_ok_def session_ok_def)
  have first: "b = sb_commit_sequence (ss_base ss)" if "group_first_sequence (into_group ss) = Some (b + 1)" for b
    using that seqs by (cases "ss_entries ss") (simp_all add: group_first_sequence_def first_entry_def into_group_def)
  have "committed_commit_sequence s = committed_commit_sequence (eng_storage e)"
    using s(1) by (simp add: history_reads_def)
  moreover have "sb_commit_sequence (ss_base ss) \<le> committed_commit_sequence (eng_storage e)"
    "sb_commit_sequence (ss_base ss) = committed_commit_sequence (eng_storage e) \<Longrightarrow>
       mints (next_record_identifier (eng_storage e)) (all_operations (ss_entries ss))"
    using m ss by (simp_all add: minting_def Let_def session_mints_def)
  ultimately have "minting K (e\<lparr>eng_staging := None, eng_storage := s\<rparr>)"
    using minting_parts [OF m] first s(2)
    by (auto simp: minting_def Let_def c rows_minted_cong [OF s(3)] table_names_def into_group_def)
  then show ?thesis by (simp add: mints_on_def counters_grow_def c)
qed

lemma staging_counters [simp]:
  "st_identified_counters (park_in g s) = st_identified_counters s"
  "st_identified_counters (clear_in s) = st_identified_counters s"
  by (simp_all add: park_in_def clear_in_def)

lemma closed_mints: "minting K e \<Longrightarrow> mints_on K e (e\<lparr>eng_staging := None\<rparr>)"
  by (rule minting_closed) (simp_all add: table_names_def)

lemma park_mints:
  assumes run: "park_staged_group env e = (r, e')" and ok: "engine_ok env e" and m: "minting K e"
  shows "mints_on K e e'"
  using run
proof (cases rule: park_staged_group_cases)
  case (parked ss)
  with parked_mints [OF m parked(1) ok, of "park_in (into_group ss) (eng_storage e)"] show ?thesis by simp
qed (use mints_on_refl [OF m] closed_mints [OF m] in auto)

lemma mints_on_fault [simp]: "mints_on K e (e'\<lparr>eng_fault := f\<rparr>) = mints_on K e e'"
  by (simp add: mints_on_def minting_def Let_def counters_grow_def table_names_def)

lemma park_compaction_mints:
  assumes run: "park_compaction env e = (r, e')" and ok: "engine_ok env e" and m: "minting K e"
  shows "mints_on K e e'"
  using run
proof (cases rule: park_compaction_cases)
  case (parked ss f)
  with parked_mints [OF m parked(1) ok, of "put_intent (Some intent_planned) (park_in (into_group ss) (eng_storage e))"]
  show ?thesis by (simp only: mints_on_fault planned_in_reads park_in_rows row_changes_counters staging_counters)
qed (use mints_on_refl [OF m] closed_mints [OF m] in auto)

lemma discard_mints:
  assumes run: "discard_staged_group env e = (r, e')" and m: "minting K e"
  shows "mints_on K e e'"
proof -
  have "history_reads (eng_storage e) (clear_in (eng_storage e))" by simp
  then have "mints_on K e (e\<lparr>eng_storage := clear_in (eng_storage e)\<rparr>)"
    using m by (intro minting_closed) (simp_all add: table_names_def history_reads_def)
  with discard_staged_group_cases [OF run] mints_on_refl [OF m] show ?thesis by auto
qed

section \<open>Landing a group\<close>

lemma advanced_others:
  "\<forall>oper \<in> set opers. family_table_name (vop_family oper) \<noteq> table \<Longrightarrow> advanced c opers table = c table"
  by (induction opers arbitrary: c) (auto simp: advance_by_def split: option.split record_key.split)

lemma materialize_mints:
  assumes run: "materialize_staged_group env dir e = (r, e')" and ok: "engine_ok env e" and fits: "group_fits e"
    and coupled: "coupled env e" and dir: "own_directory dir (family_inventory (eng_catalog e))" and m: "minting K e"
  shows "mints_on K e e'"
proof (cases "staging_slot (eng_storage e)")
  case None
  with materialize_outcome [OF run ok fits] mints_on_refl [OF m] show ?thesis by auto
next
  case (Some g)
  let ?s = "eng_storage e" and ?t = "eng_storage e'" and ?c = "next_record_identifier (eng_storage e)"
  have policy: "eng_policy e \<noteq> None" using coupled by (simp add: coupled_def)
  have ops: "\<forall>oper \<in> set (all_operations (sg_entries g)).
      vop_family oper \<in> set (family_inventory (eng_catalog e)) \<and> op_exact oper"
    using coupled Some by (auto simp: coupled_def pending_named_def list_all_iff op_named_def)
  show ?thesis
    using ok fits policy Some run
  proof (cases rule: materialize_lands)
    case (landed mirror counts completes)
    from landed(1) have g: "group_landed (writes_mirror_outbox (eng_policy e)) g ?s ?t" and session: "same_session e e'"
      by (simp_all add: group_materialized_def)
    have "?t \<noteq> ?s" using g Some by (auto simp: group_landed_def)
    from materialize_sequences [OF run Some this]
    have seqs: "sequences_from (committed_commit_sequence ?s) (committed_snapshot ?s) (sg_entries g)" .
    have mints: "mints ?c (all_operations (sg_entries g))"
    proof (cases "sg_entries g")
      case (Cons v vs)
      with seqs have "group_first_sequence g = Some (committed_commit_sequence ?s + 1)"
        by (simp add: group_first_sequence_def first_entry_def)
      with m Some show ?thesis by (simp add: minting_def Let_def)
    qed (simp add: all_operations_def)
    note land = land_group_minted [OF landed(2) dir ops minting_parts(1) [OF m] mints]
    have time: "committed_commit_sequence ?t = committed_commit_sequence ?s + of_nat (length (sg_entries g))"
      and slot: "staging_slot ?t = None" using g by (simp_all add: group_landed_def)
    have room: "unat (committed_commit_sequence ?s) + length (sg_entries g) < 2 ^ 64"
      using fits Some by (simp add: group_fits_def)
    then have late: "unat (committed_commit_sequence ?t) = unat (committed_commit_sequence ?s) + length (sg_entries g)"
      by (simp add: time unat_word_ariths unat_of_nat)
    have "minting K e'"
    proof (rule minting_onward [OF m land(1)])
      show "\<forall>table. table \<notin> table_names e' \<longrightarrow> next_record_identifier ?t table = record_identifier_first"
        using session ops minting_parts(2) [OF m]
        by (auto simp: land(2) table_names_def same_session_def intro!: trans [OF advanced_others])
      show "committed_commit_sequence ?s \<le> committed_commit_sequence ?t"
        using late by (simp add: word_le_nat_alt)
      show "committed_commit_sequence ?t = committed_commit_sequence ?s \<longrightarrow> next_record_identifier ?t = ?c"
      proof
        assume "committed_commit_sequence ?t = committed_commit_sequence ?s"
        with late have "sg_entries g = []" by simp
        then show "next_record_identifier ?t = ?c" by (simp add: land(2) all_operations_def)
      qed
    qed (use session slot in \<open>simp_all add: same_session_def\<close>)
    then show ?thesis using advanced_grows [OF mints] by (simp add: mints_on_def counters_grow_def land(2))
  qed (simp add: mints_on_refl m)
qed

section \<open>Other bookkeeping\<close>

lemma acknowledge_mints:
  assumes run: "acknowledge_mirror env head e = (r, e')" and m: "minting K e"
  shows "mints_on K e e'"
proof -
  obtain s where e': "e' = e\<lparr>eng_storage := s\<rparr>" and
    s: "s = eng_storage e \<or> s = (eng_storage e)\<lparr>st_mirror_cursor := Some head\<rparr>"
    using run by (rule acknowledge_mirror_cases)
  have "ids_kept e e'"
    using s by (auto simp: ids_kept_def e' staging_slot_def committed_commit_sequence_def counter_get_def)
  then show ?thesis using m by (rule ids_kept_mints)
qed

lemma subscribe_mints:
  assumes run: "engine_subscribe env plan snk e = (r, e')" and m: "minting K e"
  shows "mints_on K e e'"
proof -
  have "st_identified_rows (persist_subscription h fl s) = st_identified_rows s"
    "st_identified_counters (persist_subscription h fl s) = st_identified_counters s" for h fl and s :: "'a store"
    by (simp_all add: persist_subscription_def counter_insert_def)
  moreover have "history_reads s (persist_subscription h fl s)" for h fl and s :: "'a store"
    by (rule persist_subscription_reads(1))
  ultimately have "keeps (ids_kept e) (engine_subscribe env plan snk e)"
    by (intro keeps_subscribe [of "ids_kept e"])
      (simp_all add: ids_kept_def persist_subscription_reads history_reads_def)
  with run have "ids_kept e e'" by simp
  then show ?thesis using m by (rule ids_kept_mints)
qed

text \<open>A family without a counter starts at the first identifier, where a table without one already stands.\<close>

lemma new_family_mints:
  assumes m: "minting K e" and insert: "catalog_insert (eng_catalog e) (registration_new f) = Inr (eng_catalog e')"
    and history: "same_history (eng_storage e) (eng_storage e')"
    and rows: "st_identified_rows (eng_storage e') = st_identified_rows (eng_storage e)"
    and counters: "st_identified_counters (eng_storage e') = st_identified_counters (eng_storage e)
      \<or> st_identified_counters (eng_storage e') = tbl_insert (identified_counter_key (family_table_name f))
          record_identifier_first (st_identified_counters (eng_storage e))"
    and staging: "eng_staging e' = eng_staging e"
  shows "mints_on K e e'"
proof -
  note inventory = inserted_inventory [OF insert] and reads = same_history_reads [OF history]
  have "next_record_identifier (eng_storage e) (family_table_name f) = record_identifier_first"
    using minting_parts(2) [OF m] inventory(2) by (simp add: table_names_def)
  then have c: "next_record_identifier (eng_storage e') = next_record_identifier (eng_storage e)"
    using counters by (auto simp: next_record_identifier_def table_simps fun_eq_iff)
  have "minting K e'"
    using m by (auto simp: minting_def Let_def c rows_minted_cong [OF rows] table_names_def inventory(1) reads staging)
  then show ?thesis by (simp add: mints_on_def counters_grow_def c)
qed

lemma evolved_names:
  assumes "evolved_catalog d e e0"
  shows "table_names e0 = table_names e"
proof -
  have "catalog_evolve (eng_catalog e) (family_table_name (td_family_identity d)) (registration_new (td_family_identity d)) =
      Inr (eng_catalog e0)"
    using assms by (simp add: evolved_catalog_def td_family_identity_def)
  from evolved_inventory [OF this]
  have "map family_table_name (family_inventory (eng_catalog e0)) = map family_table_name (family_inventory (eng_catalog e))"
    by (simp add: map_replace_first)
  then show ?thesis unfolding table_names_def by (metis set_map)
qed

lemma evolve_mints:
  assumes run: "evolve_registered_family env d stored step e = (r, e')" and ok: "engine_ok env e" and room: "has_room e"
    and addr: "\<And>c. commits_addressable env (e\<lparr>eng_catalog := c\<rparr>)"
    and stored: "registered_family e (td_name d) = Inr stored" and m: "minting K e"
    and failed: "\<And>err. r = Inl err \<Longrightarrow> eng_storage e' = eng_storage e"
  shows "mints_on K e e'"
  using ok room stored run
proof (cases rule: evolve_cases)
  case (empty e0)
  note names = evolved_names [OF empty(1)]
  have "same_history (eng_storage e) (eng_storage e')" by (simp add: empty(3))
  from same_history_reads [OF this] names m show ?thesis
    using empty(1) by (intro minting_closed) (simp_all add: empty(3) evolved_catalog_def table_names_def
        catalog_row_insert_def)
next
  case (landed e0 e1 e2 n carried)
  from evolved_catalog_update [OF landed(1)] obtain c where e0: "e0 = e\<lparr>eng_catalog := c\<rparr>" by blast
  have kept: "ids_kept e1 e2"
    by (rule ids_maintained [OF landed(2) [unfolded e0] _ addr landed(6)]) (use room in \<open>simp add: has_room_def\<close>)
  have counters: "next_record_identifier (eng_storage e1) = next_record_identifier (eng_storage e)"
    by (rule next_record_identifier_cong) (use landed(5) in \<open>simp add: carried_store_def\<close>)
  have rows: "st_identified_rows (eng_storage e1) = st_identified_rows (eng_storage e)"
    using landed(5) by (simp add: carried_store_def)
  have "eng_catalog e1 = eng_catalog e0 \<and> eng_staging e1 = eng_staging e0
      \<and> staging_slot (eng_storage e1) = staging_slot (eng_storage e0)
      \<and> committed_commit_sequence (eng_storage e1) = committed_commit_sequence (eng_storage e0) + 1"
    using landed(2) by (auto simp: lands_one_def appends_commit_def)
  then have frame: "eng_catalog e1 = eng_catalog e0" "eng_staging e1 = eng_staging e"
    "staging_slot (eng_storage e1) = staging_slot (eng_storage e)"
    "committed_commit_sequence (eng_storage e1) = committed_commit_sequence (eng_storage e) + 1"
    by (simp_all only: e0) simp_all
  have "minting K e1"
    using minting_parts [OF m] evolved_names [OF landed(1)] next_sequence_above [OF has_room_words(1) [OF room]]
    by (intro minting_onward [OF m])
      (auto simp: counters rows_minted_cong [OF rows] frame table_names_def next_commit_sequence_def commit_sequence_next_def)
  then have one: "mints_on K e e1" by (simp add: mints_on_def counters_grow_def counters)
  from landed(7) show ?thesis
  proof
    assume "e' = e2"
    with mints_on_kept [OF one kept] show ?thesis by simp
  next
    assume "\<exists>err. r = Inl err \<and> e' = e2\<lparr>eng_catalog := eng_catalog e\<rparr>"
    then obtain err where err: "r = Inl err" "e' = e2\<lparr>eng_catalog := eng_catalog e\<rparr>" by blast
    have "ids_kept e e'"
      using failed [OF err(1)] kept frame by (simp add: ids_kept_def err(2))
    then show ?thesis using m by (rule ids_kept_mints)
  qed
qed (simp add: mints_on_refl m)

lemma register_table_mints:
  assumes run: "register_table env d e = (r, e')" and ok: "engine_ok env e" and room: "has_room e"
    and addr: "\<And>c. commits_addressable env (e\<lparr>eng_catalog := c\<rparr>)" and m: "minting K e"
    and failed: "\<And>err. r = Inl err \<Longrightarrow> eng_storage e' = eng_storage e"
  shows "mints_on K e e'"
  using run
proof (cases rule: register_table_cases)
  case (torn err s)
  with failed have "e' = e" by simp
  then show ?thesis by (simp add: mints_on_refl m)
next
  case (registered c)
  then show ?thesis by (intro new_family_mints [OF m]) (simp_all add: catalog_row_insert_def same_history_def)
next
  case (evolved stored step r1)
  with evolve_mints [OF evolved(3) ok room addr evolved(1) m] failed show ?thesis by auto
qed (simp add: mints_on_refl m)

lemma register_identified_mints:
  assumes run: "register_identified_table env d e = (r, e')" and m: "minting K e"
    and failed: "\<And>err. r = Inl err \<Longrightarrow> eng_storage e' = eng_storage e"
  shows "mints_on K e e'"
  using run
proof (cases rule: register_identified_cases)
  case (torn err s)
  with failed have "e' = e" by simp
  then show ?thesis by (simp add: mints_on_refl m)
next
  case (registered c)
  then show ?thesis
    by (intro new_family_mints [OF m, of "itd_family_identity d"])
      (simp_all add: catalog_row_insert_def same_history_def itd_family_identity_def identified_counter_insert_def)
qed (simp add: mints_on_refl m)

section \<open>Every step\<close>

lemma mints_on_updates [simp]:
  "mints_on K e (e'\<lparr>eng_subscriptions := g\<rparr>) = mints_on K e e'"
  by (simp add: mints_on_def minting_def Let_def counters_grow_def table_names_def)

lemma fresh_mints: "fresh_engine policy e \<Longrightarrow> minting K e"
  by (cases e) (simp add: fresh_engine_def minting_def Let_def rows_minted_def typed_row_def next_record_identifier_def
      staging_slot_def counter_insert_def store_empty_def)

lemma honest_step_mints:
  assumes "honest_step (kinded K) env dir e e'" and "engine_ok env e" and "coupled env e" and "minting K e"
  shows "mints_on K e e'"
  using assms
proof (induction rule: honest_step.induct)
  case (honest_write w e r e')
  then show ?case using write_mints coupled_def by blast
next
  case (honest_checkpoint e r e')
  then show ?case using ids.take_checkpoint_effect [OF _ has_room_words(1)] ids_kept_mints by blast
next
  case (honest_compact retention ack e r e')
  then show ?case using ids.compact_effect [OF _ has_room_words(1)] ids_kept_mints by blast
next
  case (honest_maintain e r e')
  then show ?case using ids.maintain_effect [OF _ has_room_words(1)] ids_kept_mints by blast
next
  case (honest_rebuild e r e')
  then show ?case using rebuild_unchanged(1) mints_on_refl by blast
next
  case (honest_materialize e r''' e')
  then show ?case using materialize_mints faithful_own by blast
next
  case (honest_publish intent e r e')
  then show ?case using ids.publish_compaction_effect [OF _ _ has_room_words(1)] ids_kept_mints by blast
next
  case (honest_finish e r e')
  then show ?case using ids.finish_compaction_effect [OF _ _ has_room_words(1)] ids_kept_mints by blast
next
  case (honest_register d e rt e')
  then show ?case using register_table_mints by blast
next
  case (honest_register_identified idd e rt e')
  then show ?case using register_identified_mints by blast
next
  case (honest_interrupt phase e r e')
  then show ?case using mints_on_refl [of K e] by (auto elim!: interrupt_cases)
next
  case (honest_abandon e r e')
  then show ?case using closed_mints [of K e] by (auto simp: abandon_staged_group_def)
next
  case (honest_plan e r e')
  then show ?case using begin_mints mints_on_refl [of K e] by (auto simp: begin_compaction_def split: if_splits)
qed (auto simp: inject_compaction_fault_def mints_on_refl
    dest: acknowledge_mints begin_mints park_mints discard_mints park_compaction_mints subscribe_mints)

lemma honest_minting:
  assumes "codec env"
  shows "honestly_reachable (kinded K) env dir policy e \<Longrightarrow> minting K e"
proof (induction rule: honestly_reachable.induct)
  case (honest_next e e')
  then show ?case
    using honest_step_mints [OF honest_next(2)] honest_coupled [OF honest_next(1) assms] reachable_ok [OF honest_reachable [OF honest_next(1)]]
    by (auto simp: mints_on_def)
qed (rule fresh_mints)

lemma honest_steps_grow:
  assumes codec: "codec env" and start: "honestly_reachable (kinded K) env dir policy e"
    and steps: "rtranclp (honest_step (kinded K) env dir) e e'"
  shows "honestly_reachable (kinded K) env dir policy e' \<and> counters_grow e e'"
  using steps
proof (induction rule: rtranclp_induct)
  case base
  with start show ?case by (simp add: counters_grow_def)
next
  case (step e1 e2)
  then have "mints_on K e1 e2"
    using honest_step_mints honest_coupled [OF _ codec] honest_minting [OF codec] reachable_ok [OF honest_reachable] by blast
  with step show ?case by (auto simp: mints_on_def intro: honest_next counters_grow_trans)
qed

section \<open>Properties\<close>

lemma minted_identifier:
  assumes run: "assert_identified env a e = (Inr r, e')"
  defines "c \<equiv> next_record_identifier (eng_storage e)"
  shows "eng_staging e = None \<Longrightarrow> imr_identifier r = c (ia_table a)
      \<and> next_record_identifier (eng_storage e') = c(ia_table a := c (ia_table a) + 1)"
    and "eng_staging e = Some ss \<Longrightarrow> imr_identifier r = pending_next c ss (ia_table a)"
proof -
  assume "eng_staging e = None"
  from assert_identified_outcome [OF this, of a env] run
  obtain e1 where lands: "lands_identified env (identified_insert (ia_table a) (c (ia_table a)) (ia_record a))
        (identified_counter_insert (identified_counter_key (ia_table a)) (record_identifier_next (c (ia_table a))))
        Assert (ia_table a) (c (ia_table a)) (Some (ia_record a)) e e1"
    and r: "imr_identifier r = c (ia_table a)" "e1 = e'"
    by (auto simp: write_outcome_def Let_def c_def identified_mutation_receipt_new_def)
  then have "st_identified_counters (eng_storage e') = tbl_insert (identified_counter_key (ia_table a))
      (record_identifier_next (c (ia_table a))) (st_identified_counters (eng_storage e))"
    by (auto simp: lands_identified_def landed_def dest!: commits_sel(1))
  then have "next_record_identifier (eng_storage e') = c(ia_table a := c (ia_table a) + 1)"
    by (auto simp: next_record_identifier_def c_def record_identifier_next_def table_simps fun_eq_iff)
  with r show "imr_identifier r = c (ia_table a)
      \<and> next_record_identifier (eng_storage e') = c(ia_table a := c (ia_table a) + 1)" by simp
next
  assume ss: "eng_staging e = Some ss"
  obtain i ss1 where mint: "mint_identifier (identified_counter_key (ia_table a)) (c (ia_table a)) ss = (i, ss1)"
    by (metis surj_pair)
  have "imr_identifier r = i"
    using run ss mint
    by (auto simp: assert_identified_def Let_def bindS_reads with_session_def staged_assert_identified_def c_def
        bindS_def identified_mutation_receipt_new_def split: sum.splits prod.splits)
  then show "imr_identifier r = pending_next c ss (ia_table a)"
    using mint_identifier_sel(1) [where c = c and table = "ia_table a", OF mint] by simp
qed

lemma minting_absent:
  assumes "minting K e" and "next_record_identifier (eng_storage e) table \<le> i"
  shows "identified_record_at e table i = None"
proof (rule ccontr)
  assume "identified_record_at e table i \<noteq> None"
  then have "typed_row (eng_storage e) table (Identifier i) \<noteq> None" by (simp add: typed_row_def identified_record_at_def)
  with minting_parts(1) [OF assms(1)] have "i < next_record_identifier (eng_storage e) table"
    unfolding rows_minted_def by blast
  with assms(2) show False by simp
qed


section \<open>Witness\<close>

definition sample_identified :: identified_table_descriptor where
  "sample_identified = identified_table_descriptor_new ''events'' (family sample_family) (family_schema_hash sample_family)"

definition sample_numbered :: "nat engine" where
  "sample_numbered = snd (register_identified_table sample_env sample_identified sample_fresh)"

lemma sample_numbered_engine:
  "fst (register_identified_table sample_env sample_identified sample_fresh) = Inr ''events''"
  "sample_numbered = sample_fresh\<lparr>eng_storage := identified_counter_insert (identified_counter_key ''events'')
       record_identifier_first (catalog_row_insert ''events''
         (registration_new (itd_family_identity sample_identified)) (eng_storage sample_fresh)),
     eng_catalog := [registration_new (itd_family_identity sample_identified)]\<rparr>"
  by (simp_all add: sample_numbered_def register_identified_table_def Let_def sample_identified_def
      identified_table_descriptor_new_def itd_family_identity_def family_registration_state_def
      registration_for_table_def registration_for_family_def engine_put_def engine_write_def store_write_def
      catalog_insert_def registration_new_def)

lemma sample_numbered_reads:
  "eng_policy sample_numbered = Some sample_policy" "eng_staging sample_numbered = None"
  "versioned_entries (eng_storage sample_numbered) = []" "has_room sample_numbered"
  "eng_catalog sample_numbered = [registration_new (itd_family_identity sample_identified)]"
  "next_record_identifier (eng_storage sample_numbered) ''events'' = 1"
  using sample_fresh_reads
  by (simp_all add: sample_numbered_engine(2) has_room_def same_history_reads [OF same_history_updates(5)]
      same_history_reads [OF same_history_updates(6)]) (simp add: record_identifier_first_def)

lemma sample_numbered_honest: "honestly_reachable W sample_env dir sample_policy sample_numbered"
proof (rule honest_next [OF honest_fresh [OF sample_fresh_fresh]])
  have "register_identified_table sample_env sample_identified sample_fresh = (Inr ''events'', sample_numbered)"
    using sample_numbered_engine(1) by (simp add: sample_numbered_def prod_eq_iff)
  then show "honest_step W sample_env dir sample_fresh sample_numbered"
    by (rule honest_register_identified) (simp_all add: declarable_def sample_fresh_log family_inventory_def)
qed

lemma sample_numbers:
  assumes "eng_catalog e = [registration_new (itd_family_identity sample_identified)]" and "eng_staging e = None"
    and "ia_table a = ''events''" and "ia_record a < 256"
  obtains r e' where "assert_identified sample_env a e = (Inr r, e')"
proof -
  have td: "family_table_name (itd_family_identity sample_identified) = ''events''"
    "registration_table_name (registration_new (itd_family_identity sample_identified)) = ''events''"
    by (simp_all add: registration_new_def registration_table_name_def sample_identified_def
        identified_table_descriptor_new_def itd_family_identity_def)
  have "ensure_registered e ''events'' = Inr ()" "\<exists>f. registered_family e ''events'' = Inr f"
    by (simp_all add: ensure_registered_def is_registered_def registered_family_def catalog_family_identity_def
        registration_for_table_def assms(1) td)
  then obtain f where reg: "ensure_registered e ''events'' = Inr ()" "registered_family e ''events'' = Inr f" by blast
  have "\<exists>v. versioned_record_entry sample_env e sq snap Assert ''events'' k (ia_record a) = Inr v" for sq snap k
    using assms(4) by (simp add: versioned_record_entry_def reg versioned_record_payload_def)
  then obtain v where "versioned_record_entry sample_env e (next_commit_sequence e) (next_snapshot e) Assert ''events''
      (Some (Identifier (next_record_identifier (eng_storage e) ''events''))) (ia_record a) = Inr v" by blast
  then have "\<exists>r e'. assert_identified sample_env a e = (Inr r, e')"
    using assms(2,3) reg
    by (auto simp: assert_identified_def Let_def engine_put_def engine_write_def store_write_def)
  with that show thesis by blast
qed


end
