(* ===== verification/Lifecycle_Theorems.thy ===== *)
theory Lifecycle_Theorems
  imports System_Theorems Rebuild_Theorems
begin

text \<open>
  Opening a store again (src/engine.rs \<open>Engine::open\<close>): an engine that is dropped, or whose process
  dies between two transactions, and is opened again over the store it left.
\<close>

section \<open>The catalog read back\<close>

definition catalog_saved :: "'r engine \<Rightarrow> bool" where
  "catalog_saved e \<longleftrightarrow> tbl_ok (st_catalog (eng_storage e)) \<and> catalog_ok (eng_catalog e)
     \<and> (\<forall>name. tbl_get (st_catalog (eng_storage e)) name = registration_for_table (eng_catalog e) name)"

text \<open>The store can be opened as it is: current layout, the engine's policy, no unfinished compaction.\<close>

definition store_settled :: "'r engine \<Rightarrow> bool" where
  "store_settled e \<longleftrightarrow> counter_get (eng_storage e) storage_layout_key = Some storage_layout
     \<and> st_policy (eng_storage e) = eng_policy e \<and> compaction_intent_of e = None"

lemma registration_rows:
  "\<forall>x \<in> set t. registration_table_name (snd x) = fst x \<Longrightarrow>
   registration_for_table (map snd t) name = tbl_get t name"
  by (induction t) (auto simp: registration_for_table_def tbl_get_def)

lemma catalog_saved_rows:
  assumes "catalog_saved e"
  shows "registration_for_table (map snd (tbl_iter (st_catalog (eng_storage e)))) name =
      registration_for_table (eng_catalog e) name"
    and "set (map snd (tbl_iter (st_catalog (eng_storage e)))) = set (eng_catalog e)"
    and "distinct (map snd (tbl_iter (st_catalog (eng_storage e))))"
proof -
  let ?t = "st_catalog (eng_storage e)"
  have ok: "tbl_ok ?t" "catalog_ok (eng_catalog e)"
    and get: "tbl_get ?t name = registration_for_table (eng_catalog e) name" for name
    using assms by (simp_all add: catalog_saved_def)
  have row: "tbl_get ?t (fst x) = Some (snd x)" if "x \<in> set ?t" for x
    using that ok(1) by (simp add: tbl_get_Some_iff)
  have names: "registration_table_name (snd x) = fst x \<and> snd x \<in> set (eng_catalog e)" if "x \<in> set ?t" for x
    using row [OF that] registration_for_table_name [of "eng_catalog e" "fst x" "snd x"] by (simp add: get)
  show "registration_for_table (map snd (tbl_iter ?t)) name = registration_for_table (eng_catalog e) name"
    using registration_rows [of ?t name] names by (simp add: tbl_iter_def get)
  have found: "registration_for_table (eng_catalog e) (registration_table_name r) = Some r"
    if "r \<in> set (eng_catalog e)" for r
    using that ok(2)
    by (auto simp: catalog_ok_def registration_for_table_def find_Some_iff in_set_conv_nth nth_eq_iff_index_eq
        distinct_conv_nth)
  have "r \<in> snd ` set ?t" if "r \<in> set (eng_catalog e)" for r
    using found [OF that] get tbl_get_Some_iff [OF ok(1)] by (metis image_eqI snd_conv)
  with names show "set (map snd (tbl_iter ?t)) = set (eng_catalog e)" by (auto simp: tbl_iter_def)
  have "distinct (map (registration_table_name \<circ> snd) ?t)"
    using tbl_ok_distinct [OF ok(1)] names by (metis (no_types, lifting) comp_apply map_eq_conv)
  then have "distinct (map registration_table_name (map snd ?t))" by simp
  then show "distinct (map snd (tbl_iter ?t))" unfolding tbl_iter_def by (rule distinct_map [THEN iffD1, THEN conjunct1])
qed

section \<open>Opening again\<close>


lemma sample_opened_saved: "catalog_saved sample_opened" "store_settled sample_opened"
  by (simp_all add: catalog_saved_def store_settled_def sample_opened_engine sample_fresh_def catalog_row_insert_def
      counter_insert_def counter_get_def store_empty_def compaction_intent_of_def sample_descriptor_def
      table_descriptor_new_def td_family_identity_def registration_for_table_def tbl_ok_def tbl_get_def catalog_ok_def
      registration_table_name_def registration_new_def)


end
