(* ===== verification/Outbox_Laws.thy ===== *)
theory Outbox_Laws
  imports Staging_Theorems System_Theorems
begin

text \<open>
  The mirror outbox of a store that ships its history (src/outbox.rs with its callers in src/engine.rs):
  every operation of the engine keeps one outbox row per live entry of the versioned log, so that nothing
  committed is dropped before a mirror acknowledged it.
\<close>

section \<open>The outbox mirrors the log\<close>

definition outbox_rows :: "versioned_entry list \<Rightarrow> (u64, outbox_entry) tbl" where
  "outbox_rows es = map (\<lambda>v. (ve_commit_sequence v, outbox_entry_of v)) es"

definition outbox_agrees :: "'r store \<Rightarrow> bool" where
  "outbox_agrees s \<longleftrightarrow> st_outbox s = outbox_rows (versioned_entries s)"

definition mirrored :: "'r engine \<Rightarrow> bool" where
  "mirrored e \<longleftrightarrow> (writes_mirror_outbox (eng_policy e) \<longrightarrow> outbox_agrees (eng_storage e))"

text \<open>The frame of the operations that touch neither.\<close>

definition outbox_kept :: "'r engine \<Rightarrow> 'r engine \<Rightarrow> bool" where
  "outbox_kept e e' \<longleftrightarrow>
     eng_policy e' = eng_policy e \<and> st_outbox (eng_storage e') = st_outbox (eng_storage e)
     \<and> st_versioned_log (eng_storage e') = st_versioned_log (eng_storage e)"

lemma outbox_kept_refl [simp]: "outbox_kept e e"
  by (simp add: outbox_kept_def)

lemma outbox_kept_trans: "outbox_kept e e1 \<Longrightarrow> outbox_kept e1 e2 \<Longrightarrow> outbox_kept e e2"
  by (simp add: outbox_kept_def)

lemma outbox_kept_updates [simp]:
  "outbox_kept e (e1\<lparr>eng_staging := ss\<rparr>) = outbox_kept e e1"
  "outbox_kept e (e1\<lparr>eng_subscriptions := g\<rparr>) = outbox_kept e e1"
  "outbox_kept e (e1\<lparr>eng_catalog := c\<rparr>) = outbox_kept e e1"
  "outbox_kept e (e1\<lparr>eng_fault := f\<rparr>) = outbox_kept e e1"
  by (simp_all add: outbox_kept_def)

lemma mirrored_kept: "outbox_kept e e' \<Longrightarrow> mirrored e \<Longrightarrow> mirrored e'"
  by (simp add: outbox_kept_def mirrored_def outbox_agrees_def versioned_entries_def)

lemma kept_put:
  "outbox_kept e e1 \<Longrightarrow> st_outbox (f (eng_storage e1)) = st_outbox (eng_storage e1) \<Longrightarrow>
   st_versioned_log (f (eng_storage e1)) = st_versioned_log (eng_storage e1) \<Longrightarrow>
   keeps (outbox_kept e) (engine_put env f e1)"
  by (intro keeps_put) (simp_all add: outbox_kept_def)

lemma outbox_updates [simp]:
  "st_outbox (park_in g s) = st_outbox s" "st_versioned_log (park_in g s) = st_versioned_log s"
  "st_outbox (clear_in s) = st_outbox s" "st_versioned_log (clear_in s) = st_versioned_log s"
  "st_outbox (put_intent i s) = st_outbox s" "st_versioned_log (put_intent i s) = st_versioned_log s"
  "st_outbox (catalog_row_insert n c s) = st_outbox s"
  "st_versioned_log (catalog_row_insert n c s) = st_versioned_log s"
  "st_outbox (identified_counter_insert k v s) = st_outbox s"
  "st_versioned_log (identified_counter_insert k v s) = st_versioned_log s"
  "st_outbox (counter_insert k v s) = st_outbox s" "st_versioned_log (counter_insert k v s) = st_versioned_log s"
  "st_outbox (persist_subscription h fl s) = st_outbox s"
  "st_versioned_log (persist_subscription h fl s) = st_versioned_log s"
  by (simp_all add: park_in_def clear_in_def put_intent_def catalog_row_insert_def identified_counter_insert_def
      counter_insert_def persist_subscription_def)

section \<open>Appends and prunes\<close>

lemma outbox_keys_below:
  assumes "logs_ok s" and "outbox_agrees s" and "committed_commit_sequence s < sq"
  shows "\<forall>k \<in> set (map fst (st_outbox s)). k < sq"
  using assms
  by (fastforce simp: logs_ok_def log_indexed_def outbox_agrees_def outbox_rows_def versioned_entries_def tbl_iter_def)

lemma outbox_fold_append:
  assumes "sequences_from sq snap es" and "unat sq + length es < 2 ^ 64" and "\<forall>k \<in> set (map fst t). k \<le> sq"
  shows "fold (\<lambda>v. tbl_insert (ve_commit_sequence v) (outbox_entry_of v)) es t = t @ outbox_rows es"
  using assms
proof (induction es arbitrary: sq snap t)
  case (Cons v es)
  have room: "sq < ve_commit_sequence v" "unat (ve_commit_sequence v) + length es < 2 ^ 64"
    using sequences_room [OF Cons.prems(1,2)] by simp_all
  have insert: "tbl_insert (ve_commit_sequence v) (outbox_entry_of v) t = t @ [(ve_commit_sequence v, outbox_entry_of v)]"
    using Cons.prems(3) room(1) by (intro tbl_insert_last) fastforce
  have "\<forall>k \<in> set (map fst (t @ [(ve_commit_sequence v, outbox_entry_of v)])). k \<le> ve_commit_sequence v"
    using Cons.prems(3) room(1) by fastforce
  from Cons.IH [OF _ room(2) this, of "snap + 1"] Cons.prems(1) insert show ?case
    by (simp add: outbox_rows_def)
qed (simp add: outbox_rows_def)

lemma mirrored_lands:
  assumes lands: "lands_one env e e1" and ok: "engine_ok env e" and m: "mirrored e"
    and room: "committed_commit_sequence (eng_storage e) \<noteq> - 1"
  shows "mirrored e1"
proof (cases "writes_mirror_outbox (eng_policy e)")
  case True
  then obtain policy where policy: "eng_policy e = Some policy" "policy_recovery_topology policy = Mirror"
    by (auto simp: writes_mirror_outbox_def split: option.splits)
  from lands policy obtain v where v: "versioned_entries (eng_storage e1) = versioned_entries (eng_storage e) @ [v]"
    "ve_commit_sequence v = next_commit_sequence e"
    "st_outbox (eng_storage e1) = tbl_insert (next_commit_sequence e) (outbox_entry_of v) (st_outbox (eng_storage e))"
    "eng_policy e1 = eng_policy e"
    by (auto simp: lands_one_def appends_commit_def)
  have agrees: "outbox_agrees (eng_storage e)" using m True by (simp add: mirrored_def)
  have "logs_ok (eng_storage e)" using ok by (simp add: engine_ok_def)
  from tbl_insert_last [OF outbox_keys_below [OF this agrees next_sequence_above [OF room]]] v agrees
  show ?thesis by (simp add: mirrored_def outbox_agrees_def outbox_rows_def)
next
  case False
  with lands show ?thesis by (simp add: mirrored_def lands_one_def)
qed

lemma mirrored_pruned:
  assumes "pruned_to covered (eng_storage e) (eng_storage e')" and "logs_ok (eng_storage e)"
    and "eng_policy e' = eng_policy e" and "mirrored e"
  shows "mirrored e'"
proof -
  have keys: "\<forall>r \<in> set (st_versioned_log (eng_storage e)). ve_commit_sequence (snd r) = fst r"
    using assms(2) by (simp add: logs_ok_def log_indexed_def)
  have "filter (\<lambda>r. covered < fst r) (outbox_rows (map snd t)) =
      outbox_rows (map snd (filter (\<lambda>r. covered < fst r) t))"
    if "\<forall>r \<in> set t. ve_commit_sequence (snd r) = fst r" for t
    using that by (induction t) (auto simp: outbox_rows_def)
  from this [OF keys] assms show ?thesis
    by (simp add: mirrored_def outbox_agrees_def pruned_to_def versioned_entries_def tbl_iter_def)
qed

lemma mirrored_history:
  assumes "unpruned (eng_storage e) (eng_storage e') \<or> (\<exists>covered. pruned_to covered (eng_storage e) (eng_storage e') \<and> Q covered)"
    and "logs_ok (eng_storage e)" and "history_only e e'" and "mirrored e"
  shows "mirrored e'"
proof -
  have policy: "eng_policy e' = eng_policy e" using assms(3) by (simp add: history_only_def)
  from assms(1) show ?thesis
  proof (elim disjE exE conjE)
    assume "unpruned (eng_storage e) (eng_storage e')"
    with policy show ?thesis
      by (intro mirrored_kept [OF _ assms(4)]) (simp add: outbox_kept_def unpruned_def)
  next
    fix covered assume "pruned_to covered (eng_storage e) (eng_storage e')"
    from mirrored_pruned [OF this assms(2) policy assms(4)] show ?thesis .
  qed
qed

section \<open>Every step keeps the outbox\<close>

lemma settles_mirrored:
  assumes res: "settles env e (r, e')" and ok: "engine_ok env e" and room: "has_room e"
    and addr: "commits_addressable env e" and m: "mirrored e"
  shows "mirrored e'"
proof -
  note step = mirrored_lands [OF _ ok m has_room_words(1) [OF room]]
  have "mirrored e'" if lands: "lands_one env e e1" and run: "maintain_versioned_history env e1 = (r, e')" for e1
  proof (cases "over_retention e1")
    case True
    have e1: "engine_ok env e1" "committed_commit_sequence (eng_storage e1) \<noteq> - 1" "segments_addressable env e1"
      using lands addr True has_room_words(2) [OF room] by (auto simp: lands_one_def appends_commit_def commits_addressable_def)
    from maintain_ok [OF e1 run] mirrored_history [of e1 e'] step [OF lands] e1(1) show ?thesis
      by (simp add: engine_ok_def) blast
  next
    case False
    from maintain_within [OF this run] step [OF lands] show ?thesis by simp
  qed
  with res m step show ?thesis by (auto simp: settles_def)
qed

lemma write_mirrored:
  assumes run: "run_write env w e = (r, e')" and ok: "engine_ok env e" and room: "has_room e"
    and addr: "commits_addressable env e" and m: "mirrored e"
  shows "mirrored e'"
proof (cases "eng_staging e = None \<or> (\<exists>ws. w = DirectAtomic ws)")
  case True
  then have "settles env e (run_write env w e)" by (rule write_settles [OF ok room])
  with run settles_mirrored [OF _ ok room addr m] show ?thesis by simp
next
  case False
  then obtain ss where "eng_staging e = Some ss" by auto
  with False session_write [of e ss w env] run have "session_writes op_applicable env ss e (r, e')" by simp
  from session_writes_ok(3) [OF this ok \<open>eng_staging e = Some ss\<close>]
  obtain ss' where "e' = e\<lparr>eng_staging := Some ss'\<rparr>" by blast
  then show ?thesis using m by (simp add: mirrored_def)
qed

lemma checkpoint_mirrored:
  assumes run: "take_checkpoint env e = (r, e')" and ok: "engine_ok env e" and room: "has_room e"
    and addr: "segments_addressable env e" and m: "mirrored e"
  shows "mirrored e'"
  using take_checkpoint_ok [OF ok has_room_words(1) [OF room] addr run]
  by (intro mirrored_kept [OF _ m]) (simp add: outbox_kept_def history_only_def)

lemma compact_mirrored:
  assumes run: "compact_versioned_history env retention ack e = (r, e')" and ok: "engine_ok env e"
    and room: "has_room e" and addr: "segments_addressable env e" and m: "mirrored e"
  shows "mirrored e'"
  using compact_versioned_history_ok [OF ok has_room_words(1) [OF room] addr run] ok
  by (intro mirrored_history [OF _ _ _ m]) (auto simp: engine_ok_def)

lemma configured_mirrored:
  assumes run: "compact_configured_versioned_history env e = (r, e')" and ok: "engine_ok env e"
    and room: "has_room e" and addr: "segments_addressable env e" and m: "mirrored e"
  shows "mirrored e'"
  using compact_configured_cases [OF run] compact_mirrored [OF _ ok room addr m] m by blast

lemma maintain_mirrored:
  assumes run: "maintain_versioned_history env e = (r, e')" and ok: "engine_ok env e" and room: "has_room e"
    and addr: "segments_addressable env e" and m: "mirrored e"
  shows "mirrored e'"
  using maintain_ok [OF ok has_room_words(1) [OF room] addr run] ok
  by (intro mirrored_history [OF _ _ _ m]) (auto simp: engine_ok_def)

lemma rebuild_kept: "keeps (outbox_kept e) (rebuild_from_log env dir e)"
proof -
  have "keeps (outbox_kept e) (engine_write env (\<lambda>s. bindR (lift_storage (materialize_rows_in env dir rows s))
      (\<lambda>s'. Inr ((), s'))) e)" (is "keeps _ ?res") for rows
  proof (cases ?res)
    case (Pair r1 e1)
    then show ?thesis
    proof (cases rule: engine_write_cases)
      case (committed x s)
      then have "materialize_rows_in env dir rows (eng_storage e) = Inr s" by (auto simp: bindR_eq_Inr)
      from same_planes_history [OF materialize_rows_planes [OF this]] committed Pair show ?thesis
        by (simp add: outbox_kept_def same_history_def)
    qed (use Pair in simp)
  qed
  then show ?thesis
    unfolding rebuild_from_log_def Let_def
    by (auto split: prod.split option.split intro!: keeps_bind_reads keeps_bind)
qed

lemma acknowledge_kept: "keeps (outbox_kept e) (acknowledge_mirror env head e)"
proof -
  let ?res = "outbox_acknowledge env head (map_option ve_entry_digest
      (versioned_entry_at (eng_storage e) (mh_commit_sequence head))) (eng_storage e)"
  obtain r s where o: "?res = (r, s)" by (cases ?res)
  then have "s = eng_storage e \<or> s = (eng_storage e)\<lparr>st_mirror_cursor := Some head\<rparr>"
    using outbox_acknowledge_Inl outbox_acknowledge_Inr(2) by (cases r) blast+
  then show ?thesis by (auto simp: acknowledge_mirror_def o outbox_kept_def)
qed

lemma staging_kept:
  "keeps (outbox_kept e) (begin_staged_group env e)" "keeps (outbox_kept e) (abandon_staged_group e)"
  "keeps (outbox_kept e) (park_staged_group env e)" "keeps (outbox_kept e) (discard_staged_group env e)"
  "keeps (outbox_kept e) (begin_compaction env e)" "keeps (outbox_kept e) (park_compaction env e)"
  "keeps (outbox_kept e) (interrupt_compaction_at phase e)"
proof -
  show one: "keeps (outbox_kept e) (begin_staged_group env e)"
    by (auto simp: begin_staged_group_def split: option.split)
  show "keeps (outbox_kept e) (abandon_staged_group e)"
    by (auto simp: abandon_staged_group_def split: option.split)
  show "keeps (outbox_kept e) (park_staged_group env e)"
    by (auto simp: park_staged_group_def Let_def split: option.split
        intro!: keeps_bind_reads keeps_bind kept_put)
  show "keeps (outbox_kept e) (discard_staged_group env e)"
    by (auto simp: discard_staged_group_def Let_def split: option.split
        intro!: keeps_bind_reads keeps_bind kept_put)
  show "keeps (outbox_kept e) (begin_compaction env e)"
    using one by (simp add: begin_compaction_def)
  show "keeps (outbox_kept e) (interrupt_compaction_at phase e)"
    by (simp add: interrupt_compaction_at_def)
  show "keeps (outbox_kept e) (park_compaction env e)"
    by (auto simp: park_compaction_def Let_def interrupt_compaction_at_def split: option.split
        intro!: keeps_bind_reads keeps_bind kept_put)
qed

lemma subscribe_kept: "keeps (outbox_kept e) (engine_subscribe env plan snk e)"
  unfolding engine_subscribe_def Let_def
  by (auto split: option.split intro!: keeps_bind_reads keeps_bind kept_put)

lemma register_identified_kept: "keeps (outbox_kept e) (register_identified_table env d e)"
  unfolding register_identified_table_def Let_def
  by (auto split: family_registration.split intro!: keeps_bind_reads keeps_bind kept_put)

lemma mirrored_updates [simp]:
  "mirrored (e\<lparr>eng_staging := ss\<rparr>) = mirrored e" "mirrored (e\<lparr>eng_subscriptions := g\<rparr>) = mirrored e"
  "mirrored (e\<lparr>eng_catalog := c\<rparr>) = mirrored e" "mirrored (e\<lparr>eng_fault := f\<rparr>) = mirrored e"
  "mirrored (e\<lparr>eng_storage := put_intent i (eng_storage e)\<rparr>) = mirrored e"
  "mirrored (e\<lparr>eng_storage := catalog_row_insert n reg (eng_storage e)\<rparr>) = mirrored e"
  by (simp_all add: mirrored_def outbox_agrees_def versioned_entries_def)

lemma materialize_mirrored:
  assumes run: "materialize_staged_group env dir e = (r, e')" and ok: "engine_ok env e" and fits: "group_fits e"
    and m: "mirrored e"
  shows "mirrored e'"
proof -
  from materialize_outcome [OF run ok fits] consider "e' = e"
    | g where "staging_slot (eng_storage e) = Some g" "group_materialized env dir g e r e'" by blast
  then show ?thesis
  proof cases
    case (2 g)
    then have landed: "group_landed (writes_mirror_outbox (eng_policy e)) g (eng_storage e) (eng_storage e')"
      and policy: "eng_policy e' = eng_policy e" by (auto simp: group_materialized_def same_session_def)
    have rows: "versioned_entries (eng_storage e') = versioned_entries (eng_storage e) @ sg_entries g"
      using landed by (simp add: group_landed_def versioned_entries_def tbl_iter_def log_rows_def comp_def)
    show ?thesis
    proof (cases "writes_mirror_outbox (eng_policy e) \<and> sg_entries g \<noteq> []")
      case True
      then have "eng_storage e' \<noteq> eng_storage e" using rows by auto
      from materialize_sequences [OF run 2(1) this]
      have seqs: "sequences_from (committed_commit_sequence (eng_storage e)) (committed_snapshot (eng_storage e))
          (sg_entries g)" .
      have agrees: "outbox_agrees (eng_storage e)" using m True by (simp add: mirrored_def)
      have "\<forall>k \<in> set (map fst (st_outbox (eng_storage e))). k \<le> committed_commit_sequence (eng_storage e)"
        using ok agrees
        by (fastforce simp: engine_ok_def logs_ok_def log_indexed_def outbox_agrees_def outbox_rows_def
            versioned_entries_def tbl_iter_def)
      from outbox_fold_append [OF seqs _ this] fits 2(1) landed True agrees rows
      show ?thesis by (simp add: group_fits_def group_landed_def mirrored_def outbox_agrees_def outbox_rows_def policy)
    next
      case False
      with landed rows policy m show ?thesis
        by (auto simp: mirrored_def outbox_agrees_def group_landed_def)
    qed
  qed (use m in simp)
qed

lemma publish_mirrored:
  assumes run: "publish_compaction_checkpoint env intent e = (r, e')" and ok: "engine_ok env e"
    and room: "has_room e" and addr: "segments_addressable env e" and m: "mirrored e"
  shows "mirrored e'"
proof -
  have taken: "keeps mirrored (take_checkpoint env e)"
    using checkpoint_mirrored [OF _ ok room addr m] by (cases "take_checkpoint env e") simp
  have "keeps mirrored (publish_compaction_checkpoint env intent e)"
    unfolding publish_compaction_checkpoint_def Let_def
    by (intro keeps_bind_reads keeps_bind [of mirrored] m)
      (auto simp: interrupt_compaction_at_def m intro!: keeps_bind [OF taken] keeps_bind keeps_put)
  with run show ?thesis by simp
qed

lemma finish_mirrored:
  assumes run: "finish_compaction env e = (r, e')" and ok: "engine_ok env e" and room: "has_room e"
    and addr: "segments_addressable env e" and m: "mirrored e"
  shows "mirrored e'"
proof -
  have configured: "keeps mirrored (compact_configured_versioned_history env e)"
    using configured_mirrored [OF _ ok room addr m] by (cases "compact_configured_versioned_history env e") simp
  have "keeps mirrored (finish_compaction env e)"
    unfolding finish_compaction_def
    by (intro keeps_bind [of mirrored] configured)
      (auto simp: interrupt_compaction_at_def intro!: keeps_put)
  with run show ?thesis by simp
qed

lemma register_mirrored:
  assumes run: "register_table env d e = (r, e')" and ok: "engine_ok env e" and room: "has_room e"
    and addr: "\<And>c. commits_addressable env (e\<lparr>eng_catalog := c\<rparr>)" and m: "mirrored e"
  shows "mirrored e'"
proof -
  have evolve: "keeps mirrored (evolve_registered_family env d stored step e)"
    if "registered_family e (td_name d) = Inr stored" for stored step
  proof -
    have landed: "mirrored e2" if "evolved_catalog d e e0" "lands_one env e0 e1"
      "maintain_versioned_history env e1 = (r2, e2)" for e0 e1 e2 r2
    proof -
      from evolved_catalog_update [OF that(1)] obtain c where e0: "e0 = e\<lparr>eng_catalog := c\<rparr>" by blast
      have "settles env e0 (r2, e2)" using that(2,3) by (auto simp: settles_def)
      from settles_mirrored [OF this [unfolded e0] _ _ addr] ok room m show ?thesis by (simp add: has_room_def)
    qed
    obtain r1 e3 where run1: "evolve_registered_family env d stored step e = (r1, e3)" by (metis surj_pair)
    with evolve_outcome [OF ok has_room_words(1) [OF room] that, of step]
    have "evolution_outcome env d step e (r1, e3)" by simp
    then consider "e3 = e"
      | e0 where "evolved_catalog d e e0" "e3 = e0\<lparr>eng_storage := catalog_row_insert (td_name d)
          (registration_new (td_family_identity d)) (eng_storage e)\<rparr>"
      | e0 e1 e2 r2 where "evolved_catalog d e e0" "lands_one env e0 e1" "maintain_versioned_history env e1 = (r2, e2)"
          "e3 = e2 \<or> e3 = e2\<lparr>eng_catalog := eng_catalog e\<rparr>"
      unfolding evolution_outcome_def by (elim disjE exE conjE; simp; blast)
    then have "mirrored e3"
    proof cases
      case (2 e0)
      then have "eng_storage e0 = eng_storage e" "eng_policy e0 = eng_policy e"
        by (simp_all only: evolved_catalog_def)
      with 2(2) m show ?thesis by (simp add: mirrored_def outbox_agrees_def versioned_entries_def)
    next
      case (3 e0 e1 e2 r2)
      from landed [OF 3(1-3)] 3(4) show ?thesis by auto
    qed (use m in simp)
    with run1 show ?thesis by simp
  qed
  have "keeps mirrored (register_table env d e)"
    unfolding register_table_def Let_def using m evolve
    by (auto split: sum.split error.split family_registration.split option.split
        intro!: keeps_bind_reads keeps_bind [of mirrored] keeps_put)
  with run show ?thesis by simp
qed

lemma step_mirrored: "engine_step env dir e e' \<Longrightarrow> engine_ok env e \<Longrightarrow> mirrored e \<Longrightarrow> mirrored e'"
proof (induction rule: engine_step.induct)
  case (step_rebuild e r e')
  then show ?case using mirrored_kept [OF keepsD [OF rebuild_kept]] by blast
next
  case (step_acknowledge head e r e')
  then show ?case using mirrored_kept [OF keepsD [OF acknowledge_kept]] by blast
next
  case (step_engage e r e')
  then show ?case using mirrored_kept [OF keepsD [OF staging_kept(1)]] by blast
next
  case (step_park e r' e')
  then show ?case using mirrored_kept [OF keepsD [OF staging_kept(3)]] by blast
next
  case (step_abandon e r e')
  then show ?case using mirrored_kept [OF keepsD [OF staging_kept(2)]] by blast
next
  case (step_discard e r'' e')
  then show ?case using mirrored_kept [OF keepsD [OF staging_kept(4)]] by blast
next
  case (step_plan e r e')
  then show ?case using mirrored_kept [OF keepsD [OF staging_kept(5)]] by blast
next
  case (step_park_plan e rb e')
  then show ?case using mirrored_kept [OF keepsD [OF staging_kept(6)]] by blast
next
  case (step_interrupt phase e r e')
  then show ?case using mirrored_kept [OF keepsD [OF staging_kept(7)]] by blast
next
  case (step_register_identified idd e rt e')
  then show ?case using mirrored_kept [OF keepsD [OF register_identified_kept]] by blast
next
  case (step_subscribe plan snk e rs e')
  then show ?case using mirrored_kept [OF keepsD [OF subscribe_kept]] by blast
qed (auto simp: inject_compaction_fault_def
    dest: write_mirrored checkpoint_mirrored compact_mirrored maintain_mirrored materialize_mirrored publish_mirrored
      finish_mirrored intro: register_mirrored)

lemma fresh_mirrored: "fresh_engine policy e \<Longrightarrow> mirrored e"
  by (simp add: fresh_engine_def mirrored_def outbox_agrees_def outbox_rows_def versioned_entries_def tbl_iter_def
      store_empty_def counter_insert_def)

lemma reachable_mirrored: "reachable env dir policy e \<Longrightarrow> mirrored e"
  by (induction rule: reachable.induct) (auto dest: fresh_mirrored step_mirrored reachable_ok)

section \<open>Rows of the outbox\<close>

lemma log_entry_at:
  assumes "logs_ok s"
  shows "versioned_entry_at s sq = Some v \<longleftrightarrow> v \<in> set (versioned_entries s) \<and> ve_commit_sequence v = sq"
proof -
  let ?log = "st_versioned_log s"
  have log: "tbl_ok ?log" "\<forall>r \<in> set ?log. ve_commit_sequence (snd r) = fst r"
    using assms by (simp_all add: logs_ok_def log_indexed_def)
  then have "(sq, v) \<in> set ?log \<longleftrightarrow> v \<in> snd ` set ?log \<and> ve_commit_sequence v = sq" by force
  with log(1) show ?thesis
    by (simp add: versioned_entry_at_def versioned_entries_def tbl_iter_def tbl_get_Some_iff)
qed

lemma outbox_row_at:
  assumes logs: "logs_ok s" and agrees: "outbox_agrees s"
  shows "row_at s sq = map_option outbox_entry_of (versioned_entry_at s sq)"
proof -
  have "tbl_get (outbox_rows (map snd t)) sq = map_option outbox_entry_of (tbl_get t sq)"
    if "\<forall>r \<in> set t. ve_commit_sequence (snd r) = fst r" for t
    using that by (induction t) (auto simp: outbox_rows_def tbl_get_def)
  with logs agrees show ?thesis
    by (simp add: row_at_def versioned_entry_at_def outbox_agrees_def versioned_entries_def tbl_iter_def logs_ok_def
        log_indexed_def)
qed

lemma outbox_from:
  assumes logs: "logs_ok s" and agrees: "outbox_agrees s"
  shows "map snd (tbl_from start (st_outbox s)) = map outbox_entry_of (versioned_entries_from s start)"
proof -
  have "map snd (tbl_from start (outbox_rows (map snd t))) = map outbox_entry_of (map snd (tbl_from start t))"
    if "\<forall>r \<in> set t. ve_commit_sequence (snd r) = fst r" for t
    using that by (induction t) (auto simp: outbox_rows_def tbl_from_def)
  with logs agrees show ?thesis
    by (simp add: versioned_entries_from_def outbox_agrees_def versioned_entries_def tbl_iter_def logs_ok_def
        log_indexed_def)
qed

end
