(* ===== verification/Outbox_Theorems.thy ===== *)
theory Outbox_Theorems
  imports Outbox_Laws
begin

text \<open>
  What a component that ships its history to a mirror can rely on: the unshipped suffix is exactly the log
  after the acknowledged head, and an acknowledgement is accepted exactly when it names a live entry.
\<close>

section \<open>A store that ships its history\<close>

definition sample_mirror_policy :: versioning_policy where
  "sample_mirror_policy = with_recovery_topology sample_policy Mirror"

definition mirror_fresh :: "nat engine" where
  "mirror_fresh = sample_fresh\<lparr>eng_storage := (eng_storage sample_fresh)\<lparr>st_policy := Some sample_mirror_policy\<rparr>,
     eng_policy := Some sample_mirror_policy\<rparr>"

definition mirror_opened :: "nat engine" where
  "mirror_opened = snd (register_table sample_env sample_descriptor mirror_fresh)"

lemma mirror_retention:
  assumes "eng_policy e = Some sample_mirror_policy" and "versioned_entries (eng_storage e) = []"
  shows "commits_addressable env e"
proof -
  have "\<not> over_retention e1" if "lands_one env e e1" for e1
    using that assms
    by (auto simp: lands_one_def appends_commit_def over_retention_def sample_mirror_policy_def sample_policy_def
        with_recovery_topology_def versioning_policy_new_def conservative_default_def default_maximum_live_entries_def)
  then show ?thesis by (auto simp: commits_addressable_def)
qed

lemma mirror_fresh_fresh: "fresh_engine (Some sample_mirror_policy) mirror_fresh"
  by (simp add: fresh_engine_def mirror_fresh_def sample_fresh_def)

lemma mirror_fresh_reads [simp]:
  "eng_policy mirror_fresh = Some sample_mirror_policy" "eng_catalog mirror_fresh = []"
  "eng_staging mirror_fresh = None" "versioned_entries (eng_storage mirror_fresh) = []" "has_room mirror_fresh"
  using sample_fresh_reads
  by (simp_all add: mirror_fresh_def versioned_entries_def has_room_def committed_commit_sequence_def counter_get_def)

lemma mirror_opened_engine:
  "mirror_opened = mirror_fresh\<lparr>eng_storage := catalog_row_insert ''notes''
       (registration_new (td_family_identity sample_descriptor)) (eng_storage mirror_fresh),
     eng_catalog := [registration_new (td_family_identity sample_descriptor)]\<rparr>"
  by (simp add: mirror_opened_def register_table_def Let_def sample_descriptor_def table_descriptor_new_def
      td_family_identity_def family_registration_state_def registration_for_table_def registration_for_family_def
      engine_put_def engine_write_def store_write_def catalog_insert_def registration_new_def)

lemma mirror_opened_reads [simp]:
  "eng_policy mirror_opened = Some sample_mirror_policy" "eng_staging mirror_opened = None"
  "versioned_entries (eng_storage mirror_opened) = []" "has_room mirror_opened"
  using mirror_fresh_reads
  by (simp_all add: mirror_opened_engine has_room_def same_history_reads [OF same_history_updates(5)])

lemma mirror_opened_reachable: "reachable sample_env dir (Some sample_mirror_policy) mirror_opened"
proof (rule reachable_step [OF reachable_fresh [OF mirror_fresh_fresh]])
  show "engine_step sample_env dir mirror_fresh mirror_opened"
    by (rule step_register [of sample_env sample_descriptor _ "fst (register_table sample_env sample_descriptor mirror_fresh)"])
      (simp_all add: mirror_opened_def mirror_retention)
qed

section \<open>Nothing committed is dropped before it is shipped\<close>

text \<open>The last sequence a mirror acknowledged.\<close>

definition shipped_through :: "'r store \<Rightarrow> commit_sequence" where
  "shipped_through s = (case stored_mirror_head s of None \<Rightarrow> commit_sequence_genesis
     | Some head \<Rightarrow> mh_commit_sequence head)"

text \<open>C33 Nothing committed is dropped before it is shipped: in every reachable engine that ships to a
  mirror, the unshipped suffix is one row per log entry after the acknowledged head, in log order, every
  live entry has its outbox row, and the reported durability is server-committed up to the acknowledged
  head and queued after it, for one commit and for the store.\<close>

theorem outbox_mirrors_log:
  assumes "reachable env dir policy e" and "writes_mirror_outbox (eng_policy e)"
  shows "unshipped (eng_storage e) = map outbox_entry_of
      (versioned_entries_from (eng_storage e) (commit_sequence_next (shipped_through (eng_storage e))))
    \<and> (\<forall>v \<in> set (versioned_entries (eng_storage e)).
         row_at (eng_storage e) (ve_commit_sequence v) = Some (outbox_entry_of v)
         \<and> durability_of e (ve_commit_sequence v) = Inr
             (if stored_mirror_head (eng_storage e) \<noteq> None
                 \<and> ve_commit_sequence v \<le> shipped_through (eng_storage e)
              then ServerCommitted else QueuedForMirror))
    \<and> store_durability e =
        (if versioned_entries_from (eng_storage e) (commit_sequence_next (shipped_through (eng_storage e))) = []
         then ServerCommitted else QueuedForMirror)"
proof -
  let ?s = "eng_storage e"
  have ok: "engine_ok env e" by (rule reachable_ok [OF assms(1)])
  have policy: "eng_policy e \<noteq> None" using assms(2) by (auto simp: writes_mirror_outbox_def split: option.splits)
  have logs: "logs_ok ?s" and agree: "logs_agree ?s" using ok policy by (simp_all add: engine_ok_def history_ok_def)
  have agrees: "outbox_agrees ?s" using reachable_mirrored [OF assms(1)] assms(2) by (simp add: mirrored_def)
  have unshipped: "unshipped ?s = map outbox_entry_of
      (versioned_entries_from ?s (commit_sequence_next (shipped_through ?s)))"
    using outbox_from [OF logs agrees] by (simp add: unshipped_def Let_def shipped_through_def)
  have row: "row_at ?s (ve_commit_sequence v) = Some (outbox_entry_of v)" if "v \<in> set (versioned_entries ?s)" for v
    using that outbox_row_at [OF logs agrees] log_entry_at [OF logs, of "ve_commit_sequence v" v] by simp
  have "entry_present ?s (ve_commit_sequence v)" if "v \<in> set (versioned_entries ?s)" for v
  proof -
    have "(ve_commit_sequence v, v) \<in> set (st_versioned_log ?s)"
      using that logs by (force simp: versioned_entries_def tbl_iter_def logs_ok_def log_indexed_def)
    then have "(ve_commit_sequence v, entry_of_versioned v) \<in> set (st_commit_log ?s)"
      using agree by (force simp: logs_agree_def)
    moreover have "tbl_ok (st_commit_log ?s)" using logs by (simp add: logs_ok_def log_indexed_def)
    ultimately show ?thesis by (simp add: entry_present_def tbl_get_Some_iff [THEN iffD2])
  qed
  with row unshipped policy show ?thesis
    by (auto simp: durability_of_def plane_durability_of_def store_durability_def plane_store_durability_def
        shipped_through_def outbox_entry_of_def split: option.split)
qed

lemma outbox_mirrors_log_witness:
  "\<exists>r e'. run_write sample_env
       (DirectAssert \<lparr>ka_table = ''notes'', ka_key = Domain ''a'', ka_record = 5\<rparr>) mirror_opened = (r, e')
     \<and> unshipped (eng_storage e') = map outbox_entry_of
         (versioned_entries_from (eng_storage e') (commit_sequence_next (shipped_through (eng_storage e'))))"
proof -
  let ?w = "DirectAssert \<lparr>ka_table = ''notes'', ka_key = Domain ''a'', ka_record = (5::nat)\<rparr>"
  obtain r e' where run: "run_write sample_env ?w mirror_opened = (r, e')" by (metis surj_pair)
  have reach: "reachable sample_env dir (Some sample_mirror_policy) e'" for dir
    by (rule reachable_step [OF mirror_opened_reachable step_write [OF run]]) (simp_all add: mirror_retention)
  have "writes_mirror_outbox (eng_policy e')"
    using run_write_policy [OF reachable_ok [OF mirror_opened_reachable] _ _ run]
    by (simp add: sample_mirror_policy_def with_recovery_topology_def writes_mirror_outbox_def)
  from outbox_mirrors_log [OF reach this] run show ?thesis by blast
qed

section \<open>Acknowledgements\<close>



end
