(* ===== verification/Import_Theorems.thy ===== *)
theory Import_Theorems
  imports System_Theorems Rebuild_Theorems
begin

text \<open>
  Restoring a fresh store from another store's checkpoint and log suffix (src/import.rs, \<open>apply_import\<close> of
  src/engine.rs): what the importing store holds afterwards.
\<close>

section \<open>The entries of the suffix\<close>

lemma outbox_record_parts [simp]:
  "st_catalog (outbox_record v s) = st_catalog s" "st_counters (outbox_record v s) = st_counters s"
  "st_commit_log (outbox_record v s) = st_commit_log s" "st_versioned_log (outbox_record v s) = st_versioned_log s"
  "st_chain_head (outbox_record v s) = st_chain_head s" "st_checkpoints (outbox_record v s) = st_checkpoints s"
  "st_segments (outbox_record v s) = st_segments s" "st_staging_slot (outbox_record v s) = st_staging_slot s"
  "st_identified_counters (outbox_record v s) = st_identified_counters s"
  "st_rows (outbox_record v s) = st_rows s" "st_identified_rows (outbox_record v s) = st_identified_rows s"
  by (simp_all add: outbox_record_def)

text \<open>What importing entries leaves of a store.\<close>

definition entries_imported :: "versioned_entry list \<Rightarrow> 'r store \<Rightarrow> 'r store \<Rightarrow> bool" where
  "entries_imported es s t \<longleftrightarrow>
     st_versioned_log t = st_versioned_log s @ map (\<lambda>v. (ve_commit_sequence v, v)) es
     \<and> st_commit_log t = st_commit_log s @ map (\<lambda>v. (ve_commit_sequence v, entry_of_versioned v)) es
     \<and> st_chain_head t = (if es = [] then st_chain_head s else Some (ve_entry_digest (last es)))
     \<and> (\<forall>k. counter_get t k =
          (if es \<noteq> [] \<and> (k = commit_log_count_key \<or> k = versioned_log_count_key)
           then Some (of_nat (length es)) else counter_get s k))
     \<and> st_checkpoints t = st_checkpoints s \<and> st_segments t = st_segments s
     \<and> st_staging_slot t = st_staging_slot s \<and> st_identified_counters t = st_identified_counters s
     \<and> st_rows t = st_rows s \<and> st_identified_rows t = st_identified_rows s"

lemma import_entry_parts:
  "st_versioned_log (import_entry mirror (n, v) s) = tbl_insert (ve_commit_sequence v) v (st_versioned_log s)"
  "st_commit_log (import_entry mirror (n, v) s) =
     tbl_insert (ve_commit_sequence v) (entry_of_versioned v) (st_commit_log s)"
  "st_chain_head (import_entry mirror (n, v) s) = Some (ve_entry_digest v)"
  "counter_get (import_entry mirror (n, v) s) k =
     (if k = commit_log_count_key \<or> k = versioned_log_count_key then Some (of_nat n + 1) else counter_get s k)"
  "st_checkpoints (import_entry mirror (n, v) s) = st_checkpoints s"
  "st_segments (import_entry mirror (n, v) s) = st_segments s"
  "st_staging_slot (import_entry mirror (n, v) s) = st_staging_slot s"
  "st_identified_counters (import_entry mirror (n, v) s) = st_identified_counters s"
  "st_rows (import_entry mirror (n, v) s) = st_rows s"
  "st_identified_rows (import_entry mirror (n, v) s) = st_identified_rows s"
  by (simp_all add: import_entry_def Let_def append_versioned_def append_commit_def entry_of_versioned_def
      commit_log_entry_new_def counter_insert_def counter_get_def table_simps)

lemma insert_after:
  "sorted_wrt (<) (map ve_commit_sequence (es @ [v])) \<Longrightarrow>
   tbl_insert (ve_commit_sequence v) x (map (\<lambda>v. (ve_commit_sequence v, g v)) es) =
     map (\<lambda>v. (ve_commit_sequence v, g v)) es @ [(ve_commit_sequence v, x)]"
  by (rule tbl_insert_last) (auto simp: sorted_wrt_append)

lemma import_entries:
  assumes "sorted_wrt (<) (map ve_commit_sequence es)" and "st_versioned_log s = []" and "st_commit_log s = []"
  shows "entries_imported es s (fold (import_entry mirror) (enumerate 0 es) s)"
  using assms(1)
proof (induction es rule: rev_induct)
  case Nil
  with assms show ?case by (simp add: entries_imported_def)
next
  case (snoc v es)
  let ?t = "fold (import_entry mirror) (enumerate 0 es) s"
  have t: "entries_imported es s ?t" using snoc by (simp add: sorted_wrt_append)
  have "fold (import_entry mirror) (enumerate 0 (es @ [v])) s = import_entry mirror (length es, v) ?t"
    by (simp add: enumerate_append_eq)
  moreover have "entries_imported (es @ [v]) s (import_entry mirror (length es, v) ?t)"
    using t assms(2,3) by (auto simp: entries_imported_def import_entry_parts insert_after [OF snoc.prems])
  ultimately show ?case by simp
qed

section \<open>The checkpoint\<close>

lemma loaded_segments:
  "mapR (load_segment d) refs = Inr segs \<Longrightarrow> map (segment_digest p) segs = map ref_digest refs \<Longrightarrow>
   seg \<in> set segs \<Longrightarrow> tbl_get (st_segments d) (segment_digest p seg) = Some seg"
  by (induction refs arbitrary: segs) (auto simp: bindR_eq_Inr load_segment_def ok_or_eq_Inr)

lemma load_segments:
  "(\<And>seg. seg \<in> set segs \<Longrightarrow> tbl_get (st_segments t) (segment_digest p seg) = Some seg) \<Longrightarrow>
   map (segment_digest p) segs = map ref_digest refs \<Longrightarrow> mapR (load_segment t) refs = Inr segs"
proof (induction refs arbitrary: segs)
  case (Cons r refs)
  then obtain seg rest where "segs = seg # rest" by (cases segs) auto
  moreover from this Cons.prems(2) have "ref_digest r = segment_digest p seg" by simp
  ultimately have "load_segment t r = Inr seg" using Cons.prems(1) by (simp add: load_segment_def)
  moreover have "mapR (load_segment t) refs = Inr rest"
    using Cons.prems \<open>segs = seg # rest\<close> by (intro Cons.IH) auto
  ultimately show ?case by (simp add: \<open>segs = seg # rest\<close>)
qed simp

lemma publish_loaded:
  assumes "latest_checkpoint env d = Inr (Some c)"
  shows "latest_checkpoint env (publish_checkpoint env (ck_metadata c) (ck_segments c) s) = Inr (Some c)"
proof -
  from assms obtain sq where load: "mapR (load_segment d) (cm_segments (ck_metadata c)) = Inr (ck_segments c)"
    and ver: "verify env c = Inr ()" by (rule latest_checkpoint_Some)
  have digests: "map (segment_digest env) (ck_segments c) = map ref_digest (cm_segments (ck_metadata c))"
    using ver by (simp add: verify_Inr)
  note found = loaded_segments [OF load digests]
  have "inj_on (segment_digest env) (set (ck_segments c))"
    by (rule inj_onI) (metis found option.inject)
  then have "mapR (load_segment (publish_checkpoint env (ck_metadata c) (ck_segments c) s))
      (cm_segments (ck_metadata c)) = Inr (ck_segments c)"
    using digests by (intro load_segments [where p = env]) (auto simp: publish_checkpoint_def get_insert_content)
  with ver show ?thesis by (cases c) (simp add: latest_checkpoint_def table_simps Let_def)
qed

section \<open>The store before its rows\<close>

definition import_base ::
  "'r engine_env \<Rightarrow> bool \<Rightarrow> checkpoint \<Rightarrow> versioned_entry list \<Rightarrow> commit_sequence \<Rightarrow> snapshot_identifier
   \<Rightarrow> 'r store \<Rightarrow> 'r store" where
  "import_base env mirror c suffix sq snap s =
     (let inventory = cm_family_inventory (ck_metadata c) in
      counter_insert latest_snapshot_key snap (counter_insert latest_commit_sequence_key sq
        (fold (import_entry mirror) (enumerate 0 suffix)
          (publish_checkpoint env (ck_metadata c) (ck_segments c)
            (fold (\<lambda>ctr. identified_counter_insert (ic_counter_key ctr) (ic_next_identifier ctr))
              (fi_identified_counters inventory)
              (fold (\<lambda>f. catalog_row_insert (family_table_name f) (registration_new f))
                (fi_families inventory) s))))))"

lemma land_import_base:
  "land_import env dir mirror c suffix m sq snap s =
     materialize_rows_in env dir (materialize_iter m) (import_base env mirror c suffix sq snap s)"
  by (simp add: land_import_def import_base_def Let_def)

text \<open>The identifier counters an inventory restores; a later counter of one key wins.\<close>

definition inventory_counters :: "family_inventory \<Rightarrow> (string, u64) tbl" where
  "inventory_counters inventory =
     fold (\<lambda>ctr. tbl_insert (ic_counter_key ctr) (ic_next_identifier ctr)) (fi_identified_counters inventory) []"

lemma catalog_rows_parts:
  "let t = fold (\<lambda>f. catalog_row_insert (g f) (h f)) fs s in same_history s t
     \<and> st_identified_counters t = st_identified_counters s
     \<and> st_rows t = st_rows s \<and> st_identified_rows t = st_identified_rows s"
  by (induction fs arbitrary: s) (auto simp: Let_def catalog_row_insert_def same_history_def)

lemma counter_rows_parts:
  "let t = fold (\<lambda>f. identified_counter_insert (g f) (h f)) fs s in same_history s t
     \<and> st_identified_counters t = fold (\<lambda>f. tbl_insert (g f) (h f)) fs (st_identified_counters s)
     \<and> st_rows t = st_rows s \<and> st_identified_rows t = st_identified_rows s"
  by (induction fs arbitrary: s) (auto simp: Let_def identified_counter_insert_def same_history_def)

lemma import_base_parts:
  assumes fresh: "st_versioned_log s = []" "st_commit_log s = []"
    and sorted: "sorted_wrt (<) (map ve_commit_sequence suffix)"
    and latest: "latest_checkpoint env d = Inr (Some c)"
    and t_is: "t = import_base env mirror c suffix sq snap s"
  shows "st_versioned_log t = map (\<lambda>v. (ve_commit_sequence v, v)) suffix"
    and "st_commit_log t = map (\<lambda>v. (ve_commit_sequence v, entry_of_versioned v)) suffix"
    and "st_chain_head t = (if suffix = [] then st_chain_head s else Some (ve_entry_digest (last suffix)))"
    and "committed_commit_sequence t = sq"
    and "suffix \<noteq> [] \<Longrightarrow> log_counts t = \<lparr>lc_commits = of_nat (length suffix), lc_versioned = of_nat (length suffix)\<rparr>"
    and "latest_checkpoint env t = Inr (Some c)"
    and "st_checkpoints t = tbl_insert (cm_sequence (ck_metadata c)) (ck_metadata c) (st_checkpoints s)"
    and "st_staging_slot t = st_staging_slot s" and "st_rows t = st_rows s"
    and "st_identified_rows t = st_identified_rows s"
    and "st_identified_counters s = [] \<Longrightarrow>
      st_identified_counters t = inventory_counters (cm_family_inventory (ck_metadata c))"
proof -
  let ?inv = "cm_family_inventory (ck_metadata c)"
  define s1 where "s1 = fold (\<lambda>f. catalog_row_insert (family_table_name f) (registration_new f)) (fi_families ?inv) s"
  define s2 where "s2 = fold (\<lambda>ctr. identified_counter_insert (ic_counter_key ctr) (ic_next_identifier ctr))
    (fi_identified_counters ?inv) s1"
  define s3 where "s3 = publish_checkpoint env (ck_metadata c) (ck_segments c) s2"
  define s4 where "s4 = fold (import_entry mirror) (enumerate 0 suffix) s3"
  have t: "t = counter_insert latest_snapshot_key snap (counter_insert latest_commit_sequence_key sq s4)"
    by (simp add: t_is import_base_def Let_def s1_def s2_def s3_def s4_def)
  have s1: "same_history s s1" "st_identified_counters s1 = st_identified_counters s"
    "st_rows s1 = st_rows s" "st_identified_rows s1 = st_identified_rows s"
    using catalog_rows_parts [of family_table_name registration_new "fi_families ?inv" s] by (simp_all add: s1_def Let_def)
  have s2: "same_history s1 s2" "st_identified_counters s2 =
      fold (\<lambda>ctr. tbl_insert (ic_counter_key ctr) (ic_next_identifier ctr)) (fi_identified_counters ?inv) (st_identified_counters s1)"
    "st_rows s2 = st_rows s1" "st_identified_rows s2 = st_identified_rows s1"
    using counter_rows_parts [of ic_counter_key ic_next_identifier "fi_identified_counters ?inv" s1]
    by (simp_all add: s2_def Let_def)
  have history: "same_history s s2" using s1(1) s2(1) by (rule same_history_trans)
  have "st_versioned_log s3 = []" "st_commit_log s3 = []"
    using fresh history by (simp_all add: s3_def same_history_def)
  from import_entries [OF sorted this, of mirror] have s4: "entries_imported suffix s3 s4" by (simp add: s4_def)
  have st4: "st_versioned_log s3 = []" "st_commit_log s3 = []" "st_chain_head s3 = st_chain_head s"
    "st_checkpoints s3 = tbl_insert (cm_sequence (ck_metadata c)) (ck_metadata c) (st_checkpoints s)"
    "st_staging_slot s3 = st_staging_slot s" "st_rows s3 = st_rows s" "st_identified_rows s3 = st_identified_rows s"
    "st_identified_counters s3 = st_identified_counters s2"
    using fresh history s1 s2 by (simp_all add: s3_def same_history_def publish_checkpoint_def)
  show "st_versioned_log t = map (\<lambda>v. (ve_commit_sequence v, v)) suffix"
    "st_commit_log t = map (\<lambda>v. (ve_commit_sequence v, entry_of_versioned v)) suffix"
    "st_chain_head t = (if suffix = [] then st_chain_head s else Some (ve_entry_digest (last suffix)))"
    "st_checkpoints t = tbl_insert (cm_sequence (ck_metadata c)) (ck_metadata c) (st_checkpoints s)"
    "st_staging_slot t = st_staging_slot s" "st_rows t = st_rows s" "st_identified_rows t = st_identified_rows s"
    using s4 st4 by (simp_all add: t entries_imported_def)
  show "committed_commit_sequence t = sq" by (simp add: t committed_commit_sequence_def)
  show "log_counts t = \<lparr>lc_commits = of_nat (length suffix), lc_versioned = of_nat (length suffix)\<rparr>" if "suffix \<noteq> []"
    using s4 that by (simp add: t log_counts_def entries_imported_def)
  show "st_identified_counters t = inventory_counters ?inv" if "st_identified_counters s = []"
    using s4 st4 s1 s2 that by (simp add: t entries_imported_def inventory_counters_def)
  have "latest_checkpoint env t = latest_checkpoint env s3"
    using s4 by (intro latest_checkpoint_cong) (simp_all add: t entries_imported_def)
  then show "latest_checkpoint env t = Inr (Some c)" using publish_loaded [OF latest] by (simp add: s3_def)
qed

section \<open>The imported history\<close>

text \<open>What a store exports: its latest checkpoint and the log after it, with room left for another commit, and
  an inventory that names the checkpoint's schema.\<close>

definition exports :: "'r engine_env \<Rightarrow> 'r store \<Rightarrow> checkpoint \<Rightarrow> versioned_entry list \<Rightarrow> bool" where
  "exports env d c suffix \<longleftrightarrow> history_ok env d \<and> committed_commit_sequence d \<noteq> - 1
     \<and> latest_checkpoint env d = Inr (Some c) \<and> suffix = log_suffix d (Some c)
     \<and> store_schema_of_families env (fi_families (cm_family_inventory (ck_metadata c))) =
         cm_store_schema_hash (ck_metadata c)"

lemma log_suffix_sorted:
  assumes "history_ok env d"
  shows "sorted_wrt (<) (map ve_commit_sequence (log_suffix d c))"
proof -
  have log: "log_indexed ve_commit_sequence (committed_commit_sequence d) (lc_versioned (log_counts d)) (st_versioned_log d)"
    using assms by (simp add: history_ok_def logs_ok_def)
  have "map (ve_commit_sequence \<circ> snd) (st_versioned_log d) = map fst (st_versioned_log d)"
    using log by (auto simp: log_indexed_def)
  moreover have "sorted_wrt (<) (map fst (st_versioned_log d))" using log by (simp add: log_indexed_def tbl_ok_def)
  ultimately have "sorted_wrt (<) (map ve_commit_sequence (versioned_entries d))"
    by (simp only: versioned_entries_def tbl_iter_def map_map)
  then show ?thesis
    using assms by (simp add: history_ok_def log_suffix_entries sorted_wrt_map sorted_wrt_filter)
qed

lemma import_history:
  assumes export: "exports env d c suffix"
    and s: "st_versioned_log s = []" "st_commit_log s = []" "st_chain_head s = None" "st_checkpoints s = []"
    and sq: "sq = (case last_entry suffix of Some v \<Rightarrow> ve_commit_sequence v
        | None \<Rightarrow> csr_last (cm_covered (ck_metadata c)))"
    and t_is: "t = import_base env mirror c suffix sq snap s"
  shows "log_suffix t (Some c) = suffix" and "logged_rows env t = logged_rows env d"
    and "versioned_entries t = suffix" and "history_ok env t \<longleftrightarrow> suffix \<noteq> []"
proof -
  have ok: "history_ok env d" and room: "committed_commit_sequence d \<noteq> - 1"
    and latest: "latest_checkpoint env d = Inr (Some c)" and suffix: "suffix = log_suffix d (Some c)"
    using export by (simp_all add: exports_def)
  have sorted: "sorted_wrt (<) (map ve_commit_sequence suffix)" unfolding suffix by (rule log_suffix_sorted [OF ok])
  note parts = import_base_parts [OF s(1,2) sorted latest t_is]
  have after: "commit_sequence_next (resume_after (Some c)) \<le> ve_commit_sequence v" if "v \<in> set suffix" for v
    using that ok by (simp add: suffix history_ok_def log_suffix_entries)
  then show log: "log_suffix t (Some c) = suffix"
    by (auto simp: log_suffix_def versioned_entries_from_def parts(1) tbl_from_def filter_id_conv comp_def)
  show "versioned_entries t = suffix" by (simp add: versioned_entries_def parts(1) tbl_iter_def comp_def)
  show "logged_rows env t = logged_rows env d" by (simp add: logged_rows_def latest parts(6) log suffix)
  from ok latest have rec: "resume_after (Some c) \<le> committed_commit_sequence d"
      "chain_verified env (resume_head (Some c)) suffix" "list_all op_applicable (all_operations suffix)"
    by (auto simp: history_ok_def recoverable_def suffix)
  show "history_ok env t \<longleftrightarrow> suffix \<noteq> []"
  proof (cases "suffix = []")
    case True
    then have "\<not> recoverable env t"
      using log s(3) by (simp add: recoverable_def parts(3,6) chain_head_def chain_end_def resume_head_def resume_point_def)
    with True show ?thesis by (simp add: history_ok_def)
  next
    case False
    have lst: "sq = ve_commit_sequence (last suffix)" using False by (simp add: sq last_entry_def)
    have top: "ve_commit_sequence v \<le> sq" if "v \<in> set suffix" for v
      using sorted_wrt_last [of "\<lambda>a b. ve_commit_sequence a < ve_commit_sequence b" suffix v] sorted that False
      by (auto simp: lst sorted_wrt_map)
    have "resume_after (Some c) \<noteq> - 1" using rec(1) room word_below_top by blast
    then have "resume_after (Some c) < commit_sequence_next (resume_after (Some c))"
      by (simp add: commit_sequence_next_def word_below_next)
    also have "\<dots> \<le> sq" using after False by (simp add: lst)
    finally have "recoverable env t"
      using False rec log
      by (auto simp: recoverable_def parts(3,4,6) chain_head_def chain_end_def intro!: exI [of _ "Some c"])
    moreover have "logs_ok t"
      using sorted top False by (auto simp: logs_ok_def parts log_indexed_def tbl_ok_def comp_def entry_of_versioned_def
          commit_log_entry_new_def)
    moreover have "checkpoints_keyed t" by (simp add: checkpoints_keyed_def parts(7) s(4) tbl_ok_def)
    moreover have "logs_agree t" by (simp add: logs_agree_def parts(1,2))
    ultimately show ?thesis using False by (simp add: history_ok_def)
  qed
qed

lemma catalog_insert_all_new:
  "distinct (map registration_table_name (eng_catalog e @ rs)) \<Longrightarrow>
   catalog_insert_all rs e = (Inr (), e\<lparr>eng_catalog := eng_catalog e @ rs\<rparr>)"
proof (induction rs arbitrary: e)
  case (Cons r rs)
  then have "registration_for_table (eng_catalog e) (registration_table_name r) = None"
    by (auto simp: registration_for_table_None)
  with Cons show ?case by (simp add: catalog_insert_def)
qed simp

section \<open>Importing\<close>

lemma fresh_importable:
  fixes e :: "'r engine"
  assumes "fresh_engine (Some policy) e"
  shows "begin_import e = Inr import_session_new" and "ensure_fresh_for_import e = Inr ()"
    and "st_versioned_log (eng_storage e) = []" and "st_commit_log (eng_storage e) = []"
    and "st_chain_head (eng_storage e) = None" and "st_checkpoints (eng_storage e) = []"
    and "st_staging_slot (eng_storage e) = None" and "st_identified_counters (eng_storage e) = []"
    and "typed_row (eng_storage e) table key = None" and "eng_policy e = Some policy"
    and "eng_catalog e = []" and "eng_staging e = None"
proof -
  have "counter_get (eng_storage e) k = counter_get (counter_insert storage_layout_key storage_layout (store_empty :: 'r store)) k" for k
    using assms by (intro counter_get_cong) (simp add: fresh_engine_def)
  with assms show fresh: "ensure_fresh_for_import e = Inr ()"
    by (simp add: ensure_fresh_for_import_def fresh_engine_def logs_empty_def tbl_iter_def Let_def)
      (simp add: store_empty_def counter_get_def)
  with assms show "begin_import e = Inr import_session_new" by (simp add: begin_import_def fresh_engine_def)
qed (use assms in \<open>simp_all add: fresh_engine_def typed_row_def store_empty_def split: record_key.split\<close>)

lemma import_runs:
  assumes export: "exports env d c suffix" and fresh: "fresh_engine (Some policy) e"
    and store: "cm_store_name (ck_metadata c) = policy_store_name policy"
    and tables: "distinct (map family_table_name fams)" and fams: "fams = fi_families (cm_family_inventory (ck_metadata c))"
    and base: "\<And>sq snap. sq = (case last_entry suffix of Some v \<Rightarrow> ve_commit_sequence v
        | None \<Rightarrow> csr_last (cm_covered (ck_metadata c))) \<Longrightarrow>
      \<exists>t. materialize_rows_in env dir (materialize_iter m)
        (import_base env (policy_recovery_topology policy = Mirror) c suffix sq snap (eng_storage e)) = Inr t \<and> Q t"
    and view: "canonical_fold env (checkpoint_rows c) suffix (Some (cm_covered_entry_digest (ck_metadata c))) = Inr view"
    and m: "into_rows view fams = Inr m"
    and no_fault: "\<forall>s. env_commit_fault env s = None"
  shows "\<exists>t receipt. apply_import env c suffix dir e =
      (Inr receipt, e\<lparr>eng_storage := t, eng_catalog := map registration_new fams\<rparr>) \<and> Q t"
proof -
  note f = fresh_importable [OF fresh]
  obtain sq snap where pair: "(case last_entry suffix of
      Some entry \<Rightarrow> (ve_commit_sequence entry, ve_snapshot entry)
    | None \<Rightarrow> (csr_last (cm_covered (ck_metadata c)), cm_covered_snapshot (ck_metadata c))) = (sq, snap)"
    by fastforce
  then have "sq = (case last_entry suffix of Some v \<Rightarrow> ve_commit_sequence v
      | None \<Rightarrow> csr_last (cm_covered (ck_metadata c)))" by (auto split: option.splits)
  from base [OF this] obtain t where t: "materialize_rows_in env dir (materialize_iter m)
        (import_base env (policy_recovery_topology policy = Mirror) c suffix sq snap (eng_storage e)) = Inr t" "Q t" by blast
  have insert: "catalog_insert_all (map registration_new fams) (e\<lparr>eng_storage := t\<rparr>) =
      (Inr (), e\<lparr>eng_storage := t, eng_catalog := map registration_new fams\<rparr>)"
    using catalog_insert_all_new [of "e\<lparr>eng_storage := t\<rparr>" "map registration_new fams"] tables f(11)
    by (simp add: comp_def registration_table_name_def registration_new_def)
  have landed: "engine_write env (\<lambda>s. bindR (lift_storage (land_import env dir (policy_recovery_topology policy = Mirror)
      c suffix m sq snap s)) (\<lambda>s'. Inr ((), s'))) e = (Inr (), e\<lparr>eng_storage := t\<rparr>)"
    by (simp add: engine_write_def store_write_def land_import_base t(1) lift_storage_def no_fault)
  have "store_schema_of_families env fams = cm_store_schema_hash (ck_metadata c)"
    using export by (simp add: exports_def fams)
  then show ?thesis
    using store t(2) by (intro exI [of _ t] exI) (simp add: apply_import_def Let_def f view m fams [symmetric] pair landed insert)
qed

lemma same_log_reads:
  assumes "latest_checkpoint env t = latest_checkpoint env s"
    and "\<And>c. latest_checkpoint env s = Inr c \<Longrightarrow> log_suffix t c = log_suffix s c"
  shows "logged_rows env t = logged_rows env s" and "log_names_only env t fams = log_names_only env s fams"
    and "log_touches env t key = log_touches env s key" and "log_decodes env fams t = log_decodes env fams s"
proof -
  show content: "logged_rows env t = logged_rows env s"
    using assms by (simp add: logged_rows_def split: sum.split)
  show "log_names_only env t fams = log_names_only env s fams"
    using assms by (auto simp: log_names_only_def)
  show "log_touches env t key = log_touches env s key"
    using assms by (auto simp: log_touches_def log_view_def)
  show "log_decodes env fams t = log_decodes env fams s" by (simp add: log_decodes_def content)
qed

text \<open>The call runs, and leaves the base of the import with the rows of the fold in its tables.\<close>

lemma import_lands:
  assumes export: "exports env d c suffix" and fresh: "fresh_engine (Some policy) e"
    and store: "cm_store_name (ck_metadata c) = policy_store_name policy"
    and fams: "fams = fi_families (cm_family_inventory (ck_metadata c))" and apart: "families_apart fams"
    and names: "log_names_only env d fams" and decodes: "log_decodes env fams d"
    and dir: "\<forall>f \<in> set fams. \<forall>key. log_touches env d (view_key_new f key) \<longrightarrow>
      dir_materialize dir f key = own_table f key"
    and no_fault: "\<forall>s. env_commit_fault env s = None"
  obtains t receipt mirror sq snap where "apply_import env c suffix dir e =
      (Inr receipt, e\<lparr>eng_storage := t, eng_catalog := map registration_new fams\<rparr>)"
    and "same_planes (import_base env mirror c suffix sq snap (eng_storage e)) t"
    and "sq = (case last_entry suffix of Some v \<Rightarrow> ve_commit_sequence v
        | None \<Rightarrow> csr_last (cm_covered (ck_metadata c)))"
    and "rows_follow env fams t (logged_rows env d)"
proof -
  have ok: "history_ok env d" and latest: "latest_checkpoint env d = Inr (Some c)"
    and suffix: "suffix = log_suffix d (Some c)" using export by (simp_all add: exports_def)
  note f = fresh_importable [OF fresh]
  from ok latest obtain view where view: "canonical_fold env (fst (resume_point (Some c))) suffix (resume_head (Some c)) = Inr view"
    unfolding suffix by (metis history_ok_def recoverable_folds sum.inject(2))
  obtain m where m: "into_rows view fams = Inr m" using into_rows_ok [OF canonical_fold_ok [OF view]] by blast
  define Q where "Q t \<longleftrightarrow> (\<exists>mirror sq snap. same_planes (import_base env mirror c suffix sq snap (eng_storage e)) t
      \<and> sq = (case last_entry suffix of Some v \<Rightarrow> ve_commit_sequence v
        | None \<Rightarrow> csr_last (cm_covered (ck_metadata c)))) \<and> rows_follow env fams t (logged_rows env d)" for t :: "'a store"
  have base: "\<exists>t. materialize_rows_in env dir (materialize_iter m)
        (import_base env mirror c suffix sq snap (eng_storage e)) = Inr t \<and> Q t"
    if sq: "sq = (case last_entry suffix of Some v \<Rightarrow> ve_commit_sequence v
        | None \<Rightarrow> csr_last (cm_covered (ck_metadata c)))" for mirror sq snap
  proof -
    let ?s = "import_base env mirror c suffix sq snap (eng_storage e)"
    note parts = import_base_parts [OF f(3,4) log_suffix_sorted [OF ok, of "Some c", folded suffix] latest refl, of mirror sq snap]
    have log: "log_suffix ?s (Some c) = suffix" by (rule import_history [OF export f(3-6) sq refl])
    have same: "latest_checkpoint env ?s = latest_checkpoint env d" using parts(6) latest by simp
    have "log_suffix ?s c' = log_suffix d c'" if "latest_checkpoint env d = Inr c'" for c'
      using that latest log suffix by simp
    note reads = same_log_reads [OF same this]
    have stale: "typed_row ?s table key = None" for table key
      using f(9) [of table key] parts(9,10) by (cases key) (simp_all add: typed_row_def)
    from view log have view': "canonical_fold env (fst (resume_point (Some c))) (log_suffix ?s (Some c))
        (resume_head (Some c)) = Inr view" by simp
    have "\<exists>t. materialize_rows_in env dir (materialize_iter m) ?s = Inr t \<and> same_history ?s t
        \<and> rows_follow env fams t (logged_rows env ?s)"
      using names decodes dir
      by (intro rebuild_follows [OF parts(6) view' m apart]) (simp_all add: reads stale)
    then obtain t where t: "materialize_rows_in env dir (materialize_iter m) ?s = Inr t"
      and follow: "rows_follow env fams t (logged_rows env ?s)" by blast
    have "Q t" unfolding Q_def using materialize_rows_planes [OF t] sq follow reads(1) by auto
    with t show ?thesis by blast
  qed
  have fold: "canonical_fold env (checkpoint_rows c) suffix (Some (cm_covered_entry_digest (ck_metadata c))) = Inr view"
    using view by (simp add: resume_head_def resume_point_def)
  have tables: "distinct (map family_table_name fams)" using apart by (simp add: families_apart_def)
  from import_runs [OF export fresh store tables fams base fold m no_fault] obtain t receipt where
    run: "apply_import env c suffix dir e =
      (Inr receipt, e\<lparr>eng_storage := t, eng_catalog := map registration_new fams\<rparr>)" and "Q t" by blast
  then obtain mirror sq snap where "same_planes (import_base env mirror c suffix sq snap (eng_storage e)) t"
    "sq = (case last_entry suffix of Some v \<Rightarrow> ve_commit_sequence v
      | None \<Rightarrow> csr_last (cm_covered (ck_metadata c)))" "rows_follow env fams t (logged_rows env d)"
    unfolding Q_def by blast
  with run show thesis by (rule that)
qed

text \<open>C39 An import restores what was exported: into a fresh store of the same name, from the latest checkpoint
  and the log after it of a store whose log names the inventory's families only and decodes, and with a
  directory that applies every row to its family's table, the import succeeds, and the imported store has the
  same checkpoint, exactly the suffix as its log, the same content, tables that are the decoded content, and the
  identifier counters of the inventory (identifiers the suffix allocated are not counted).  The result is an
  engine that can go on committing exactly when the suffix is not empty: after an import without a suffix
  the cached chain head is missing.\<close>

theorem import_restores:
  assumes export: "exports env d c suffix" and fresh: "fresh_engine (Some policy) e"
    and store: "cm_store_name (ck_metadata c) = policy_store_name policy"
    and fams: "fams = fi_families (cm_family_inventory (ck_metadata c))" and apart: "families_apart fams"
    and names: "log_names_only env d fams" and decodes: "log_decodes env fams d"
    and dir: "\<forall>f \<in> set fams. \<forall>key. log_touches env d (view_key_new f key) \<longrightarrow>
      dir_materialize dir f key = own_table f key"
    and no_fault: "\<forall>s. env_commit_fault env s = None"
  shows "\<exists>session receipt e'. begin_import e = Inr import_session_new
    \<and> ingest_checkpoint env c import_session_new = (Inr (), session)
    \<and> import_commit env (ingest_suffix suffix session) dir e = (Inr receipt, e')
    \<and> latest_checkpoint env (eng_storage e') = Inr (Some c) \<and> versioned_entries (eng_storage e') = suffix
    \<and> logged_rows env (eng_storage e') = logged_rows env d \<and> engine_follows env e'
    \<and> st_identified_counters (eng_storage e') = inventory_counters (cm_family_inventory (ck_metadata c))
    \<and> (engine_ok env e' \<longleftrightarrow> suffix \<noteq> [])"
proof -
  have ok: "history_ok env d" and latest: "latest_checkpoint env d = Inr (Some c)"
    and suffix: "suffix = log_suffix d (Some c)" using export by (simp_all add: exports_def)
  note f = fresh_importable [OF fresh]
  obtain t receipt mirror sq snap where
    run: "apply_import env c suffix dir e =
      (Inr receipt, e\<lparr>eng_storage := t, eng_catalog := map registration_new fams\<rparr>)"
    and planes: "same_planes (import_base env mirror c suffix sq snap (eng_storage e)) t"
    and sq: "sq = (case last_entry suffix of Some v \<Rightarrow> ve_commit_sequence v
        | None \<Rightarrow> csr_last (cm_covered (ck_metadata c)))"
    and follow: "rows_follow env fams t (logged_rows env d)"
    by (rule import_lands [OF export fresh store fams apart names decodes dir no_fault])
  note base = import_history [OF export f(3-6) sq refl, of mirror snap]
  note parts = import_base_parts [OF f(3,4) log_suffix_sorted [OF ok, of "Some c", folded suffix] latest refl, of mirror sq snap]
  note reads = same_history_reads [OF same_planes_history [OF planes]]
  note invariants = same_history_invariants [OF same_planes_history [OF planes]]
  let ?e = "e\<lparr>eng_storage := t, eng_catalog := map registration_new fams\<rparr>"
  have content: "logged_rows env t = logged_rows env d" using same_log_reads(1) [OF reads(7,6)] base(2) by simp
  have "family_inventory (map registration_new fams) = fams" by (simp add: family_inventory_def registration_new_def comp_def)
  then have "engine_follows env ?e" using follow by (simp add: engine_follows_def content)
  moreover have "engine_ok env ?e \<longleftrightarrow> suffix \<noteq> []"
  proof -
    have "staging_slot t = None" using f(7) parts(8) by (simp add: staging_slot_def same_planes_sel [OF planes])
    moreover have "history_ok env t \<longleftrightarrow> suffix \<noteq> []" using base(4) invariants(3) by simp
    moreover have "history_ok env t \<Longrightarrow> logs_ok t" by (simp add: history_ok_def)
    ultimately show ?thesis using f(10,12) by (auto simp: engine_ok_def)
  qed
  moreover have "ingest_checkpoint env c import_session_new = (Inr (), \<lparr>isn_checkpoint = Some c, isn_suffix = []\<rparr>)"
  proof -
    from latest have "verify env c = Inr ()" by (rule latest_checkpoint_Some)
    then show ?thesis by (simp add: ingest_checkpoint_def import_session_new_def)
  qed
  moreover have "import_commit env (ingest_suffix suffix \<lparr>isn_checkpoint = Some c, isn_suffix = []\<rparr>) dir e = (Inr receipt, ?e)"
    using run by (simp add: import_commit_def ingest_suffix_def)
  moreover have "latest_checkpoint env t = Inr (Some c)" using parts(6) by (simp only: reads(7))
  moreover have "versioned_entries t = suffix" using base(3) by (simp only: reads(9))
  moreover have "st_identified_counters t = inventory_counters (cm_family_inventory (ck_metadata c))"
    using parts(11) [OF f(8)] by (simp only: same_planes_sel(11) [OF planes])
  ultimately show ?thesis
    using f(1) content by (intro exI [of _ "\<lparr>isn_checkpoint = Some c, isn_suffix = []\<rparr>"] exI [of _ receipt] exI [of _ ?e]) simp
qed

text \<open>A fresh checkpoint is an export with no suffix.\<close>

lemma checkpoint_plan_metadata:
  "checkpoint_plan env e policy previous = Inr (m, segs, n) \<Longrightarrow>
   fi_families (cm_family_inventory m) = family_inventory (eng_catalog e)
   \<and> cm_store_name m = policy_store_name policy \<and> cm_store_schema_hash m = store_schema_hash env e"
  by (auto simp: checkpoint_plan_def Let_def bindR_eq_Inr checkpoint_metadata_new_def split: list.splits prod.splits)

lemma checkpoint_exports:
  assumes ok: "history_ok env (eng_storage e)" and prev: "latest_checkpoint env (eng_storage e) = Inr previous"
    and plan: "checkpoint_plan env e policy previous = Inr (m, segs, n)"
    and addr: "addressable env segs" and room: "committed_commit_sequence (eng_storage e) \<noteq> - 1"
  shows "exports env (publish_checkpoint env m segs (eng_storage e)) \<lparr>ck_metadata = m, ck_segments = segs\<rparr> []"
  using publish_keeps_history [OF assms] checkpoint_plan_metadata [OF plan] room
  by (simp add: exports_def store_schema_of_inventory store_schema_hash_def)

lemma sample_planned:
  obtains m segs n where "checkpoint_plan sample_env sample_logged sample_policy None = Inr (m, segs, n)"
    and "addressable sample_env segs"
proof -
  have ne: "log_suffix (eng_storage sample_logged) None \<noteq> []"
    by (rule sample_logged_entries) (simp add: log_suffix_def resume_after_def resume_point_def commit_sequence_genesis_def)
  have "history_ok sample_env (eng_storage sample_logged)" using sample_logged_ok by (simp add: engine_ok_def)
  from checkpoint_plan_total [OF _ this ne] obtain m segs n where
    plan: "checkpoint_plan sample_env sample_logged sample_policy None = Inr (m, segs, n)" by fastforce
  with sample_logged_addressable have "addressable sample_env segs" by (auto simp: segments_addressable_def)
  with plan show thesis by (rule that)
qed

lemma sample_logged_content:
  "logged_rows sample_env (eng_storage sample_logged) =
    (\<lambda>key. if key = view_key_new sample_family (Domain ''a'') then Some [5] else None)"
  using sample_lost_content same_history_reads(6,7) [OF sample_lost_history]
    same_log_reads(1) [of sample_env "eng_storage sample_lost" "eng_storage sample_logged"] by simp

lemma sample_rows_names:
  assumes plan: "checkpoint_plan sample_env sample_logged sample_policy None = Inr (m, segs, n)"
  shows "\<forall>r \<in> set (concat (map seg_rows segs)). vr_family r = sample_family"
proof -
  from checkpoint_plan_Inr(7) [OF plan] obtain view mr where
    view: "canonical_fold sample_env [] (log_suffix (eng_storage sample_logged) None) None = Inr view"
    and mr: "into_rows view (family_inventory (eng_catalog sample_logged)) = Inr mr" "segs = chunk (mr_rows mr)"
    by (auto simp: resume_point_def resume_head_def)
  have "\<forall>oper \<in> set (all_operations (log_suffix (eng_storage sample_logged) None)). vop_family oper \<in> {sample_family}"
    by (rule sample_logged_entries) (simp add: log_suffix_def resume_after_def resume_point_def commit_sequence_genesis_def
        all_operations_def sample_versioned_operation_def sample_operation_def)
  from fold_identities [OF view _ this] have ids: "\<forall>i g. tbl_get (cv_identities view) i = Some g \<longrightarrow> g \<in> set [sample_family]"
    by simp
  have content: "tbl_get (cv_rows view) = logged_rows sample_env (eng_storage sample_logged)"
    using view by (intro logged_rows_folded [where c = None]) (simp_all add: resume_point_def resume_head_def)
  have "list_all (row_applies sample_env sample_directory [sample_family]) (materialize_iter mr)"
    by (rule rebuild_rows(1) [OF canonical_fold_ok [OF view] mr(1) ids])
      (auto simp: sample_directory_def content sample_logged_content sample_env_decodes split: if_splits)
  then show ?thesis by (auto simp: mr(2) materialize_iter_def list_all_iff row_applies_def)
qed

lemma import_restores_witness:
  "\<exists>d c session receipt e'. exports sample_env d c []
    \<and> ingest_checkpoint sample_env c import_session_new = (Inr (), session)
    \<and> import_commit sample_env (ingest_suffix [] session) sample_directory sample_fresh = (Inr receipt, e')
    \<and> logged_rows sample_env (eng_storage e') (view_key_new sample_family (Domain ''a'')) = Some [5]
    \<and> engine_follows sample_env e' \<and> \<not> engine_ok sample_env e'"
proof -
  obtain m segs n where plan: "checkpoint_plan sample_env sample_logged sample_policy None = Inr (m, segs, n)"
    and addr: "addressable sample_env segs" by (rule sample_planned)
  let ?c = "\<lparr>ck_metadata = m, ck_segments = segs\<rparr>" and ?d = "publish_checkpoint sample_env m segs (eng_storage sample_logged)"
  have ok: "history_ok sample_env (eng_storage sample_logged)" using sample_logged_ok by (simp add: engine_ok_def)
  have latest: "latest_checkpoint sample_env (eng_storage sample_logged) = Inr None" by simp
  have room: "committed_commit_sequence (eng_storage sample_logged) \<noteq> - 1" by simp
  note export = checkpoint_exports [OF ok latest plan addr room] and kept = publish_keeps_history [OF ok latest plan addr room]
  have content: "logged_rows sample_env ?d = (\<lambda>key. if key = view_key_new sample_family (Domain ''a'') then Some [5] else None)"
    using publish_content [OF ok latest plan addr room] by (simp add: sample_logged_content)
  have fams: "[sample_family] = fi_families (cm_family_inventory (ck_metadata ?c))"
    using checkpoint_plan_metadata [OF plan] by (simp add: family_inventory_def registration_new_def)
  have "\<exists>session receipt e'. begin_import sample_fresh = Inr import_session_new
    \<and> ingest_checkpoint sample_env ?c import_session_new = (Inr (), session)
    \<and> import_commit sample_env (ingest_suffix [] session) sample_directory sample_fresh = (Inr receipt, e')
    \<and> latest_checkpoint sample_env (eng_storage e') = Inr (Some ?c) \<and> versioned_entries (eng_storage e') = []
    \<and> logged_rows sample_env (eng_storage e') = logged_rows sample_env ?d \<and> engine_follows sample_env e'
    \<and> st_identified_counters (eng_storage e') = inventory_counters (cm_family_inventory (ck_metadata ?c))
    \<and> (engine_ok sample_env e' \<longleftrightarrow> ([] :: versioned_entry list) \<noteq> [])"
  proof (rule import_restores [OF export sample_fresh_fresh _ fams])
    show "cm_store_name (ck_metadata ?c) = policy_store_name sample_policy"
      using checkpoint_plan_metadata [OF plan] by simp
    show "families_apart [sample_family]" by (simp add: families_apart_def)
    show "log_names_only sample_env ?d [sample_family]"
      using sample_rows_names [OF plan] kept by (simp add: log_names_only_def resume_point_def checkpoint_rows_def all_operations_def)
    show "log_decodes sample_env [sample_family] ?d" unfolding log_decodes_def content by (simp add: sample_env_decodes)
  qed (simp_all add: sample_directory_def)
  with export content show ?thesis by (metis (no_types, lifting))
qed

end
