(* ===== verification/Retention_Theorems.thy ===== *)
theory Retention_Theorems
  imports System_Theorems
begin

text \<open>
  The bound on the live history: what \<open>compact_configured_versioned_history\<close> (src/engine.rs) leaves of the log
  and what it reports, with the lengths at their machine width.
\<close>

lemma nothing_above:
  fixes t :: "(u64, 'a) tbl"
  assumes "filter (\<lambda>r. covered + 1 \<le> fst r) t = []"
  shows "filter (\<lambda>r. covered < fst r) t = []"
proof -
  have "covered + 1 \<le> k" if "covered < k" for k using that by (rule inc_le)
  with assms show ?thesis by (auto simp: filter_empty_conv)
qed

lemma covering_covers:
  assumes ok: "engine_ok env e" and idle: "eng_staging e = None" and room: "committed_commit_sequence (eng_storage e) \<noteq> - 1"
    and addr: "segments_addressable env e" and run: "covering_checkpoint env e = (Inr c, e1)"
  shows "filter (\<lambda>r. csr_last (cm_covered (ck_metadata c)) < fst r) (st_versioned_log (eng_storage e1)) = []"
proof -
  have logs: "\<forall>r \<in> set (st_versioned_log (eng_storage e)). fst r \<le> committed_commit_sequence (eng_storage e)"
    using ok by (simp add: engine_ok_def logs_ok_def log_indexed_def)
  have current: "current_commit_sequence e = committed_commit_sequence (eng_storage e)"
    using idle by (simp add: current_commit_sequence_def)
  have taken: ?thesis if "bindS (take_checkpoint env e)
      (\<lambda>_ e. bindS (reads (latest_checkpoint env (eng_storage e)) e) (\<lambda>c' e. (Inr (the c'), e))) = (Inr c, e1)"
  proof -
    obtain r2 e2 where take: "take_checkpoint env e = (r2, e2)" by (metis surj_pair)
    with that obtain receipt where r2: "r2 = Inr receipt" by (cases r2) auto
    from take_checkpoint_ok [OF ok room addr take] r2 obtain c2 where c2: "latest_checkpoint env (eng_storage e2) = Inr (Some c2)"
      "log_suffix (eng_storage e2) (Some c2) = []" by blast
    then have "c2 = c" "e2 = e1" using that take r2 by auto
    with c2 show ?thesis
      by (intro nothing_above)
        (simp add: log_suffix_def resume_after_def resume_point_def versioned_entries_from_def tbl_from_def
          commit_sequence_next_def)
  qed
  show ?thesis
  proof (cases "latest_checkpoint env (eng_storage e)")
    case (Inr found)
    with run taken logs show ?thesis
      by (fastforce simp: covering_checkpoint_def Let_def current filter_empty_conv not_less
          split: option.splits if_splits)
  qed (use run in \<open>simp add: covering_checkpoint_def Let_def\<close>)
qed

lemma log_length_word:
  assumes "logs_ok s" and "committed_commit_sequence s \<noteq> - 1"
  shows "length (st_versioned_log s) < 2 ^ 64"
proof -
  let ?t = "st_versioned_log s"
  have t: "distinct (map fst ?t)" "\<forall>r \<in> set ?t. fst r \<le> committed_commit_sequence s"
    using assms(1) by (auto simp: logs_ok_def log_indexed_def dest: tbl_ok_distinct)
  have "- 1 \<notin> set (map fst ?t)"
  proof
    assume "- 1 \<in> set (map fst ?t)"
    then have "- 1 \<le> committed_commit_sequence s" using t(2) by (metis (no_types, lifting) imageE list.set_map)
    with assms(2) show False by (simp add: word_order.extremum_unique)
  qed
  then have "length (- 1 # map fst ?t) = card (set (- 1 # map fst ?t))"
    using t(1) by (subst distinct_card) auto
  also have "\<dots> \<le> card (UNIV :: u64 set)" by (intro card_mono) auto
  finally show ?thesis by (simp add: card_word)
qed

text \<open>What a compaction that had something to prune leaves and reports.\<close>

lemma compact_over:
  assumes ok: "engine_ok env e" and idle: "eng_staging e = None" and room: "committed_commit_sequence (eng_storage e) \<noteq> - 1"
    and addr: "segments_addressable env e"
    and over: "maximum_live_entries retention < (of_nat (length (versioned_entries (eng_storage e))) :: u64)"
    and run: "compact_versioned_history env retention ack e = (Inr receipt, e')"
  shows "versioned_entries (eng_storage e') = [] \<and> hc_retained_entries receipt = 0
    \<and> hc_compacted_entries receipt = of_nat (length (versioned_entries (eng_storage e)))"
proof -
  have over': "\<not> (of_nat (length (versioned_entries (eng_storage e))) :: u64) \<le> maximum_live_entries retention"
    using over by simp
  obtain r1 e1 where cover: "covering_checkpoint env e = (r1, e1)" by (metis surj_pair)
  with run over' obtain c where r1: "r1 = Inr c"
    by (cases r1) (auto simp: compact_versioned_history_def bindS_eq_Inr Let_def)
  let ?covered = "csr_last (cm_covered (ck_metadata c))"
  note one = covering_checkpoint_ok [OF ok room addr cover]
  note above = covering_covers [OF ok idle room addr cover [unfolded r1]]
  have logs: "logs_ok (eng_storage e1)" and room1: "committed_commit_sequence (eng_storage e1) \<noteq> - 1"
    using one room by (auto simp: engine_ok_def history_only_def)
  note sel = prune_history_sel [OF logs room1, of env "ck_metadata c"]
  let ?keys = "keys_through (eng_storage e1) ?covered"
  have keys: "snd ?keys = map fst (st_versioned_log (eng_storage e1))"
    using above by (simp add: keys_through_def tbl_iter_def filter_empty_conv not_less filter_id_conv)
  have zero: "lc_versioned (after_removing (log_counts (eng_storage e1)) n (length (snd ?keys))) = 0" for n
    using logs by (simp add: keys after_removing_def saturating_sub_def logs_ok_def log_indexed_def)
  have "e' = e1\<lparr>eng_storage := prune_history env (ck_metadata c) (eng_storage e1)\<rparr>
      \<and> hc_retained_entries receipt = 0 \<and> hc_compacted_entries receipt = of_nat (length (versioned_entries (eng_storage e)))"
    using run over' cover r1 zero
    by (cases rule: engine_put_cases [of env "prune_history env (ck_metadata c)" e1])
      (auto simp: compact_versioned_history_def bindS_eq_Inr bindS_reads Let_def saturating_sub_def
        split: sum.splits prod.splits)
  with sel above show ?thesis by (simp add: versioned_entries_def tbl_iter_def)
qed

section \<open>Compaction without a mirror always succeeds\<close>

text \<open>There is something to checkpoint, or the latest checkpoint already covers the store.\<close>

definition coverable :: "'r engine_env \<Rightarrow> 'r engine \<Rightarrow> bool" where
  "coverable env e \<longleftrightarrow> (\<exists>c. latest_checkpoint env (eng_storage e) = Inr c
     \<and> (log_suffix (eng_storage e) c \<noteq> []
        \<or> c \<noteq> None \<and> committed_commit_sequence (eng_storage e) \<le> resume_after c))"

lemma covering_total:
  assumes ok: "engine_ok env e" and policy: "eng_policy e = Some policy" and idle: "eng_staging e = None"
    and room: "committed_commit_sequence (eng_storage e) \<noteq> - 1" and addr: "segments_addressable env e"
    and cover: "coverable env e" and no_fault: "\<forall>s. env_commit_fault env s = None"
  shows "\<exists>c e1. covering_checkpoint env e = (Inr c, e1)"
proof -
  obtain found where found: "latest_checkpoint env (eng_storage e) = Inr found"
    "log_suffix (eng_storage e) found \<noteq> []
     \<or> found \<noteq> None \<and> committed_commit_sequence (eng_storage e) \<le> resume_after found"
    using cover by (auto simp: coverable_def)
  have current: "current_commit_sequence e = committed_commit_sequence (eng_storage e)"
    using idle by (simp add: current_commit_sequence_def)
  show ?thesis
  proof (cases "found \<noteq> None \<and> committed_commit_sequence (eng_storage e) \<le> resume_after found")
    case True
    then obtain c where "found = Some c" by auto
    with True found show ?thesis
      by (simp add: covering_checkpoint_def Let_def current resume_after_def resume_point_def)
  next
    case False
    then obtain receipt e1 where take: "take_checkpoint env e = (Inr receipt, e1)"
      using take_checkpoint_total [OF ok policy found(1) _ no_fault] found(2) by blast
    from take_checkpoint_ok [OF ok room addr take] obtain c where
      "latest_checkpoint env (eng_storage e1) = Inr (Some c)" by blast
    with take False found show ?thesis
      by (auto simp: covering_checkpoint_def Let_def current resume_after_def resume_point_def split: option.split)
  qed
qed

lemma local_compaction_runs:
  assumes ok: "engine_ok env e" and idle: "eng_staging e = None" and policy: "eng_policy e = Some policy"
    and local: "policy_recovery_topology policy = LocalCheckpoint"
    and room: "committed_commit_sequence (eng_storage e) \<noteq> - 1"
    and addr: "segments_addressable env e" and cover: "coverable env e"
    and no_fault: "\<forall>s. env_commit_fault env s = None"
    and over: "maximum_live_entries retention < (of_nat (length (versioned_entries (eng_storage e))) :: u64)"
    and settled: "stored_mirror_head (eng_storage e) = None \<or> last_entry (unshipped (eng_storage e)) = None"
  shows "\<exists>receipt e'. compact_versioned_history env retention AckLocalCheckpoint e = (Inr receipt, e')"
proof -
  have over': "\<not> (of_nat (length (versioned_entries (eng_storage e))) :: u64) \<le> maximum_live_entries retention"
    using over by simp
  have "validate_history_acknowledgement e AckLocalCheckpoint = Inr ()"
    using settled by (auto simp: validate_history_acknowledgement_def policy local split: option.split)
  moreover obtain c e1 where "covering_checkpoint env e = (Inr c, e1)"
    using covering_total [OF ok policy idle room addr cover no_fault] by blast
  ultimately show ?thesis
    by (simp add: compact_versioned_history_def over' Let_def ensure_mirror_covers_def keys_through_def
        put_no_fault [OF no_fault])
qed

text \<open>C35 The live history is bounded: when the configured compaction of an idle engine returns a receipt,
  at most the configured number of versioned entries is left, all of them or none survived, and the
  receipt's machine-width counts are exact: what it retained is what is left, and retained and compacted
  add up to what was there.\<close>

theorem retention_bounds:
  assumes ok: "engine_ok env e" and idle: "eng_staging e = None" and policy: "eng_policy e = Some policy"
    and room: "has_room e" and addr: "segments_addressable env e"
    and run: "compact_configured_versioned_history env e = (Inr receipt, e')"
  shows "length (versioned_entries (eng_storage e')) \<le> unat (maximum_live_entries (policy_retention policy))
    \<and> unat (hc_retained_entries receipt) = length (versioned_entries (eng_storage e'))
    \<and> unat (hc_compacted_entries receipt) + length (versioned_entries (eng_storage e')) =
        length (versioned_entries (eng_storage e))
    \<and> (versioned_entries (eng_storage e') = versioned_entries (eng_storage e)
       \<or> versioned_entries (eng_storage e') = [])"
proof -
  let ?n = "length (versioned_entries (eng_storage e))"
  have "logs_ok (eng_storage e)" using ok by (simp add: engine_ok_def)
  from log_length_word [OF this has_room_words(1) [OF room]]
  have n: "unat (of_nat ?n :: u64) = ?n"
    by (simp add: versioned_entries_def tbl_iter_def unat_of_nat take_bit_nat_eq_self_iff)
  show ?thesis
  proof (cases "(of_nat ?n :: u64) \<le> maximum_live_entries (policy_retention policy)")
    case True
    with run policy have "e' = e" "hc_retained_entries receipt = of_nat ?n" "hc_compacted_entries receipt = 0"
      by (auto simp: compact_configured_versioned_history_def Let_def bindS_reads split: sum.splits)
    with True n show ?thesis by (simp add: word_le_nat_alt)
  next
    case False
    with run policy obtain ack where
      "compact_versioned_history env (policy_retention policy) ack e = (Inr receipt, e')"
      by (auto simp: compact_configured_versioned_history_def Let_def bindS_reads split: sum.splits)
    from compact_over [OF ok idle has_room_words(1) [OF room] addr _ this] False n show ?thesis
      by (simp add: not_le)
  qed
qed

text \<open>A store with one commit and no room for it.\<close>

definition sample_tight :: "nat engine" where
  "sample_tight = sample_logged\<lparr>eng_policy := Some (with_retention sample_policy \<lparr>maximum_live_entries = 0\<rparr>)\<rparr>"

lemma sample_tight_facts:
  "engine_ok sample_env sample_tight" "has_room sample_tight" "eng_staging sample_tight = None"
  "segments_addressable sample_env sample_tight" "coverable sample_env sample_tight"
  "stored_mirror_head (eng_storage sample_tight) = None" "length (versioned_entries (eng_storage sample_tight)) = 1"
proof -
  obtain v where v: "versioned_entries_from (eng_storage sample_logged) (commit_sequence_next 0) = [v]"
    "versioned_entries (eng_storage sample_logged) = [v]" "recomputed_digest sample_env v = ve_entry_digest v"
    "ve_previous_entry_digest v = None" "ne_list (ve_operations v) = [sample_versioned_operation]"
    by (rule sample_logged_entries)
  show "engine_ok sample_env sample_tight"
    using sample_logged_ok by (simp add: engine_ok_def sample_tight_def)
  show "has_room sample_tight" "eng_staging sample_tight = None"
    "length (versioned_entries (eng_storage sample_tight)) = 1"
    using v by (simp_all add: has_room_def sample_tight_def)
  show "stored_mirror_head (eng_storage sample_tight) = None"
    by (simp add: sample_tight_def stored_mirror_head_def sample_logged_def deliver_def row_insert_def store_empty_def)
  show "coverable sample_env sample_tight"
    using v(1)
    by (auto simp: coverable_def log_suffix_def resume_after_def resume_point_def commit_sequence_genesis_def sample_tight_def)
  show "segments_addressable sample_env sample_tight"
    unfolding segments_addressable_def
    by (auto simp: checkpoint_plan_def resume_point_def commit_sequence_genesis_def v Let_def sample_tight_def
        canonical_fold_def fold_entry_def apply_operation_def sample_versioned_operation_def
        sample_operation_def view_empty_def declare_identity_def bindR_Inr into_rows_def
        resolve_identity_def identity_key_of_def
        tbl_get_def tbl_remove_def tbl_iter_def view_key_new_def identity_key_from_identity_def view_row_new_def
        intro!: addressable_singleton)
qed

lemma retention_bounds_witness:
  "\<exists>receipt e'. compact_configured_versioned_history sample_env sample_tight = (Inr receipt, e')
    \<and> length (versioned_entries (eng_storage sample_tight)) = 1 \<and> length (versioned_entries (eng_storage e')) \<le> 0
    \<and> unat (hc_compacted_entries receipt) + length (versioned_entries (eng_storage e')) = 1"
proof -
  note facts = sample_tight_facts
  let ?policy = "with_retention sample_policy \<lparr>maximum_live_entries = 0\<rparr>"
  have policy: "eng_policy sample_tight = Some ?policy" by (simp add: sample_tight_def)
  have local: "policy_recovery_topology ?policy = LocalCheckpoint" "policy_retention ?policy = \<lparr>maximum_live_entries = 0\<rparr>"
    by (simp_all add: with_retention_def sample_policy_def versioning_policy_new_def)
  obtain receipt e' where "compact_versioned_history sample_env \<lparr>maximum_live_entries = 0\<rparr> AckLocalCheckpoint sample_tight
      = (Inr receipt, e')"
    using local_compaction_runs [OF facts(1,3) policy local(1) has_room_words(1) [OF facts(2)] facts(4,5), of "\<lparr>maximum_live_entries = 0\<rparr>"]
      facts(6,7) by auto
  then have run: "compact_configured_versioned_history sample_env sample_tight = (Inr receipt, e')"
    using facts(7) by (simp add: compact_configured_versioned_history_def policy local Let_def)
  from retention_bounds [OF facts(1,3) policy facts(2,4) run] run facts(7) show ?thesis
    unfolding local(2) by (metis le_0_eq versioned_history_retention.select_convs(1) unat_0)
qed

text \<open>C36 Without a mirror the history can always be shortened: on a local-checkpoint store a compaction
  over the retention succeeds (when the kernel commits and there is something to checkpoint), leaves no
  live entry, and trims the outbox row of every entry it pruned, also rows an earlier topology left behind;
  only a durable mirror head with unshipped rows after it makes it refuse, and then nothing changes.\<close>

theorem local_compaction_total:
  assumes ok: "engine_ok env e" and idle: "eng_staging e = None" and policy: "eng_policy e = Some policy"
    and local: "policy_recovery_topology policy = LocalCheckpoint" and room: "has_room e"
    and addr: "segments_addressable env e" and cover: "coverable env e"
    and no_fault: "\<forall>s. env_commit_fault env s = None"
    and over: "maximum_live_entries retention < (of_nat (length (versioned_entries (eng_storage e))) :: u64)"
  shows "case (stored_mirror_head (eng_storage e), last_entry (unshipped (eng_storage e))) of
      (Some head, Some entry) \<Rightarrow>
        compact_versioned_history env retention AckLocalCheckpoint e =
          (Inl (HistoryCompactionUnacknowledged (ob_commit_sequence entry) (Some (mh_commit_sequence head))), e)
    | _ \<Rightarrow> \<exists>receipt e'. compact_versioned_history env retention AckLocalCheckpoint e = (Inr receipt, e')
        \<and> versioned_entries (eng_storage e') = []
        \<and> (\<forall>v \<in> set (versioned_entries (eng_storage e)). row_at (eng_storage e') (ve_commit_sequence v) = None)
        \<and> st_rows (eng_storage e') = st_rows (eng_storage e)"
proof (cases "\<exists>head entry. stored_mirror_head (eng_storage e) = Some head \<and> last_entry (unshipped (eng_storage e)) = Some entry")
  case True
  then show ?thesis
    by (auto simp: compact_versioned_history_def validate_history_acknowledgement_def policy local)
next
  case False
  let ?run = "compact_versioned_history env retention AckLocalCheckpoint e"
  note room' = has_room_words(1) [OF room]
  obtain receipt e' where run: "?run = (Inr receipt, e')"
    using local_compaction_runs [OF ok idle policy local room' addr cover no_fault over] False
    by (metis not_None_eq)
  have empty: "versioned_entries (eng_storage e') = []"
    using compact_over [OF ok idle room' addr over run] by simp
  have rows: "st_rows (eng_storage e') = st_rows (eng_storage e)"
    and log: "unpruned (eng_storage e) (eng_storage e') \<or> (\<exists>covered. pruned_to covered (eng_storage e) (eng_storage e'))"
    using compact_versioned_history_ok [OF ok room' addr run] by (auto simp: history_only_def)
  have "row_at (eng_storage e') (ve_commit_sequence v) = None" if v: "v \<in> set (versioned_entries (eng_storage e))" for v
  proof -
    obtain k where k: "(k, v) \<in> set (st_versioned_log (eng_storage e))"
      using v by (auto simp: versioned_entries_def tbl_iter_def)
    then have "ve_commit_sequence v = k" using ok by (fastforce simp: engine_ok_def logs_ok_def log_indexed_def)
    moreover have "\<not> unpruned (eng_storage e) (eng_storage e')"
      using empty k by (auto simp: unpruned_def versioned_entries_def tbl_iter_def)
    ultimately obtain covered where covered: "pruned_to covered (eng_storage e) (eng_storage e')" using log by blast
    then have "k \<le> covered"
      using empty k by (auto simp: pruned_to_def versioned_entries_def tbl_iter_def filter_empty_conv not_less)
    with covered \<open>ve_commit_sequence v = k\<close> show ?thesis
      by (auto simp: row_at_def pruned_to_def tbl_get_None_iff)
  qed
  with run empty rows False show ?thesis by (auto split: option.split)
qed

lemma local_compaction_total_witness:
  "\<exists>receipt e'. compact_versioned_history sample_env \<lparr>maximum_live_entries = 0\<rparr> AckLocalCheckpoint sample_tight
      = (Inr receipt, e')
    \<and> versioned_entries (eng_storage sample_tight) \<noteq> [] \<and> versioned_entries (eng_storage e') = []"
  using local_compaction_total [OF sample_tight_facts(1,3) _ _ sample_tight_facts(2,4,5), of _ "\<lparr>maximum_live_entries = 0\<rparr>"]
    sample_tight_facts(6,7)
  by (auto simp: sample_tight_def with_retention_def sample_policy_def versioning_policy_new_def)

end
