(* ===== verification/Compaction_Race.thy ===== *)
theory Compaction_Race
  imports Import_Theorems Retention_Theorems
begin

text \<open>
  The two halves of \<open>compact_versioned_history\<close> in src/engine.rs: the checkpoint to prune to is chosen
  before the write lock is taken, the pruning runs under it, and other threads may run in between.
\<close>

section \<open>The two halves\<close>

text \<open>Everything before the write lock: a receipt when there is nothing to prune, else the number of live
  entries read first and the metadata of the chosen checkpoint.\<close>

definition compact_begin ::
  "'r engine_env \<Rightarrow> versioned_history_retention \<Rightarrow> history_acknowledgement \<Rightarrow> 'r engine
   \<Rightarrow> ('r, history_compaction + u64 \<times> checkpoint_metadata) engine_result" where
  "compact_begin env retention ack e =
     bindS (reads (validate_history_acknowledgement e ack) e) (\<lambda>_ e.
     let retained_before = (of_nat (length (versioned_entries (eng_storage e))) :: u64) in
     if retained_before \<le> maximum_live_entries retention
     then bindS (reads (latest_checkpoint env (eng_storage e)) e) (\<lambda>c e.
          (Inr (Inl \<lparr>hc_compacted_entries = 0, hc_retained_entries = retained_before,
             hc_checkpoint_sequence = map_option (\<lambda>ck. cm_sequence (ck_metadata ck)) c\<rparr>), e))
     else bindS (covering_checkpoint env e) (\<lambda>c e.
          bindS (reads (ensure_mirror_covers (eng_storage e) ack (csr_last (cm_covered (ck_metadata c)))) e) (\<lambda>_ e.
          (Inr (Inr (retained_before, ck_metadata c)), e))))"

text \<open>The rest, under the write lock.\<close>

definition compact_end ::
  "'r engine_env \<Rightarrow> u64 \<Rightarrow> checkpoint_metadata \<Rightarrow> 'r engine \<Rightarrow> ('r, history_compaction) engine_result" where
  "compact_end env retained_before m e =
     (let s = eng_storage e;
          (commit_keys, versioned_keys) = keys_through s (csr_last (cm_covered m));
          counts = after_removing (log_counts s) (length commit_keys) (length versioned_keys) in
      bindS (engine_put env (prune_history env m) e) (\<lambda>_ e.
      (Inr \<lparr>hc_compacted_entries = saturating_sub retained_before (lc_versioned counts),
            hc_retained_entries = lc_versioned counts,
            hc_checkpoint_sequence = Some (cm_sequence (root_metadata env m))\<rparr>, e)))"

lemma compact_in_two:
  "compact_versioned_history env retention ack e =
     bindS (compact_begin env retention ack e) (\<lambda>r e.
       case r of Inl receipt \<Rightarrow> (Inr receipt, e) | Inr (retained_before, m) \<Rightarrow> compact_end env retained_before m e)"
proof (cases "validate_history_acknowledgement e ack")
  case (Inr u)
  show ?thesis
  proof (cases "(of_nat (length (versioned_entries (eng_storage e))) :: u64) \<le> maximum_live_entries retention")
    case True
    with Inr show ?thesis
      by (cases "latest_checkpoint env (eng_storage e)")
        (simp_all add: compact_versioned_history_def compact_begin_def Let_def)
  next
    case False
    obtain r1 e1 where cover: "covering_checkpoint env e = (r1, e1)" by (metis surj_pair)
    show ?thesis
    proof (cases r1)
      case (Inl err)
      with \<open>validate_history_acknowledgement e ack = Inr u\<close> False cover show ?thesis
        by (simp add: compact_versioned_history_def compact_begin_def Let_def)
    next
      case (Inr c)
      with \<open>validate_history_acknowledgement e ack = Inr u\<close> False cover show ?thesis
        by (cases "ensure_mirror_covers (eng_storage e1) ack (csr_last (cm_covered (ck_metadata c)))")
          (simp_all add: compact_versioned_history_def compact_begin_def compact_end_def Let_def)
    qed
  qed
qed (simp add: compact_versioned_history_def compact_begin_def)

lemma compact_end_Inr:
  assumes "compact_end env retained_before m e = (Inr receipt, e')"
  shows "e' = e\<lparr>eng_storage := prune_history env m (eng_storage e)\<rparr>"
  using assms by (cases rule: engine_put_cases [of env "prune_history env m" e])
    (auto simp: compact_end_def Let_def split: prod.splits)

text \<open>Pruning looks at a checkpoint only through its root.\<close>

lemma prune_history_root:
  assumes "root_metadata env m = root_metadata env m'"
  shows "prune_history env m s = prune_history env m' s"
proof -
  have "cm_sequence m = cm_sequence m'" "cm_covered m = cm_covered m'" "cm_segments m = cm_segments m'"
    using assms root_metadata_sel by metis+
  with assms show ?thesis by (simp add: prune_history_def)
qed

section \<open>What a race leaves\<close>

lemma stale_prune:
  assumes logs: "logs_ok s" and room: "committed_commit_sequence s \<noteq> - 1"
    and latest: "latest_checkpoint env s = Inr (Some c)" and keyed: "checkpoints_keyed s"
    and stale: "cm_sequence m \<noteq> cm_sequence (ck_metadata c)"
  shows "latest_checkpoint env (prune_history env m s) = Inl (CheckpointRowMissing (cm_sequence (ck_metadata c)))"
proof -
  from latest obtain sq where sq: "counter_get s latest_checkpoint_key = Some sq"
    "tbl_get (st_checkpoints s) sq = Some (ck_metadata c)" by (rule latest_checkpoint_Some)
  then have "cm_sequence (ck_metadata c) = sq"
    using keyed by (auto simp: checkpoints_keyed_def tbl_get_Some_iff)
  with sq stale show ?thesis
    by (simp add: latest_checkpoint_def prune_history_sel [OF logs room])
qed

lemma unrecoverable_stuck:
  assumes policy: "eng_policy e \<noteq> None" and latest: "latest_checkpoint env (eng_storage e) = Inl err"
  shows "\<not> engine_ok env e" and "\<exists>err'. take_checkpoint env e = (Inl err', e)"
    and "\<exists>err'. rebuild_from_log env dir e = (Inl err', e)"
proof -
  show "\<not> engine_ok env e" using assms by (auto simp: engine_ok_def history_ok_def recoverable_def)
  show "\<exists>err'. take_checkpoint env e = (Inl err', e)"
    using assms by (cases "ensure_versioned_log_complete (eng_storage e)") (auto simp: take_checkpoint_def)
  show "\<exists>err'. rebuild_from_log env dir e = (Inl err', e)"
    using assms by (cases "ensure_versioned_log_complete (eng_storage e)") (auto simp: rebuild_from_log_def)
qed

text \<open>C24 A compaction and another thread: what the locked half of a compaction leaves, given the
  checkpoint its unlocked half chose and the store it finds.  If that checkpoint (or its root, when another compaction
  ran) is still the latest one, the pruned engine keeps the invariant and its content.  If a newer
  checkpoint was published in between, its row is deleted as well: the store then has no loadable checkpoint although it
  names one, and checkpoints and rebuilds refuse.\<close>

theorem compaction_race:
  assumes ok: "engine_ok env e" and policy: "eng_policy e \<noteq> None"
    and room: "committed_commit_sequence (eng_storage e) \<noteq> - 1"
    and latest: "latest_checkpoint env (eng_storage e) = Inr (Some c)"
    and same: "cm_sequence m = cm_sequence (ck_metadata c) \<Longrightarrow> root_metadata env m = root_metadata env (ck_metadata c)"
    and run: "compact_end env retained_before m e = (Inr receipt, e')"
  shows "if cm_sequence m = cm_sequence (ck_metadata c)
    then engine_ok env e' \<and> history_only e e'
      \<and> latest_checkpoint env (eng_storage e') = Inr (Some (c\<lparr>ck_metadata := root_metadata env (ck_metadata c)\<rparr>))
      \<and> logged_rows env (eng_storage e') = logged_rows env (eng_storage e)
    else \<not> engine_ok env e'
      \<and> latest_checkpoint env (eng_storage e') = Inl (CheckpointRowMissing (cm_sequence (ck_metadata c)))
      \<and> (\<exists>err. take_checkpoint env e' = (Inl err, e')) \<and> (\<exists>err. rebuild_from_log env dir e' = (Inl err, e'))"
proof -
  have hist: "history_ok env (eng_storage e)" using ok policy by (simp add: engine_ok_def)
  have e': "e' = e\<lparr>eng_storage := prune_history env m (eng_storage e)\<rparr>" by (rule compact_end_Inr [OF run])
  show ?thesis
  proof (cases "cm_sequence m = cm_sequence (ck_metadata c)")
    case True
    from prune_history_root [OF same [OF this]]
    have e'': "e' = e\<lparr>eng_storage := prune_history env (ck_metadata c) (eng_storage e)\<rparr>" by (simp add: e')
    show ?thesis
      using prune_ok [OF ok policy room latest e''] prune_keeps_history(2) [OF hist latest room]
        prune_content [OF hist latest room] True by (simp add: e'')
  next
    case False
    have "latest_checkpoint env (eng_storage e') = Inl (CheckpointRowMissing (cm_sequence (ck_metadata c)))"
      using stale_prune [OF _ room latest _ False] hist by (simp add: history_ok_def e')
    moreover have "eng_policy e' \<noteq> None" using policy by (simp add: e')
    ultimately show ?thesis using unrecoverable_stuck [of e' env] False by auto
  qed
qed

text \<open>A store whose content has at most one key fits one segment.\<close>

lemma one_key_addressable:
  assumes ok: "engine_ok env e" and policy: "eng_policy e \<noteq> None"
    and one: "\<And>key. key \<noteq> k \<Longrightarrow> logged_rows env (eng_storage e) key = None"
  shows "segments_addressable env e"
  unfolding segments_addressable_def
proof (intro allI impI)
  fix policy previous m segs n
  assume latest: "latest_checkpoint env (eng_storage e) = Inr previous"
    and plan: "checkpoint_plan env e policy previous = Inr (m, segs, n)"
  from checkpoint_plan_Inr(7) [OF plan] obtain view mr where
    view: "canonical_fold env (fst (resume_point previous)) (log_suffix (eng_storage e) previous)
      (resume_head previous) = Inr view"
    and mr: "into_rows view (family_inventory (eng_catalog e)) = Inr mr" "segs = chunk (mr_rows mr)" by blast
  have vok: "view_ok view" by (rule canonical_fold_ok [OF view])
  have "set (map fst (cv_rows view)) \<subseteq> {k}"
    using one logged_rows_folded [OF latest view] by (metis (no_types, lifting) insertI1 subsetI tbl_get_None_iff)
  moreover have "distinct (map fst (cv_rows view))"
    using vok by (simp add: view_ok_def tbl_ok_distinct)
  ultimately have "length (map fst (cv_rows view)) \<le> 1"
    by (metis card.empty card.insert card_mono distinct_card empty_iff finite.emptyI finite.insertI One_nat_def)
  then have "length (mr_rows mr) \<le> 1" using into_rows_ok [OF vok] mr(1) by auto
  then show "addressable env segs" unfolding mr(2) by (rule addressable_singleton)
qed

lemma next_checkpoint_differs:
  assumes "take_checkpoint env e = (Inr receipt, e')" and "latest_checkpoint env (eng_storage e) = Inr (Some c)"
    and "latest_checkpoint env (eng_storage e') = Inr (Some c')" and "engine_ok env e"
    and "committed_commit_sequence (eng_storage e) \<noteq> - 1" and "segments_addressable env e"
  shows "cm_sequence (ck_metadata c') = cm_sequence (ck_metadata c) + 1"
proof -
  from assms(1) obtain policy previous m segs n where t: "eng_policy e = Some policy"
    "latest_checkpoint env (eng_storage e) = Inr previous" "checkpoint_plan env e policy previous = Inr (m, segs, n)"
    "e' = e\<lparr>eng_storage := publish_checkpoint env m segs (eng_storage e)\<rparr>" by (rule take_checkpoint_Inr)
  have "history_ok env (eng_storage e)" "addressable env segs"
    using assms(4,6) t(1-3) by (auto simp: engine_ok_def segments_addressable_def)
  from publish_keeps_history(2) [OF this(1) t(2,3) this(2) assms(5)] assms(3) t(4) have "ck_metadata c' = m" by auto
  moreover have "cm_sequence m = cm_sequence (ck_metadata c) + 1"
    using t(2,3) assms(2)
    by (auto simp: checkpoint_plan_def Let_def bindR_eq_Inr checkpoint_metadata_new_def checkpoint_sequence_next_def
        split: list.splits prod.splits)
  ultimately show ?thesis by simp
qed

text \<open>A schedule of two threads on \<open>sample_logged\<close>: one begins a compaction; the other changes the row and
  publishes a checkpoint; the first ends its compaction.\<close>

lemma sample_begun:
  obtains c e1 where "compact_begin sample_env \<lparr>maximum_live_entries = 0\<rparr> AckLocalCheckpoint sample_logged
      = (Inr (Inr (1, ck_metadata c)), e1)"
    and "latest_checkpoint sample_env (eng_storage e1) = Inr (Some c)" and "engine_ok sample_env e1"
    and "history_only sample_logged e1" and "versioned_entries (eng_storage e1) = versioned_entries (eng_storage sample_logged)"
    and "logged_rows sample_env (eng_storage e1) = logged_rows sample_env (eng_storage sample_logged)"
proof -
  note room = sample_logged_sel(4)
  obtain v where v: "versioned_entries_from (eng_storage sample_logged) (commit_sequence_next 0) = [v]"
    "versioned_entries (eng_storage sample_logged) = [v]" by (rule sample_logged_entries)
  have "coverable sample_env sample_logged"
    using v(1) by (auto simp: coverable_def log_suffix_def resume_after_def resume_point_def commit_sequence_genesis_def)
  from covering_total [OF sample_logged_ok _ _ _ sample_logged_addressable this] obtain c e1 where
    cover: "covering_checkpoint sample_env sample_logged = (Inr c, e1)" by auto
  have "stored_mirror_head (eng_storage sample_logged) = None"
    by (simp add: stored_mirror_head_def sample_logged_def deliver_def row_insert_def store_empty_def)
  then have "validate_history_acknowledgement sample_logged AckLocalCheckpoint = Inr ()"
    by (simp add: validate_history_acknowledgement_def sample_policy_def versioning_policy_new_def)
  with v cover have "compact_begin sample_env \<lparr>maximum_live_entries = 0\<rparr> AckLocalCheckpoint sample_logged
      = (Inr (Inr (1, ck_metadata c)), e1)"
    by (simp add: compact_begin_def Let_def ensure_mirror_covers_def)
  moreover have room: "committed_commit_sequence (eng_storage sample_logged) \<noteq> - 1" by simp
  note one = covering_checkpoint_ok [OF sample_logged_ok room sample_logged_addressable cover]
    covering_checkpoint_content [OF sample_logged_ok room sample_logged_addressable cover]
  ultimately show thesis
    using one by (intro that [of c e1]) (simp_all add: versioned_entries_def)
qed

lemma sample_changed:
  assumes ok: "engine_ok sample_env e" and only: "history_only sample_logged e"
    and few: "length (versioned_entries (eng_storage e)) \<le> 1"
  obtains receipt e' where "mutate_keyed sample_env \<lparr>km_table = ''notes'', km_key = Domain ''a'', km_record = 6\<rparr> e
      = (Inr receipt, e')" and "lands_one sample_env e e'"
    and "\<exists>v. versioned_entries (eng_storage e') = versioned_entries (eng_storage e) @ [v]
      \<and> ve_commit_sequence v = next_commit_sequence e
      \<and> ne_list (ve_operations v) = [sample_operation Mutate (Domain ''a'') (PayloadRecord [6])]"
proof -
  let ?m = "\<lparr>km_table = ''notes'', km_key = Domain ''a'', km_record = (6::nat)\<rparr>"
  have e: "eng_policy e = Some sample_policy" "eng_catalog e = eng_catalog sample_engine" "eng_staging e = None"
    "st_rows (eng_storage e) = st_rows (eng_storage sample_logged)"
    "committed_commit_sequence (eng_storage e) = 1"
    using only by (simp_all add: history_only_def)
  have fam: "registered_family e ''notes'' = Inr sample_family"
    using sample_registered(1) e(2) by (simp add: registered_family_def)
  have "record_at e ''notes'' (Domain ''a'') = record_at sample_logged ''notes'' (Domain ''a'')"
    by (simp add: record_at_def e(4))
  then have row: "record_at e ''notes'' (Domain ''a'') = Some 5"
    using sample_logged_wrote by (simp add: wrote_def only_row_def)
  let ?vop = "sample_operation Mutate (Domain ''a'') (PayloadRecord [6])"
  have vop: "logged_op sample_env e ''notes'' Mutate (Domain ''a'') (Some 6) ?vop"
    by (simp add: logged_op_def fam sample_operation_def)
  define e' where "e' = deliver DeltaMutate ''notes'' (Domain ''a'') (next_snapshot e) 6 (e\<lparr>eng_storage :=
       land_commit (eng_policy e) (log_counts (eng_storage e))
         (single_entry (next_commit_sequence e) (next_snapshot e) Mutate ''notes'' (Domain ''a''))
         (versioned_entry_of sample_env e (ne_single ?vop)) (next_commit_sequence e) (next_snapshot e)
         (row_insert ''notes'' (to_owned_string (Domain ''a'')) 6 (eng_storage e))\<rparr>)"
  note lands = keyed_landed [OF vop, of "row_insert ''notes'' (to_owned_string (Domain ''a'')) 6" DeltaMutate 6,
      folded e'_def]
  have wrote: "wrote sample_env Mutate DeltaMutate ''notes'' (Domain ''a'') sample_family (PayloadRecord [6]) (Some 6) 6 e e'"
    by (rule lands_keyed_wrote [OF lands insert_body.commit_body_axioms ok _ _ lands_keyed_insert [OF lands] fam,
          where bytes_of = "\<lambda>_. [6]"]) (simp_all add: e)
  have one: "lands_one sample_env e e'"
    by (rule lands_keyed_one [OF lands insert_body.commit_body_axioms ok]) (simp_all add: e)
  obtain v where v: "versioned_entries (eng_storage e') = versioned_entries (eng_storage e) @ [v]"
    "ve_commit_sequence v = next_commit_sequence e" "ne_list (ve_operations v) = [?vop]"
    using wrote by (auto simp: wrote_def appends_commit_def e(1) sample_operation_def)
  have e': "eng_policy e' = Some sample_policy" "engine_ok sample_env e'"
    using one by (simp_all add: lands_one_def e(1))
  have "env_to_bytes sample_env (km_record ?m) = Inr [6]" by simp
  from record_entry_Inr [OF fam this]
  have run: "mutate_keyed sample_env ?m e = finish_write sample_env
      (mutation_receipt_new Mutate ''notes'' (Domain ''a'') (next_commit_sequence e) (next_snapshot e)) e'"
    by (simp add: mutate_keyed_def Let_def ensure_registered_def registered_is [OF fam] e(3)
        row put_no_fault sample_operation_def e'_def)
  have "(of_nat (length (versioned_entries (eng_storage e'))) :: u64) \<le> 4096"
  proof -
    have "length (versioned_entries (eng_storage e)) = 0 \<or> length (versioned_entries (eng_storage e)) = 1"
      using few by linarith
    then show ?thesis by (auto simp: v(1))
  qed
  moreover obtain c where "latest_checkpoint sample_env (eng_storage e') = Inr c"
    using e' by (auto simp: engine_ok_def history_ok_def recoverable_def)
  ultimately have "maintain_versioned_history sample_env e' = (Inr (), e')"
    by (simp add: maintain_versioned_history_def compact_configured_versioned_history_def Let_def e' sample_policy_def
        versioning_policy_new_def conservative_default_def default_maximum_live_entries_def)
  then show thesis
    using run one v by (intro that [of _ e']) (auto simp: finish_write_def)
qed

lemma compaction_race_witness:
  "\<exists>before m e1 changed e2 published e3 receipt e4.
     compact_begin sample_env \<lparr>maximum_live_entries = 0\<rparr> AckLocalCheckpoint sample_logged = (Inr (Inr (before, m)), e1)
   \<and> mutate_keyed sample_env \<lparr>km_table = ''notes'', km_key = Domain ''a'', km_record = 6\<rparr> e1 = (Inr changed, e2)
   \<and> take_checkpoint sample_env e2 = (Inr published, e3) \<and> engine_ok sample_env e3
   \<and> compact_end sample_env before m e3 = (Inr receipt, e4) \<and> \<not> engine_ok sample_env e4
   \<and> (\<exists>err. rebuild_from_log sample_env sample_directory e4 = (Inl err, e4))"
proof -
  obtain c e1 where begun: "compact_begin sample_env \<lparr>maximum_live_entries = 0\<rparr> AckLocalCheckpoint sample_logged
      = (Inr (Inr (1, ck_metadata c)), e1)"
    and c: "latest_checkpoint sample_env (eng_storage e1) = Inr (Some c)" and ok1: "engine_ok sample_env e1"
    and only: "history_only sample_logged e1"
    and log1: "versioned_entries (eng_storage e1) = versioned_entries (eng_storage sample_logged)"
    and rows1: "logged_rows sample_env (eng_storage e1) = logged_rows sample_env (eng_storage sample_logged)"
    by (rule sample_begun)
  have e1: "eng_policy e1 = Some sample_policy" "committed_commit_sequence (eng_storage e1) = 1"
    using only by (simp_all add: history_only_def)
  obtain v0 where "versioned_entries (eng_storage sample_logged) = [v0]" by (rule sample_logged_entries)
  then have "length (versioned_entries (eng_storage e1)) \<le> 1" by (simp add: log1)
  then obtain changed e2 v where change: "mutate_keyed sample_env
      \<lparr>km_table = ''notes'', km_key = Domain ''a'', km_record = 6\<rparr> e1 = (Inr changed, e2)"
    and lands: "lands_one sample_env e1 e2"
    and v: "versioned_entries (eng_storage e2) = versioned_entries (eng_storage e1) @ [v]"
      "ve_commit_sequence v = next_commit_sequence e1"
      "ne_list (ve_operations v) = [sample_operation Mutate (Domain ''a'') (PayloadRecord [6])]"
    by (blast intro: sample_changed [OF ok1 only])
  have e2: "engine_ok sample_env e2" "eng_policy e2 = Some sample_policy"
    "committed_commit_sequence (eng_storage e2) = 2" "latest_checkpoint sample_env (eng_storage e2) = Inr (Some c)"
    using lands e1 c by (auto simp: lands_one_def appends_commit_def)
  have room1: "committed_commit_sequence (eng_storage e1) \<noteq> - 1" by (simp add: e1)
  have rows2: "logged_rows sample_env (eng_storage e2) key = None"
    if "key \<noteq> view_key_new sample_family (Domain ''a'')" for key
    using lands_one_content [OF lands ok1 _ room1] v(1) that
    by (auto simp: e1 v(3) rows1 sample_logged_content sample_operation_def after_writes_def last_write_single
        operation_view_key_def view_key_new_def)
  have addr: "segments_addressable sample_env e2"
    by (rule one_key_addressable [OF e2(1) _ rows2]) (simp add: e2)
  have "resume_after (Some c) \<le> committed_commit_sequence (eng_storage e1)"
    using ok1 c by (auto simp: engine_ok_def history_ok_def recoverable_def e1)
  then have "resume_after (Some c) < next_commit_sequence e1"
    using next_sequence_above [OF room1] by (rule le_less_trans)
  then have "log_suffix (eng_storage e2) (Some c) \<noteq> []"
    using e2(1) v(1,2) by (simp add: engine_ok_def log_suffix_entries commit_sequence_next_def inc_le)
  from take_checkpoint_total [OF e2(1,2,4) this] obtain published e3 where
    take: "take_checkpoint sample_env e2 = (Inr published, e3)" by auto
  have room2: "committed_commit_sequence (eng_storage e2) \<noteq> - 1" by (simp add: e2)
  from take_checkpoint_ok [OF e2(1) room2 addr take] obtain c' where
    e3: "engine_ok sample_env e3" "history_only e2 e3" "latest_checkpoint sample_env (eng_storage e3) = Inr (Some c')"
    by blast
  have differs: "cm_sequence (ck_metadata c) \<noteq> cm_sequence (ck_metadata c')"
    using next_checkpoint_differs [OF take e2(4) e3(3) e2(1) room2 addr] by simp
  have policy3: "eng_policy e3 \<noteq> None" and room3: "committed_commit_sequence (eng_storage e3) \<noteq> - 1"
    using e3(2) e2 by (simp_all add: history_only_def)
  obtain receipt e4 where stop: "compact_end sample_env 1 (ck_metadata c) e3 = (Inr receipt, e4)"
    by (simp add: compact_end_def Let_def case_prod_beta put_no_fault)
  from compaction_race [OF e3(1) policy3 room3 e3(3) _ stop, of sample_directory] differs
  have "\<not> engine_ok sample_env e4 \<and> (\<exists>err. rebuild_from_log sample_env sample_directory e4 = (Inl err, e4))" by simp
  with begun change take e3(1) stop show ?thesis by blast
qed

end
