(* ===== verification/Engine_Views.thy ===== *)
theory Engine_Views
  imports Engine_Lifecycle
begin

text \<open>
  The read surface of the engine in src/engine.rs that only projects its state: the log accessors, the table
  list, the fan-out failures, the read-only storage handle and the options of an open.
\<close>

section \<open>Opening options\<close>

text \<open>\<open>EngineOpen\<close>; the path names the store, and the schema version is checked by the storage kernel.\<close>

record engine_open_options =
  open_path :: string
  open_schema_version :: u64
  open_versioning_policy :: "versioning_policy option"

definition engine_open_new :: "string \<Rightarrow> u64 \<Rightarrow> engine_open_options" where
  "engine_open_new path version =
     \<lparr>open_path = path, open_schema_version = version, open_versioning_policy = None\<rparr>"

definition with_versioning :: "versioning_policy \<Rightarrow> engine_open_options \<Rightarrow> engine_open_options" where
  "with_versioning policy opts = opts\<lparr>open_versioning_policy := Some policy\<rparr>"

section \<open>Log reads\<close>

definition versioned_chain_head :: "'r engine \<Rightarrow> digest option" where
  "versioned_chain_head e = chain_head (eng_storage e)"

definition engine_commit_log :: "'r engine \<Rightarrow> commit_log_entry list" where
  "engine_commit_log e = commit_entries (eng_storage e)"

definition commit_log_from_sequence :: "'r engine \<Rightarrow> commit_sequence \<Rightarrow> commit_log_entry list" where
  "commit_log_from_sequence e start = commit_entries_from (eng_storage e) start"

definition versioned_commit_log :: "'r engine \<Rightarrow> versioned_entry list" where
  "versioned_commit_log e = versioned_entries (eng_storage e)"

definition versioned_commit_log_from_sequence :: "'r engine \<Rightarrow> commit_sequence \<Rightarrow> versioned_entry list" where
  "versioned_commit_log_from_sequence e start = versioned_entries_from (eng_storage e) start"

definition replay_from_sequence :: "'r engine \<Rightarrow> commit_sequence \<Rightarrow> commit_log_entry list" where
  "replay_from_sequence e start = commit_log_from_sequence e start"

definition versioned_replay_from_sequence :: "'r engine \<Rightarrow> commit_sequence \<Rightarrow> versioned_entry list" where
  "versioned_replay_from_sequence e start = versioned_commit_log_from_sequence e start"

definition commit_log_range :: "'r engine \<Rightarrow> sequence_range \<Rightarrow> commit_log_entry list" where
  "commit_log_range e r = commit_entries_in (eng_storage e) r"

definition sequence_range_from :: "snapshot_identifier \<Rightarrow> sequence_range" where
  "sequence_range_from start = \<lparr>sqr_start = start, sqr_end = None\<rparr>"

definition sequence_range_between :: "snapshot_identifier \<Rightarrow> snapshot_identifier \<Rightarrow> sequence_range" where
  "sequence_range_between start stop = \<lparr>sqr_start = start, sqr_end = Some stop\<rparr>"

section \<open>Projections\<close>

definition list_tables :: "'r engine \<Rightarrow> table_registration list" where
  "list_tables e = eng_catalog e"

definition subscription_fanout_failures :: "'r engine \<Rightarrow> fanout_failure list" where
  "subscription_fanout_failures e = fanout_failures (eng_subscriptions e)"

definition ensure_identified_registered :: "'r engine \<Rightarrow> table_reference \<Rightarrow> unit eresult" where
  "ensure_identified_registered e table =
     (if is_registered (eng_catalog e) table then Inr () else Inl (TableNotRegistered table))"

text \<open>\<open>StorageReader\<close> has a read and no write.\<close>

record 'r storage_reader =
  reader_storage :: "'r store"

definition engine_storage_reader :: "'r engine \<Rightarrow> 'r storage_reader" where
  "engine_storage_reader e = \<lparr>reader_storage = eng_storage e\<rparr>"

definition storage_reader_read ::
  "'r storage_reader \<Rightarrow> ('r store \<Rightarrow> sema_error + 'a) \<Rightarrow> sema_error + 'a" where
  "storage_reader_read reader body = body (reader_storage reader)"

end
