(* ===== verification/Read_Theorems.thy ===== *)
theory Read_Theorems
  imports Engine_Views System_Theorems
begin

text \<open>
  What readers of the engine see: the reads of the log agree with each other, and a query after a
  successful write returns what was written.
\<close>

section \<open>Reads of the log\<close>

text \<open>C37 Every read of the log is the same log: in a reachable versioned engine the metadata log is the
  projection of the versioned log, both reads from a sequence are the entries at or after it in strictly
  rising order, and reading a snapshot range filters the whole log by it.\<close>

theorem log_reads_agree:
  assumes reach: "reachable env dir policy e" and versioned: "eng_policy e \<noteq> None"
  shows "engine_commit_log e = map entry_of_versioned (versioned_commit_log e)
    \<and> versioned_replay_from_sequence e start =
        filter (\<lambda>v. start \<le> ve_commit_sequence v) (versioned_commit_log e)
    \<and> replay_from_sequence e start = map entry_of_versioned (versioned_replay_from_sequence e start)
    \<and> sorted_wrt (<) (map ve_commit_sequence (versioned_commit_log e))
    \<and> commit_log_range e (sequence_range_between low high) =
        filter (\<lambda>en. low \<le> cle_snapshot en \<and> cle_snapshot en \<le> high) (engine_commit_log e)"
proof -
  let ?log = "st_versioned_log (eng_storage e)"
  have hist: "logs_ok (eng_storage e)" "logs_agree (eng_storage e)"
    using reachable_ok [OF reach] versioned by (simp_all add: engine_ok_def history_ok_def)
  have keys: "\<forall>r \<in> set ?log. ve_commit_sequence (snd r) = fst r" and ok: "tbl_ok ?log"
    using hist(1) by (simp_all add: logs_ok_def log_indexed_def)
  have agree: "st_commit_log (eng_storage e) = map (\<lambda>(k, v). (k, entry_of_versioned v)) ?log"
    using hist(2) by (simp add: logs_agree_def)
  have eq: "map ve_commit_sequence (map snd ?log) = map fst ?log" using keys by simp
  have sorted: "sorted_wrt (<) (map ve_commit_sequence (map snd ?log))"
    unfolding eq using ok by (simp add: tbl_ok_def)
  have cut: "map snd (filter (\<lambda>r. start \<le> fst r) t) = filter (\<lambda>v. start \<le> ve_commit_sequence v) (map snd t)"
    if "\<forall>r \<in> set t. ve_commit_sequence (snd r) = fst r" for t
    using that by (induction t) auto
  have project: "map snd (filter (\<lambda>r. start \<le> fst r) (map (\<lambda>(k, v). (k, entry_of_versioned v)) t)) =
      map entry_of_versioned (map snd (filter (\<lambda>r. start \<le> fst r) t))" for t :: "(u64, versioned_entry) tbl"
    by (induction t) auto
  have all: "map snd (map (\<lambda>(k, v). (k, entry_of_versioned v)) t) = map entry_of_versioned (map snd t)"
    for t :: "(u64, versioned_entry) tbl" by (induction t) auto
  show ?thesis
    using cut [OF keys] sorted
    by (simp add: engine_commit_log_def versioned_commit_log_def versioned_replay_from_sequence_def
        versioned_commit_log_from_sequence_def replay_from_sequence_def commit_log_from_sequence_def
        commit_log_range_def commit_entries_in_def commit_entries_def commit_entries_from_def
        versioned_entries_def versioned_entries_from_def tbl_iter_def tbl_from_def agree project all
        sequence_range_between_def sequence_range_contains_def del: map_map)
qed

lemma log_reads_agree_witness:
  "engine_commit_log sample_opened = map entry_of_versioned (versioned_commit_log sample_opened)
   \<and> replay_from_sequence sample_opened 1 =
       map entry_of_versioned (versioned_replay_from_sequence sample_opened 1)"
  using log_reads_agree [OF sample_opened_reachable] by simp

section \<open>Reading a write back\<close>

definition records_at :: "'r engine_env \<Rightarrow> table_reference \<Rightarrow> record_key \<Rightarrow> 'r engine \<Rightarrow> 'r list eresult" where
  "records_at env table key e = bindR (match_records env (query_key table key) e) (\<lambda>s. Inr (qs_records s))"

lemma records_at_idle:
  assumes "eng_staging e = None"
  shows "records_at env table key e =
    (if is_registered (eng_catalog e) table
     then Inr (case record_at e table key of None \<Rightarrow> [] | Some r \<Rightarrow> [r])
     else Inl (TableNotRegistered table))"
  using assms
  by (simp add: records_at_def match_records_def query_key_def read_plan_by_key_def select_rows_def record_at_def
      option_list_def ensure_registered_def ensure_def split: option.split)

text \<open>The rows, catalog and session a keyed write leaves when it succeeds.\<close>

definition left_by :: "('r store \<Rightarrow> 'r store) \<Rightarrow> 'r engine \<Rightarrow> 'r engine \<Rightarrow> bool" where
  "left_by body e e' \<longleftrightarrow> st_rows (eng_storage e') = st_rows (body (eng_storage e))
     \<and> eng_catalog e' = eng_catalog e \<and> eng_staging e' = None"

lemma keyed_left:
  assumes out: "write_outcome e L (finish_write env receipt) (Inr rc, e')"
    and lands: "\<And>e1. L e1 \<Longrightarrow> is_registered (eng_catalog e) table
      \<and> (\<exists>delta. lands_keyed env body oper kind table key payload delta e e1)"
    and idle: "eng_staging e = None"
  shows "left_by body e e' \<and> is_registered (eng_catalog e) table"
proof -
  from out obtain e1 where L: "L e1" and run: "finish_write env receipt e1 = (Inr rc, e')"
    by (auto simp: write_outcome_def)
  then obtain u where m: "maintain_versioned_history env e1 = (Inr u, e')"
    by (auto simp: finish_write_def bindS_eq_Inr)
  have e1: "st_rows (eng_storage e1) = st_rows (body (eng_storage e))" "eng_catalog e1 = eng_catalog e"
    "eng_staging e1 = None"
    using lands [OF L] idle by (auto simp: lands_keyed_def commits_def landed_def)
  have "same_rows e1 e'" using maintain_rows [of e1 e1 env] m by simp
  moreover have "eng_staging e' = None"
    using maintain_keeps [of "\<lambda>x. eng_staging x = None" e1 env] m e1(3) by simp
  ultimately show ?thesis using e1 lands [OF L] by (simp add: left_by_def same_rows_def)
qed

text \<open>The answer of the exact-key query of a written row, and the rest as before.\<close>

definition answers :: "'r engine_env \<Rightarrow> table_reference \<Rightarrow> record_key \<Rightarrow> 'r list \<Rightarrow> 'r engine \<Rightarrow> 'r engine \<Rightarrow> bool" where
  "answers env table key rows e e' \<longleftrightarrow>
     (\<exists>s. match_records env (query_key table key) e' = Inr s \<and> qs_records s = rows)
     \<and> (\<forall>t k. (t, to_owned_string k) \<noteq> (table, to_owned_string key) \<longrightarrow>
          records_at env t k e' = records_at env t k e)"

lemma left_answers:
  assumes left: "left_by body e e' \<and> is_registered (eng_catalog e) table" and idle: "eng_staging e = None"
    and row: "tbl_get (st_rows (body (eng_storage e)) table) (to_owned_string key) = row"
    and others: "\<And>t k. (t, k) \<noteq> (table, to_owned_string key) \<Longrightarrow>
      tbl_get (st_rows (body (eng_storage e)) t) k = tbl_get (st_rows (eng_storage e) t) k"
  shows "answers env table key (option_list row) e e'"
proof -
  have "records_at env table key e' = Inr (option_list row)"
    using left row by (simp add: left_by_def records_at_idle record_at_def option_list_def split: option.split)
  moreover have "records_at env t k e' = records_at env t k e"
    if "(t, to_owned_string k) \<noteq> (table, to_owned_string key)" for t k
    using left idle others [OF that] by (simp add: left_by_def records_at_idle record_at_def)
  ultimately show ?thesis by (auto simp: answers_def records_at_def bindR_eq_Inr)
qed

text \<open>C38 A reader sees what was written: for a generated table declaration and a key it projects, the
  exact-key query the declaration builds returns after a successful assertion, mutation or retraction of
  that key the new record, or nothing when it was retracted; every other row reads as before.\<close>

theorem reads_see_writes:
  assumes idle: "eng_staging e = None" and key: "spec_record_key spec k = Inr key"
  shows "spec_query spec k = Inr (query_key (spec_table_reference spec) key)
    \<and> (\<exists>a. spec_assertion spec k r = Inr a \<and> (\<forall>rc e'. assert_keyed env a e = (Inr rc, e') \<longrightarrow>
         answers env (spec_table_reference spec) key [r] e e'))
    \<and> (\<forall>rc e'. mutate_keyed env (keyed_mutation_new (spec_table_reference spec) key r) e = (Inr rc, e') \<longrightarrow>
         answers env (spec_table_reference spec) key [r] e e')
    \<and> (\<forall>rc e'. engine_retract env (retraction_new (spec_table_reference spec) key) e = (Inr rc, e') \<longrightarrow>
         answers env (spec_table_reference spec) key [] e e')"
proof -
  let ?t = "spec_table_reference spec"
  let ?a = "keyed_assertion_new ?t key r" and ?m = "keyed_mutation_new ?t key r" and ?rt = "retraction_new ?t key"
  have insert: "answers env ?t key [r] e e'"
    if "left_by (row_insert ?t (to_owned_string key) r) e e' \<and> is_registered (eng_catalog e) ?t" for e'
    using left_answers [OF that idle, of key "Some r" env]
    by (auto simp: row_insert_def option_list_def table_simps)
  have remove: "answers env ?t key [] e e'"
    if "left_by (row_remove ?t (to_owned_string key)) e e' \<and> is_registered (eng_catalog e) ?t" for e'
    using left_answers [OF that idle, of key None env]
    by (auto simp: row_remove_def option_list_def table_simps)
  have "answers env ?t key [r] e e'" if "assert_keyed env ?a e = (Inr rc, e')" for rc e'
    using assert_keyed_outcome [OF idle, of ?a env] unfolding that
    by (intro insert, elim keyed_left) (auto simp: keyed_assertion_new_def idle)
  moreover have "answers env ?t key [r] e e'" if "mutate_keyed env ?m e = (Inr rc, e')" for rc e'
    using mutate_keyed_outcome [OF idle, of ?m env] unfolding that
    by (intro insert, elim keyed_left) (auto simp: keyed_mutation_new_def idle)
  moreover have "answers env ?t key [] e e'" if "engine_retract env ?rt e = (Inr rc, e')" for rc e'
    using engine_retract_outcome [OF idle, of ?rt env] unfolding that
    by (intro remove, elim keyed_left) (auto simp: retraction_new_def idle)
  ultimately show ?thesis by (simp add: spec_query_def spec_assertion_def key)
qed

definition sample_spec :: "string table_specification" where
  "sample_spec = \<lparr>spec_table_name = ''notes'', spec_family_name = ''note'', spec_schema_hash = [1],
     spec_record_key = (\<lambda>k. Inr (record_key_new k))\<rparr>"

lemma sample_assert_returns:
  "assert_keyed sample_env (keyed_assertion_new ''notes'' (Domain ''a'') 5) sample_engine =
     (Inr (mutation_receipt_new Assert ''notes'' (Domain ''a'') (next_commit_sequence sample_engine)
        (next_snapshot sample_engine)), sample_logged)"
proof -
  obtain v where v: "versioned_entries (eng_storage sample_logged) = [v]" by (rule sample_logged_entries)
  have "maintain_versioned_history sample_env sample_logged = (Inr (), sample_logged)"
    by (simp add: maintain_versioned_history_def compact_configured_versioned_history_def v sample_policy_def
        versioning_policy_new_def conservative_default_def default_maximum_live_entries_def)
  then have "finish_write sample_env receipt sample_logged = (Inr receipt, sample_logged)" for receipt :: mutation_receipt
    by (simp add: finish_write_def)
  moreover have "is_registered [registration_new sample_family] ''notes''"
    using registered_is [OF sample_registered(1)] by simp
  then have "assert_keyed sample_env (keyed_assertion_new ''notes'' (Domain ''a'') 5) sample_engine =
      finish_write sample_env (mutation_receipt_new Assert ''notes'' (Domain ''a'')
        (next_commit_sequence sample_engine) (next_snapshot sample_engine)) sample_logged"
    by (simp add: assert_keyed_def keyed_assertion_new_def Let_def ensure_registered_def
        record_entry_Inr [OF sample_registered(1), where bs = "[5]"]
        put_no_fault record_at_def sample_logged_def sample_versioned_operation_def sample_operation_def)
  ultimately show ?thesis by simp
qed

lemma reads_see_writes_witness:
  "\<exists>e'. match_records sample_env (query_key ''notes'' (Domain ''a'')) e' = Inr
      \<lparr>qs_operation = Match, qs_table = ''notes'', qs_marker = committed_marker (eng_storage e'), qs_records = [5]\<rparr>
    \<and> assert_keyed sample_env (keyed_assertion_new ''notes'' (Domain ''a'') 5) sample_engine =
        (Inr (mutation_receipt_new Assert ''notes'' (Domain ''a'') 1 1), e')"
proof -
  have key: "spec_record_key sample_spec ''a'' = Inr (Domain ''a'')" "spec_table_reference sample_spec = ''notes''"
    by (simp_all add: sample_spec_def record_key_new_def spec_table_reference_def)
  from reads_see_writes [OF _ key(1), of sample_engine 5 sample_env] sample_assert_returns
  have "answers sample_env ''notes'' (Domain ''a'') [5] sample_engine sample_logged"
    by (auto simp: key(2) spec_assertion_def key(1))
  then show ?thesis
    using sample_assert_returns
    by (auto simp: answers_def match_records_def bindR_eq_Inr query_key_def next_commit_sequence_def
        commit_sequence_next_def next_snapshot_def snapshot_next_def)
qed

end
