(* ===== verification/Replay_Theorems.thy ===== *)
theory Replay_Theorems
  imports Read_Theorems
begin

text \<open>
  Replaying versioned entries into a registered family (src/engine.rs \<open>replay_versioned\<close>): which operations
  are applied, in which order, and what is left when one of them fails.
\<close>

interpretation sequence_frame: history_frame env "\<lambda>e. committed_commit_sequence (eng_storage e) = n"
  for env :: "'r engine_env" and n
  by unfold_locales (simp, simp add: prune_history_def Let_def case_prod_beta compact_acknowledged_through_def
      compact_through_def committed_commit_sequence_def counter_get_def counter_insert_def table_simps)

section \<open>One operation\<close>

text \<open>What an operation does to the rows of the table it is replayed into.\<close>

definition replay_effect :: "'r engine_env \<Rightarrow> string \<Rightarrow> versioned_log_operation \<Rightarrow> 'r store \<Rightarrow> 'r store" where
  "replay_effect env table oper s =
     (case vop_key oper of None \<Rightarrow> s | Some key \<Rightarrow>
        if vop_operation oper = Retract then row_remove table (to_owned_string key) s
        else (case replayed_record env table (vop_payload oper) of
            Inl err \<Rightarrow> s | Inr r \<Rightarrow> row_insert table (to_owned_string key) r s))"

text \<open>One commit with the given row change, and nothing else of the engine's state but its history.\<close>

definition stepped :: "('r store \<Rightarrow> 'r store) \<Rightarrow> 'r engine \<Rightarrow> 'r engine \<Rightarrow> bool" where
  "stepped body e e' \<longleftrightarrow> left_by body e e' \<and> committed_commit_sequence (eng_storage e') = next_commit_sequence e"

lemma keyed_stepped:
  assumes out: "write_outcome e L (finish_write env receipt) (r, e')"
    and lands: "\<And>e1. L e1 \<Longrightarrow> \<exists>delta. lands_keyed env body oper kind table key payload delta e e1"
    and idle: "eng_staging e = None"
  shows "(\<exists>err. r = Inl err) \<and> e' = e \<or> stepped body e e'"
proof (cases "(\<exists>err. r = Inl err) \<and> e' = e")
  case False
  with out obtain e1 where L: "L e1" and run: "finish_write env receipt e1 = (r, e')"
    by (auto simp: write_outcome_def)
  have after: "P e'" if "keeps P (maintain_versioned_history env e1)" for P
    using that run by (auto simp: finish_write_def bindS_def split: prod.splits sum.splits)
  have e1: "st_rows (eng_storage e1) = st_rows (body (eng_storage e))" "eng_catalog e1 = eng_catalog e"
    "eng_staging e1 = None" "committed_commit_sequence (eng_storage e1) = next_commit_sequence e"
    using lands [OF L] idle by (auto simp: lands_keyed_def commits_def landed_def)
  have "same_rows e1 e'" by (rule after [OF maintain_rows]) simp
  moreover have "eng_staging e' = None"
    by (rule after [OF maintain_keeps [of "\<lambda>x. eng_staging x = None"]]) (simp_all add: e1)
  moreover have "committed_commit_sequence (eng_storage e') = next_commit_sequence e"
    by (rule after [OF sequence_frame.maintain_frame]) (rule e1(4))
  ultimately show ?thesis using e1 by (simp add: stepped_def left_by_def same_rows_def)
qed simp

lemma bind_unit: "bindS res (\<lambda>_ e. (Inr (), e)) = (r, e') \<Longrightarrow>
    \<exists>r'. res = (r', e') \<and> ((\<exists>err. r' = Inl err) \<longrightarrow> (\<exists>err. r = Inl err))"
  by (auto simp: bindS_def split: prod.splits sum.splits)

lemma replay_operation_stepped:
  assumes idle: "eng_staging e = None" and run: "replay_operation env table registered oper e = (r, e')"
  shows "(\<exists>err. r = Inl err) \<and> e' = e \<or> stepped (replay_effect env table oper) e e'"
proof (cases "vop_key oper")
  case None
  with run show ?thesis by (auto simp: replay_operation_def)
next
  case (Some key)
  note key = this
  show ?thesis
  proof (cases "vop_operation oper")
    case Assert
    show ?thesis
    proof (cases "replayed_record env table (vop_payload oper)")
      case (Inr x)
      let ?a = "\<lparr>ka_table = table, ka_key = key, ka_record = x\<rparr>"
      from run obtain r' where r': "assert_keyed env ?a e = (r', e')" "(\<exists>err. r' = Inl err) \<longrightarrow> (\<exists>err. r = Inl err)"
        by (auto simp: replay_operation_def key Assert Inr dest: bind_unit)
      have "stepped (replay_effect env table oper) e e' = stepped (row_insert table (to_owned_string key) x) e e'"
        by (simp add: stepped_def left_by_def replay_effect_def key Assert Inr)
      with keyed_stepped [OF assert_keyed_outcome [OF idle, of ?a env, unfolded r'(1)], OF _ idle] r'(2) show ?thesis
        by fastforce
    qed (use run in \<open>auto simp: replay_operation_def key Assert\<close>)
  next
    case Mutate
    show ?thesis
    proof (cases "replayed_record env table (vop_payload oper)")
      case (Inr x)
      let ?m = "\<lparr>km_table = table, km_key = key, km_record = x\<rparr>"
      from run obtain r' where r': "mutate_keyed env ?m e = (r', e')" "(\<exists>err. r' = Inl err) \<longrightarrow> (\<exists>err. r = Inl err)"
        by (auto simp: replay_operation_def key Mutate Inr dest: bind_unit)
      have "stepped (replay_effect env table oper) e e' = stepped (row_insert table (to_owned_string key) x) e e'"
        by (simp add: stepped_def left_by_def replay_effect_def key Mutate Inr)
      with keyed_stepped [OF mutate_keyed_outcome [OF idle, of ?m env, unfolded r'(1)], OF _ idle] r'(2) show ?thesis
        by fastforce
    qed (use run in \<open>auto simp: replay_operation_def key Mutate\<close>)
  next
    case Retract
    let ?rt = "\<lparr>rt_table = table, rt_key = key\<rparr>"
    from run obtain r' where r': "engine_retract env ?rt e = (r', e')" "(\<exists>err. r' = Inl err) \<longrightarrow> (\<exists>err. r = Inl err)"
      by (auto simp: replay_operation_def key Retract dest: bind_unit)
    have "stepped (replay_effect env table oper) e e' = stepped (row_remove table (to_owned_string key)) e e'"
      by (simp add: stepped_def left_by_def replay_effect_def key Retract)
    with keyed_stepped [OF engine_retract_outcome [OF idle, of ?rt env, unfolded r'(1)], OF _ idle] r'(2) show ?thesis
      by fastforce
  qed (use run in \<open>auto simp: replay_operation_def key\<close>)
qed

section \<open>The loop\<close>

lemma replay_effect_rows: "st_rows s = st_rows t \<Longrightarrow>
   st_rows (replay_effect env table oper s) = st_rows (replay_effect env table oper t)"
  by (simp add: replay_effect_def row_insert_def row_remove_def split: option.split sum.split)

lemma replay_effects_rows: "st_rows s = st_rows t \<Longrightarrow>
   st_rows (fold (replay_effect env table) opers s) = st_rows (fold (replay_effect env table) opers t)"
proof (induction opers arbitrary: s t)
  case (Cons oper opers)
  from Cons.IH [OF replay_effect_rows [OF Cons.prems]] show ?case by simp
qed simp

definition family_operations :: "family_identity \<Rightarrow> versioned_log_operation list \<Rightarrow> versioned_log_operation list" where
  "family_operations registered opers = filter (\<lambda>oper. shares_family (vop_family oper) registered) opers"

text \<open>The first \<open>n\<close> of the operations are in the table, one commit each.\<close>

definition replayed :: "'r engine_env \<Rightarrow> string \<Rightarrow> versioned_log_operation list \<Rightarrow> nat \<Rightarrow> 'r engine \<Rightarrow> 'r engine \<Rightarrow> bool" where
  "replayed env table opers n e e' \<longleftrightarrow> n \<le> length opers
     \<and> left_by (fold (replay_effect env table) (take n opers)) e e'
     \<and> committed_commit_sequence (eng_storage e') = committed_commit_sequence (eng_storage e) + of_nat n"

lemma replayed_none: "eng_staging e = None \<Longrightarrow> replayed env table opers 0 e e"
  by (simp add: replayed_def left_by_def)

lemma replayed_step:
  assumes step: "stepped (replay_effect env table oper) e e1" and rest: "replayed env table opers n e1 e'"
  shows "replayed env table (oper # opers) (Suc n) e e'"
proof -
  have step': "st_rows (eng_storage e1) = st_rows (replay_effect env table oper (eng_storage e))"
    "eng_catalog e1 = eng_catalog e" "committed_commit_sequence (eng_storage e1) = committed_commit_sequence (eng_storage e) + 1"
    using step by (simp_all add: stepped_def left_by_def next_commit_sequence_def commit_sequence_next_def)
  have rest': "n \<le> length opers" "eng_staging e' = None" "eng_catalog e' = eng_catalog e1"
    "st_rows (eng_storage e') = st_rows (fold (replay_effect env table) (take n opers) (eng_storage e1))"
    "committed_commit_sequence (eng_storage e') = committed_commit_sequence (eng_storage e1) + of_nat n"
    using rest by (simp_all add: replayed_def left_by_def)
  have "st_rows (eng_storage e') = st_rows (fold (replay_effect env table) (take (Suc n) (oper # opers)) (eng_storage e))"
    unfolding rest'(4) using replay_effects_rows [OF step'(1)] by simp
  then show ?thesis
    using rest'(1,2) unfolding replayed_def left_by_def rest'(3,5) step'(2,3) by simp
qed

text \<open>The outcome of a loop that has counted \<open>a\<close> applied and \<open>k\<close> skipped operations.\<close>

definition replay_outcome ::
  "'r engine_env \<Rightarrow> string \<Rightarrow> family_identity \<Rightarrow> versioned_log_operation list \<Rightarrow> nat \<Rightarrow> nat
   \<Rightarrow> 'r engine \<Rightarrow> error + replay_receipt \<Rightarrow> 'r engine \<Rightarrow> bool" where
  "replay_outcome env table fam opers a k e r e' \<longleftrightarrow>
     (\<exists>n. replayed env table (family_operations fam opers) n e e'
        \<and> (\<forall>receipt. r = Inr receipt \<longrightarrow> n = length (family_operations fam opers)
             \<and> rpr_applied receipt = a + n \<and> rpr_skipped receipt + n = k + length opers))"

lemma outcome_halted: "eng_staging e = None \<Longrightarrow> replay_outcome env table fam opers a k e (Inl err) e"
  unfolding replay_outcome_def by (intro exI [of _ 0]) (simp add: replayed_none)

lemma outcome_skipped:
  "\<not> shares_family (vop_family oper) fam \<Longrightarrow> replay_outcome env table fam opers a (k + 1) e r e' \<Longrightarrow>
   replay_outcome env table fam (oper # opers) a k e r e'"
  by (simp add: replay_outcome_def family_operations_def)

lemma outcome_applied:
  assumes fam: "shares_family (vop_family oper) fam" and step: "stepped (replay_effect env table oper) e e1"
    and rest: "replay_outcome env table fam opers (a + 1) k e1 r e'"
  shows "replay_outcome env table fam (oper # opers) a k e r e'"
proof -
  from rest obtain n where n: "replayed env table (family_operations fam opers) n e1 e'"
    "\<forall>receipt. r = Inr receipt \<longrightarrow> n = length (family_operations fam opers)
       \<and> rpr_applied receipt = a + 1 + n \<and> rpr_skipped receipt + n = k + length opers"
    unfolding replay_outcome_def by blast
  have "replayed env table (family_operations fam (oper # opers)) (Suc n) e e'"
    using replayed_step [OF step n(1)] fam by (simp add: family_operations_def)
  moreover have "Suc n = length (family_operations fam (oper # opers)) \<and> rpr_applied receipt = a + Suc n
      \<and> rpr_skipped receipt + Suc n = k + length (oper # opers)" if "r = Inr receipt" for receipt
  proof -
    from n(2) that have "n = length (family_operations fam opers)" "rpr_applied receipt = a + 1 + n"
      "rpr_skipped receipt + n = k + length opers" by blast+
    then show ?thesis using fam by (simp only:) (simp add: family_operations_def)
  qed
  ultimately show ?thesis unfolding replay_outcome_def by blast
qed

lemma replay_loop_outcome:
  assumes "eng_staging e = None" and "replay_loop env table fam opers a k e = (r, e')"
  shows "replay_outcome env table fam opers a k e r e'"
  using assms
proof (induction opers arbitrary: a k e)
  case Nil
  then have "replayed env table (family_operations fam []) 0 e e'" using replayed_none by simp
  with Nil.prems(2) show ?case
    unfolding replay_outcome_def by (intro exI [of _ 0]) (auto simp: family_operations_def)
next
  case (Cons oper opers)
  show ?case
  proof (cases "shares_family (vop_family oper) fam")
    case False
    with Cons.prems have "replay_loop env table fam opers a (k + 1) e = (r, e')" by simp
    from outcome_skipped [OF False Cons.IH [OF Cons.prems(1) this]] show ?thesis .
  next
    case True
    obtain r1 e1 where op: "replay_operation env table fam oper e = (r1, e1)" by (metis surj_pair)
    from replay_operation_stepped [OF Cons.prems(1) op]
    consider (refused) err where "r1 = Inl err" "e1 = e" | (stepped) "stepped (replay_effect env table oper) e e1" by blast
    then show ?thesis
    proof cases
      case refused
      with Cons.prems True op have "r = Inl err" "e' = e" by simp_all
      with outcome_halted [OF Cons.prems(1)] show ?thesis by simp
    next
      case stepped
      then have idle: "eng_staging e1 = None" by (simp add: stepped_def left_by_def)
      have "replay_outcome env table fam opers (a + 1) k e1 r e'"
        using Cons.prems(2) True op Cons.IH [OF idle, of "a + 1" k] outcome_halted [OF idle] by (cases r1) auto
      from outcome_applied [OF True stepped this] show ?thesis .
    qed
  qed
qed

text \<open>C40 Replaying versioned entries applies the operations of the family and no others, in log order: whatever
  it returns, exactly a prefix of them is in the family's table, each decoded and landed as one commit of its
  own; when it returns a receipt the prefix is all of them, and the receipt counts the operations
  applied and those skipped because they belong to other families.  Dispatch is by family, so entries
  logged under an earlier table name land in the current table.\<close>

theorem replay_applies:
  assumes idle: "eng_staging e = None" and registered: "registered_family e table = Inr fam"
    and run: "replay_versioned env table entries e = (r, e')"
  shows "\<exists>n. replayed env table (family_operations fam (all_operations entries)) n e e'
    \<and> (\<forall>receipt. r = Inr receipt \<longrightarrow> n = length (family_operations fam (all_operations entries))
         \<and> rpr_applied receipt = n \<and> rpr_skipped receipt + n = length (all_operations entries))"
proof -
  have "ensure_registered e table = Inr ()"
    using registered_is [OF registered] by (simp add: ensure_registered_def)
  with run registered have "replay_loop env table fam (all_operations entries) 0 0 e = (r, e')"
    by (simp add: replay_versioned_def)
  from replay_loop_outcome [OF idle this] show ?thesis by (auto simp: replay_outcome_def)
qed

lemma replay_applies_witness:
  "replay_versioned sample_env ''notes'' (versioned_entries (eng_storage sample_logged)) sample_engine =
     (Inr \<lparr>rpr_applied = 1, rpr_skipped = 0\<rparr>, sample_logged)
   \<and> replayed sample_env ''notes'' [sample_versioned_operation] 1 sample_engine sample_logged"
proof -
  obtain v where v: "versioned_entries (eng_storage sample_logged) = [v]"
    "ne_list (ve_operations v) = [sample_versioned_operation]" by (rule sample_logged_entries)
  have opers: "all_operations (versioned_entries (eng_storage sample_logged)) = [sample_versioned_operation]"
    using v by (simp add: all_operations_def)
  have own: "shares_family (vop_family sample_versioned_operation) sample_family"
    by (simp add: sample_versioned_operation_def sample_operation_def shares_family_def)
  have "ensure_registered sample_engine ''notes'' = Inr ()"
    using registered_is [OF sample_registered(1)] by (simp add: ensure_registered_def)
  then have run: "replay_versioned sample_env ''notes'' (versioned_entries (eng_storage sample_logged)) sample_engine =
      (Inr \<lparr>rpr_applied = 1, rpr_skipped = 0\<rparr>, sample_logged)"
    using sample_assert_returns own
    by (simp add: replay_versioned_def opers sample_registered(1) replay_operation_def sample_versioned_operation_def
        sample_operation_def replayed_record_def decode_payload_def keyed_assertion_new_def sample_env_decodes)
  have "family_operations sample_family [sample_versioned_operation] = [sample_versioned_operation]"
    using own by (simp add: family_operations_def)
  with replay_applies [OF _ sample_registered(1) run] run show ?thesis by (auto simp: opers)
qed

end
