(* ===== verification/Spec2Isabelle.thy ===== *)
theory Spec2Isabelle
  imports Checkpoint_Laws Fold_Laws Entry_Digests Engine_Lifecycle Group_Write_Laws History_Theorems Group_Landing
    Write_Theorems Content_Theorems Rebuild_Theorems System_Theorems Resume_Theorems Evolution_Theorems
    Parking_Theorems Identifier_Theorems Lifecycle_Theorems Outbox_Theorems Compaction_Race Replay_Theorems
begin

text \<open>
  A model of sema-engine, the durable versioned record engine of src/, and what makes it correct.

  \<^bold>\<open>The program.\<close>  An \<open>Engine\<close> keeps typed record tables (domain-keyed or engine-identified) in a storage kernel.
  Each write lands in one storage transaction: the row changes, an entry of the metadata log, and on a versioned
  store an entry of a digest-chained log, a mirror outbox row, and the sequence and row counters.  The versioned
  log is the source of truth: folding it gives the canonical view, from which checkpoints are cut, after which
  the covered log prefix may be pruned, and from which the record tables are rebuilt or another store imports.
  A staging session buffers writes into a group that is parked durably and materialized later; a compaction
  intent makes a multi-table retraction resumable.  Subscribers receive a delta per committed change.

  \<^bold>\<open>Theories and the code they model.\<close>

    \<^item> Vocabulary: \<open>Prelude\<close> (results, machine integers), \<open>Bytes\<close> (the length-prefixed encodings digests are taken
      over), \<open>Sema_Tables\<close> (the contents of one storage table as an ordered association list, with its lookup
      laws in a locale), \<open>Errors\<close> (error.rs).
    \<^item> Data: \<open>Records\<close> (record.rs, sequence.rs, snapshot.rs), \<open>Versioning\<close> (versioning.rs), \<open>Logs\<close> (log.rs),
      \<open>Query\<close> (query.rs), \<open>Requests\<close> (mutation.rs, the generated declarations of table.rs), \<open>Catalogs\<close> (catalog.rs,
      the descriptors and evolution steps of table.rs), \<open>Checkpoints\<close> (checkpoint.rs), \<open>Compaction\<close> (compaction.rs),
      \<open>Canonical_View\<close> (the fold of fold.rs).
    \<^item> Storage planes: \<open>Stored_Values\<close> and \<open>Store\<close> (one field per storage table, and the transaction),
      \<open>Commit_Log\<close> (commit_log.rs), \<open>Outbox\<close> (outbox.rs), \<open>Staging\<close> (staging.rs), \<open>Subscriptions\<close> (subscribe.rs),
      \<open>Materialize\<close> (\<open>RowMaterializer\<close> of fold.rs and \<open>DeltaAnnouncer\<close> of staging.rs).
    \<^item> Engine: \<open>Engine_Base\<close> (state, allocation and the inserts of one commit), \<open>Engine_History\<close> (checkpoints,
      compaction, rebuild, mirror surface), \<open>Engine_Staged\<close> (the staged form of every write and read),
      \<open>Engine_Writes\<close> (registration, evolution, direct writes, queries, validation), \<open>Engine_Groups\<close> (atomic.rs,
      the staged group lifecycle, resumable compaction), \<open>Engine_Lifecycle\<close> (open, replay, subscribing, import.rs),
      \<open>Engine_Views\<close> (the accessors).

  An operation of the code is a function from the engine (and its parameters) to a result and the engine it
  leaves, \<open>(error + 'a) \<times> 'r engine\<close>: every \<open>?\<close>, early return and guard of the source is a branch, in the source's
  order.  The write lock makes each operation one step; a compaction, which chooses its checkpoint before it takes the
  lock, is also modelled in its two steps (\<open>Compaction_Race\<close>).  Sequence numbers, counters and identifiers are 64-bit
  words and wrap where the code's release build would; lengths are natural numbers, converted where the code does.

  \<^bold>\<open>Parameters.\<close>  \<open>primitives\<close> holds the hash (blake3) and the record heads of \<open>signal_sema\<close>; \<open>engine_env\<close> the
  record codec (rkyv) and the storage kernel's commit, which may fault and then leaves the store as it was.
  A component's family directory is its choice per row; a sink its delivery mode and results.  Hypotheses on them
  are named: \<open>codec\<close> (decoding returns what was encoded), \<open>record_heads_ok\<close>, \<open>segments_addressable\<close> (no two segments of
  the checkpoint being published share a digest).  Where a claim needs the hash to be collision free the theorem
  exhibits the collision instead of assuming there is none.

  \<^bold>\<open>Lemma groups.\<close>

    \<^item> Data: \<open>Entry_Digests\<close> (the encodings under the digests are injective), \<open>Fold_Laws\<close> (what the fold accepts,
      reports and holds; a checkpoint with the suffix folds like the whole log), \<open>Checkpoint_Laws\<close> (chunking,
      verification, the portable artifact), \<open>Subscriptions\<close> (fan-out and detached delivery).
    \<^item> One commit: \<open>Engine_Invariants\<close> (the invariant \<open>history_ok\<close>), \<open>Commit_Laws\<close> (the locale of transaction bodies that
      land one commit, interpreted for every kind of write), \<open>Write_Laws\<close>, \<open>Write_Properties\<close>, \<open>Write_Theorems\<close>.
    \<^item> History: \<open>History_Laws\<close>, \<open>Maintenance_Laws\<close>, \<open>History_Theorems\<close>, \<open>Retention_Theorems\<close>, \<open>Rebuild_Theorems\<close>,
      \<open>Compaction_Race\<close> (a compaction with another thread between its two halves).
    \<^item> Abstract content: \<open>Log_Content\<close> (the map a log denotes), \<open>Table_Content\<close> (the coupling of tables and content),
      \<open>Content_Refinement\<close>, \<open>Content_Theorems\<close> (direct writes refine one step on the content).
    \<^item> Tables and log together: \<open>Coupling_Laws\<close> (the coupling of every registered family, the content closed under
      the catalog, and the families the log may name), \<open>Coupling_Steps\<close>, \<open>Coupling_Rebuild\<close>,
      \<open>Coupling_Registration\<close> (every operation preserves it), \<open>Coupling_Theorems\<close> (the steps of a well-behaved
      component and the invariant of every engine they reach), \<open>Parking_Theorems\<close> (a parked session lands).
    \<^item> Identifiers: \<open>Identifier_Laws\<close> (the counter of each engine-identified table, what a buffering session mints),
      \<open>Identifier_Landing\<close> (a landed group), \<open>Identifier_Theorems\<close> (over any run no identifier is minted twice, for a
      component that uses each table with keys of one kind, as the typed table references of table.rs have it).
    \<^item> Groups: \<open>Staging_Laws\<close>, \<open>Group_Write_Laws\<close>, \<open>Group_Landing\<close>, \<open>Staging_Theorems\<close>, \<open>Resume_Theorems\<close>.
    \<^item> System: \<open>Registration_Laws\<close>, \<open>Lifecycle_Laws\<close>, \<open>System_Steps\<close> (the step relation over every operation and
      its invariant), \<open>System_Theorems\<close>, \<open>Evolution_Theorems\<close>, \<open>Lifecycle_Theorems\<close>, \<open>Outbox_Laws\<close>, \<open>Outbox_Theorems\<close>,
      \<open>Read_Theorems\<close>, \<open>Replay_Theorems\<close>, \<open>Import_Theorems\<close>.
    \<^item> Contracts shared by several operations are locales, interpreted on the model: \<open>commit_body\<close> (a transaction
      body that lands one commit), \<open>staged_writes\<close> (what a buffered write may append to a session), \<open>row_coupling\<close>
      (a relation between tables and content kept by a row change with its operation), \<open>history_effect\<close> and
      \<open>compaction_effect\<close> (what checkpoints, pruning and the steps of a compaction leave of a relation).
    \<^item> \<open>Samples\<close> and \<open>Sample_Engine\<close> hold the concrete values of the witnesses.

  \<^bold>\<open>Bounds.\<close>  \<open>resume_compaction\<close> calls itself after each durable phase; its model has fuel 4, one call per phase and
  one that finds no intent, and \<open>resume_returns\<close> shows that the fuel is never exhausted.  No other operation needs
  fuel.  Invariants that speak of rising sequences ask that the commit sequence has not reached its last value
  (\<open>has_room\<close>).

  \<^bold>\<open>Not modelled.\<close>  lib.rs only re-exports; the storage kernel, rkyv, blake3, \<open>signal_sema\<close> and \<open>signal_frame\<close> are
  third-party and parameters; \<open>Display\<close> texts of errors other than those that reach a value, file paths and the
  kernel's schema check; lock poisoning, which only follows a panic; the tests.
\<close>

end
